(* ===== verification/Rw_Prelude.thy ===== *)
theory Rw_Prelude
  imports Main "HOL-Library.Word"
begin

text \<open>
  The shared vocabulary of the development: machine words and bytes, the little-endian
  encodings both sides of the driver use for their buffers, byte-addressed memory with
  wrapping 64-bit addresses, updates of a byte buffer at an offset, NUL-terminated names,
  and the decomposition of a bit vector into its maximal runs, which is the specification of
  the resident-page scans. Nothing here models code; the component theories use these
  notions for their data and state their specifications with them.
\<close>

unbundle bit_operations_syntax

section \<open>Words and bytes\<close>

type_synonym byte = "8 word"
type_synonym u16 = "16 word"
type_synonym u32 = "32 word"
type_synonym u64 = "64 word"
type_synonym memory = "u64 \<Rightarrow> byte"

named_theorems le_simps \<open>little-endian encodings\<close>
named_theorems mem_simps \<open>reads and writes of byte-addressed memory\<close>
named_theorems buf_simps \<open>reads and writes of byte buffers at an offset\<close>

lemma less_word_induct [case_names less]:
  assumes "\<And>x::'a::len word. (\<And>y. unat y < unat x \<Longrightarrow> P y) \<Longrightarrow> P x"
  shows "P x"
  by (induction x rule: measure_induct_rule [where f = unat]) (rule assms)

lemma unat_bound: "unat (w::'a::len word) < 2 ^ LENGTH('a)"
  by (rule unsigned_less)

lemma unat_le_sub [simp]: "(d::'a::len word) \<le> s \<Longrightarrow> unat (s - d) = unat s - unat d"
  by (simp add: unat_sub)

section \<open>Little-endian encodings\<close>

primrec le_bytes :: "nat \<Rightarrow> nat \<Rightarrow> byte list" where
  "le_bytes 0 x = []"
| "le_bytes (Suc n) x = word_of_nat x # le_bytes n (x div 256)"

primrec le_nat :: "byte list \<Rightarrow> nat" where
  "le_nat [] = 0"
| "le_nat (b # bs) = unat b + 256 * le_nat bs"

lemma length_le_bytes [simp]: "length (le_bytes n x) = n"
  by (induction n arbitrary: x) auto

lemma unat_byte_of_nat: "unat (word_of_nat x :: byte) = x mod 256"
  by (simp add: unsigned_of_nat take_bit_eq_mod)

lemma le_nat_le_bytes: "le_nat (le_bytes n x) = x mod 256 ^ n"
proof (induction n arbitrary: x)
  case 0
  then show ?case by simp
next
  case (Suc n)
  have "x mod 256 + 256 * (x div 256 mod 256 ^ n) = x mod (256 * 256 ^ n)"
    by (simp add: mod_mult2_eq)
  with Suc show ?case by (simp add: unat_byte_of_nat)
qed

lemma le_nat_bound: "le_nat bs < 256 ^ length bs"
proof (induction bs)
  case Nil
  then show ?case by simp
next
  case (Cons b bs)
  have "unat b < 256" using unat_bound [of b] by simp
  with Cons show ?case by simp
qed

definition u64_bytes :: "u64 \<Rightarrow> byte list" where
  "u64_bytes w = le_bytes 8 (unat w)"

definition u32_bytes :: "u32 \<Rightarrow> byte list" where
  "u32_bytes w = le_bytes 4 (unat w)"

definition u16_bytes :: "u16 \<Rightarrow> byte list" where
  "u16_bytes w = le_bytes 2 (unat w)"

definition u64_of :: "byte list \<Rightarrow> u64" where
  "u64_of bs = word_of_nat (le_nat bs)"

definition u32_of :: "byte list \<Rightarrow> u32" where
  "u32_of bs = word_of_nat (le_nat bs)"

lemma length_u64_bytes [simp]: "length (u64_bytes w) = 8"
  and length_u32_bytes [simp]: "length (u32_bytes v) = 4"
  and length_u16_bytes [simp]: "length (u16_bytes u) = 2"
  by (simp_all add: u64_bytes_def u32_bytes_def u16_bytes_def)

lemma u64_of_bytes [simp]: "u64_of (u64_bytes w) = w"
proof -
  have "unat w mod 256 ^ 8 = unat w" using unat_bound [of w] by simp
  then show ?thesis by (simp only: u64_of_def u64_bytes_def le_nat_le_bytes) simp
qed

lemma u32_of_bytes [simp]: "u32_of (u32_bytes w) = w"
proof -
  have "unat w mod 256 ^ 4 = unat w" using unat_bound [of w] by simp
  then show ?thesis by (simp only: u32_of_def u32_bytes_def le_nat_le_bytes) simp
qed

lemmas [le_simps] = u64_of_bytes u32_of_bytes length_u64_bytes length_u32_bytes
  length_u16_bytes length_le_bytes

section \<open>Byte buffers\<close>

text \<open>A C array of bytes is a list; \<open>put_bytes\<close> is an assignment or a \<open>memcpy\<close> into it.\<close>

definition get_bytes :: "nat \<Rightarrow> nat \<Rightarrow> byte list \<Rightarrow> byte list" where
  "get_bytes off n buf = take n (drop off buf)"

definition put_bytes :: "nat \<Rightarrow> byte list \<Rightarrow> byte list \<Rightarrow> byte list" where
  "put_bytes off bs buf = take off buf @ bs @ drop (off + length bs) buf"

lemma length_put_bytes [simp]:
  "off + length bs \<le> length buf \<Longrightarrow> length (put_bytes off bs buf) = length buf"
  by (simp add: put_bytes_def)

lemma get_put_same [simp, buf_simps]:
  "off + length bs \<le> length buf \<Longrightarrow> n = length bs \<Longrightarrow>
    get_bytes off n (put_bytes off bs buf) = bs"
  by (simp add: get_bytes_def put_bytes_def)

lemma get_put_before [simp, buf_simps]:
  assumes "o1 + n \<le> off" "off + length bs \<le> length buf"
  shows "get_bytes o1 n (put_bytes off bs buf) = get_bytes o1 n buf"
proof -
  have "take n (drop o1 (take off buf @ bs @ drop (off + length bs) buf)) =
    take n (drop o1 (take off buf))"
    using assms by simp
  also have "\<dots> = take n (drop o1 buf)" using assms by (simp add: drop_take)
  finally show ?thesis by (simp add: get_bytes_def put_bytes_def)
qed

lemma get_put_after [simp, buf_simps]:
  assumes "off + length bs \<le> o1" "off + length bs \<le> length buf"
  shows "get_bytes o1 n (put_bytes off bs buf) = get_bytes o1 n buf"
  using assms by (simp add: get_bytes_def put_bytes_def)

lemma length_get_bytes [simp]: "off + n \<le> length buf \<Longrightarrow> length (get_bytes off n buf) = n"
  by (simp add: get_bytes_def)

text \<open>A NUL-terminated string in an array: the bytes before the first zero.\<close>

definition cstr :: "byte list \<Rightarrow> byte list" where
  "cstr bs = takeWhile (\<lambda>b. b \<noteq> 0) bs"

definition str_bytes :: "string \<Rightarrow> byte list" where
  "str_bytes s = map of_char s"

lemma cstr_append_nul: "0 \<notin> set xs \<Longrightarrow> cstr (xs @ 0 # ys) = xs"
  by (induction xs) (auto simp: cstr_def)

lemma cstr_no_nul: "0 \<notin> set xs \<Longrightarrow> cstr xs = xs"
  by (induction xs) (auto simp: cstr_def)

lemma set_cstr: "0 \<notin> set (cstr bs)"
  by (auto simp: cstr_def dest: set_takeWhileD)

lemma length_cstr_le: "length (cstr bs) \<le> length bs"
  by (simp add: cstr_def length_takeWhile_le)

section \<open>Byte-addressed memory\<close>

lemma unat_u64_of_nat: "n < 2 ^ 64 \<Longrightarrow> unat (word_of_nat n :: u64) = n"
  by (simp add: unsigned_of_nat take_bit_nat_eq_self_iff)

lemma unat_add_of_nat:
  assumes "unat (p::u64) + k < 2 ^ 64"
  shows "unat (p + word_of_nat k) = unat p + k"
proof -
  have "unat (word_of_nat k :: u64) = k" using assms by (intro unat_u64_of_nat) simp
  with assms show ?thesis by (simp add: unat_word_ariths del: of_nat_add of_nat_mult)
qed

definition mem_read :: "memory \<Rightarrow> u64 \<Rightarrow> nat \<Rightarrow> byte list" where
  "mem_read m a n = map (\<lambda>i. m (a + word_of_nat i)) [0..<n]"

definition mem_write :: "memory \<Rightarrow> u64 \<Rightarrow> byte list \<Rightarrow> memory" where
  "mem_write m a bs = (\<lambda>x. if unat (x - a) < length bs then bs ! unat (x - a) else m x)"

lemma length_mem_read [simp]: "length (mem_read m a n) = n"
  by (simp add: mem_read_def)

lemma nth_mem_read [simp]: "i < n \<Longrightarrow> mem_read m a n ! i = m (a + word_of_nat i)"
  by (simp add: mem_read_def)

lemma mem_write_Nil [simp]: "mem_write m a [] = m"
  by (simp add: mem_write_def)

lemma mem_read_write_same [mem_simps]:
  assumes "length bs \<le> 2 ^ 64"
  shows "mem_read (mem_write m a bs) a (length bs) = bs"
proof (rule nth_equalityI)
  fix i assume "i < length (mem_read (mem_write m a bs) a (length bs))"
  then have i: "i < length bs" by simp
  with assms have "unat (word_of_nat i :: u64) = i" by (intro unat_u64_of_nat) simp
  with i show "mem_read (mem_write m a bs) a (length bs) ! i = bs ! i"
    by (simp add: mem_write_def)
qed simp

lemma mem_read_write_n [simp]:
  "length bs = n \<Longrightarrow> n \<le> 2 ^ 64 \<Longrightarrow> mem_read (mem_write m a bs) a n = bs"
  using mem_read_write_same by blast

lemma mem_write_append:
  assumes "length xs + length ys \<le> 2 ^ 64"
  shows "mem_write (mem_write m a xs) (a + word_of_nat (length xs)) ys = mem_write m a (xs @ ys)"
proof
  fix x :: u64
  show "mem_write (mem_write m a xs) (a + word_of_nat (length xs)) ys x = mem_write m a (xs @ ys) x"
  proof (cases "ys = []")
    case False
    then have l: "length xs < 2 ^ 64" using assms by (cases ys) auto
    define n where "n = length xs"
    define d where "d = x - a"
    have e: "x - (a + word_of_nat n) = d - word_of_nat n" by (simp add: d_def)
    have un: "unat (word_of_nat n :: u64) = n" using l by (simp add: unat_u64_of_nat n_def)
    show ?thesis
    proof (cases "unat d < n")
      case True
      have "unat (d - word_of_nat n) = 2 ^ 64 + unat d - n"
        using True un by (simp add: unat_sub_if' not_le)
      then have "\<not> unat (d - word_of_nat n) < length ys" using assms True
        by (simp add: n_def)
      then show ?thesis using True
        by (simp add: mem_write_def e flip: n_def d_def) (simp add: nth_append n_def)
    next
      case False
      then have "unat (d - word_of_nat n) = unat d - n"
        using un by (simp add: unat_sub_if' not_less)
      then show ?thesis using False
        by (auto simp: mem_write_def e nth_append simp flip: n_def d_def)
    qed
  qed simp
qed

text \<open>Two writes to adjacent places commute.\<close>

lemma mem_write_adjacent:
  assumes "length xs + length ys \<le> 2 ^ 64" "length xs < 2 ^ 64"
  shows "mem_write (mem_write m (a + word_of_nat (length xs)) ys) a xs = mem_write m a (xs @ ys)"
proof -
  have "mem_write (mem_write m (a + word_of_nat (length xs)) ys) a xs =
      mem_write (mem_write m a xs) (a + word_of_nat (length xs)) ys"
  proof
    fix x :: u64
    have un: "unat (word_of_nat (length xs) :: u64) = length xs" by (rule unat_u64_of_nat [OF assms(2)])
    define d where "d = x - a"
    have e: "x - (a + word_of_nat (length xs)) = d - word_of_nat (length xs)" by (simp add: d_def)
    have "\<not> unat (d - word_of_nat (length xs)) < length ys" if "unat d < length xs"
    proof -
      have "unat (d - word_of_nat (length xs)) = 2 ^ 64 + unat d - length xs"
        using that un by (simp add: unat_sub_if' not_le)
      with that assms(1) show ?thesis by simp
    qed
    then show "mem_write (mem_write m (a + word_of_nat (length xs)) ys) a xs x =
        mem_write (mem_write m a xs) (a + word_of_nat (length xs)) ys x"
      by (simp add: mem_write_def e flip: d_def)
  qed
  then show ?thesis by (simp only: mem_write_append [OF assms(1)])
qed

lemma mem_read_append:
  "mem_read m a (n + k) = mem_read m a n @ mem_read m (a + word_of_nat n) k"
proof (rule nth_equalityI)
  fix i assume i: "i < length (mem_read m a (n + k))"
  show "mem_read m a (n + k) ! i = (mem_read m a n @ mem_read m (a + word_of_nat n) k) ! i"
  proof (cases "i < n")
    case False
    then obtain j where "i = n + j" using le_Suc_ex not_less by blast
    with i show ?thesis by (simp add: nth_append add.assoc)
  qed (use i in \<open>simp add: nth_append\<close>)
qed simp

lemma mem_read_cong:
  "(\<And>i. i < n \<Longrightarrow> m (a + word_of_nat i) = m' (a' + word_of_nat i)) \<Longrightarrow>
    mem_read m a n = mem_read m' a' n"
  by (simp add: mem_read_def)

lemma mem_write_keep_last:
  assumes "length xs < 2 ^ 64" "m (a + word_of_nat (length xs)) = y"
  shows "mem_write m a (xs @ [y]) = mem_write m a xs"
proof
  fix x :: u64
  show "mem_write m a (xs @ [y]) x = mem_write m a xs x"
  proof (cases "unat (x - a) = length xs")
    case True
    then have "x = a + word_of_nat (length xs)" by (simp flip: True)
    then show ?thesis using assms True by (simp add: mem_write_def nth_append)
  qed (auto simp: mem_write_def nth_append)
qed

lemma mem_write_beyond:
  assumes "length bs \<le> k" "k < 2 ^ 64"
  shows "mem_write m a bs (a + word_of_nat k) = m (a + word_of_nat k)"
  using assms by (simp add: mem_write_def unat_u64_of_nat)

lemma mem_write_frame: "length bs \<le> unat (x - a) \<Longrightarrow> mem_write m a bs x = m x"
  by (simp add: mem_write_def)

section \<open>Maximal runs of a bit vector\<close>

text \<open>
  \<open>runs bs\<close> lists the maximal runs of set bits as half-open index intervals, in order. The
  two lemmas \<open>runs_cover\<close> and \<open>runs_gaps\<close> determine it: the intervals hold exactly the set
  positions, and between two of them there is a clear one.
\<close>

fun runs_from :: "nat \<Rightarrow> nat option \<Rightarrow> bool list \<Rightarrow> (nat \<times> nat) list" where
  "runs_from i None [] = []"
| "runs_from i (Some b) [] = [(b, i)]"
| "runs_from i None (x # xs) = runs_from (Suc i) (if x then Some i else None) xs"
| "runs_from i (Some b) (x # xs) =
     (if x then runs_from (Suc i) (Some b) xs else (b, i) # runs_from (Suc i) None xs)"

definition runs :: "bool list \<Rightarrow> (nat \<times> nat) list" where
  "runs bs = runs_from 0 None bs"

lemma runs_from_cover:
  "(case st of None \<Rightarrow> True | Some b \<Rightarrow> b < i) \<Longrightarrow>
   (\<exists>r \<in> set (runs_from i st bs). fst r \<le> k \<and> k < snd r) \<longleftrightarrow>
   (case st of None \<Rightarrow> False | Some b \<Rightarrow> b \<le> k \<and> k < i) \<or>
   (i \<le> k \<and> k < i + length bs \<and> bs ! (k - i))"
proof (induction i st bs rule: runs_from.induct)
  case (3 i x xs)
  from "3.IH" have "(\<exists>r \<in> set (runs_from i None (x # xs)). fst r \<le> k \<and> k < snd r) \<longleftrightarrow>
     (x \<and> k = i) \<or> (Suc i \<le> k \<and> k < Suc i + length xs \<and> xs ! (k - Suc i))"
    by (auto split: if_splits)
  also have "\<dots> \<longleftrightarrow> i \<le> k \<and> k < i + length (x # xs) \<and> (x # xs) ! (k - i)"
    by (cases "k = i") (auto simp: nth_Cons' Suc_diff_le)
  finally show ?case by simp
next
  case (4 i b x xs)
  have eq: "(i \<le> k \<and> k < i + length (x # xs) \<and> (x # xs) ! (k - i)) \<longleftrightarrow>
     (x \<and> k = i) \<or> (Suc i \<le> k \<and> k < Suc i + length xs \<and> xs ! (k - Suc i))"
    by (cases "k = i") (auto simp: nth_Cons' Suc_diff_le)
  show ?case
  proof (cases x)
    case True
    with "4.IH"(1) "4.prems" show ?thesis unfolding eq by auto
  next
    case False
    with "4.IH"(2) "4.prems" show ?thesis unfolding eq by auto
  qed
qed auto

lemma runs_cover:
  "(\<exists>r \<in> set (runs bs). fst r \<le> k \<and> k < snd r) \<longleftrightarrow> k < length bs \<and> bs ! k"
  using runs_from_cover [where st = None and i = 0 and bs = bs and k = k] by (simp add: runs_def)

lemma runs_from_bounds:
  "(case st of None \<Rightarrow> True | Some b \<Rightarrow> b < i) \<Longrightarrow> r \<in> set (runs_from i st bs) \<Longrightarrow>
    (case st of None \<Rightarrow> i | Some b \<Rightarrow> b) \<le> fst r \<and> fst r < snd r \<and> snd r \<le> i + length bs"
proof (induction i st bs rule: runs_from.induct)
  case (3 i x xs)
  then show ?case by (cases x) fastforce+
next
  case (4 i b x xs)
  then show ?case by (cases x) fastforce+
qed auto

lemma runs_bounds: "r \<in> set (runs bs) \<Longrightarrow> fst r < snd r \<and> snd r \<le> length bs"
  using runs_from_bounds [where st = None and i = 0 and r = r and bs = bs] by (simp add: runs_def)

lemma runs_from_gaps:
  "(case st of None \<Rightarrow> True | Some b \<Rightarrow> b < i) \<Longrightarrow>
    sorted_wrt (\<lambda>r r'. snd r < fst r') (runs_from i st bs)"
proof (induction i st bs rule: runs_from.induct)
  case (3 i x xs)
  then show ?case by (cases x) auto
next
  case (4 i b x xs)
  then show ?case using runs_from_bounds [where st = None and i = "Suc i" and bs = xs] by (cases x) fastforce+
qed auto

lemma runs_gaps: "sorted_wrt (\<lambda>r r'. snd r < fst r') (runs bs)"
  unfolding runs_def by (rule runs_from_gaps) simp

end
