(* ===== verification/Kernel_Env.thy ===== *)
theory Kernel_Env
  imports Rw_Prelude
begin

text \<open>
  The Linux kernel as the driver sees it. The kernel's functions are not part of this
  repository, so they are parameters: a value of type \<open>kenv\<close> is passed to every
  definition that calls them, and what a theorem needs of them is a named hypothesis
  (\<open>kenv_lookup_ok\<close>, \<open>kenv_pte_ok\<close>, \<open>kenv_copy_ok\<close> below, each the documented behaviour of
  the functions it names). The state the driver reads and writes through these functions
  is the record \<open>kst\<close>: the caller's address space, kernel buffers, physical memory, the
  page-table words by kernel address, and the references it holds on pids and address
  spaces, which are counted so that leaks are visible.
\<close>

section \<open>Error numbers and constants of the kernel's headers\<close>

definition EINVAL :: int where "EINVAL = 22"
definition EFAULT :: int where "EFAULT = 14"
definition ENOMEM :: int where "ENOMEM = 12"

text \<open>The build the clients assume has 4 KiB pages.\<close>

definition PAGE_SIZE :: u64 where "PAGE_SIZE = 4096"

definition VM_READ :: u64 where "VM_READ = 1"
definition VM_WRITE :: u64 where "VM_WRITE = 2"
definition VM_EXEC :: u64 where "VM_EXEC = 4"
definition VM_MAYSHARE :: u64 where "VM_MAYSHARE = 0x80"

text \<open>The command numbers of \<open>linux/ioctl.h\<close>: direction, argument size, type and number.\<close>

definition ioc :: "u32 \<Rightarrow> u32 \<Rightarrow> u32 \<Rightarrow> u32 \<Rightarrow> u32" where
  "ioc dir typ nr sz = push_bit 30 dir OR push_bit 16 sz OR push_bit 8 typ OR nr"

definition IOC_IO :: "u32 \<Rightarrow> u32 \<Rightarrow> u32" where "IOC_IO typ nr = ioc 0 typ nr 0"
definition IOW :: "u32 \<Rightarrow> u32 \<Rightarrow> u32 \<Rightarrow> u32" where "IOW typ nr sz = ioc 1 typ nr sz"
definition IOWR :: "u32 \<Rightarrow> u32 \<Rightarrow> u32 \<Rightarrow> u32" where "IOWR typ nr sz = ioc 3 typ nr sz"

lemmas ioc_defs = ioc_def IOC_IO_def IOW_def IOWR_def

section \<open>Address spaces\<close>

record vma =
  vm_start :: u64
  vm_end :: u64
  vm_flags :: u64
  vm_file :: "nat option"

record mm =
  mm_id :: nat
  mmap :: "vma list"
  map_count :: u32
  start_brk :: u64
  brk :: u64
  start_stack :: u64
  vdso :: u64

datatype dpath = Path "byte list" | PathErr int

section \<open>Kernel functions the driver calls\<close>

record kenv =
  find_get_pid :: "u32 \<Rightarrow> nat option"
  pid_task :: "nat \<Rightarrow> nat option"
  task_mm :: "nat \<Rightarrow> mm option"
  find_vma :: "mm \<Rightarrow> u64 \<Rightarrow> vma option"
  d_path :: "nat \<Rightarrow> dpath"
  pgd_offset :: "mm \<Rightarrow> u64 \<Rightarrow> u64"
  p4d_offset :: "(u64 \<Rightarrow> u64) \<Rightarrow> u64 \<Rightarrow> u64 \<Rightarrow> u64"
  pud_offset :: "(u64 \<Rightarrow> u64) \<Rightarrow> u64 \<Rightarrow> u64 \<Rightarrow> u64"
  pmd_offset :: "(u64 \<Rightarrow> u64) \<Rightarrow> u64 \<Rightarrow> u64 \<Rightarrow> u64"
  pte_offset_kernel :: "(u64 \<Rightarrow> u64) \<Rightarrow> u64 \<Rightarrow> u64 \<Rightarrow> u64"
  pgd_none :: "u64 \<Rightarrow> bool"
  p4d_none :: "u64 \<Rightarrow> bool"
  pud_none :: "u64 \<Rightarrow> bool"
  pmd_none :: "u64 \<Rightarrow> bool"
  pte_none :: "u64 \<Rightarrow> bool"
  pte_phys :: "u64 \<Rightarrow> u64"            \<comment> \<open>\<open>page_to_phys(pte_page(pte))\<close>\<close>
  pte_read :: "(u64 \<Rightarrow> bool) option"   \<comment> \<open>\<open>None\<close> when the macro is not defined\<close>
  pte_write :: "u64 \<Rightarrow> bool"
  pte_mkwrite :: "u64 \<Rightarrow> u64"
  pte_wrprotect :: "u64 \<Rightarrow> u64"
  pte_exec :: "(u64 \<Rightarrow> bool) option"
  pte_user_exec :: "(u64 \<Rightarrow> bool) option"
  pte_mkexec :: "(u64 \<Rightarrow> u64) option"
  pte_mknexec :: "(u64 \<Rightarrow> u64) option"
  si_totalram :: u64
  si_mem_unit :: u32
  hweight32 :: "u32 \<Rightarrow> nat"
  pa :: "u64 \<Rightarrow> u64"                  \<comment> \<open>\<open>__pa\<close>\<close>
  kmalloc_ok :: "u64 \<Rightarrow> bool"
  xlate_ok :: "u64 \<Rightarrow> bool"           \<comment> \<open>\<open>xlate_dev_mem_ptr\<close> is not NULL\<close>
  probe_ok :: "u64 \<Rightarrow> u64 \<Rightarrow> bool"    \<comment> \<open>\<open>copy_from_kernel_nofault\<close> returns 0\<close>
  ctu_left :: "u64 \<Rightarrow> nat \<Rightarrow> nat"     \<comment> \<open>bytes \<open>copy_to_user\<close> cannot copy\<close>
  cfu_left :: "u64 \<Rightarrow> nat \<Rightarrow> nat"     \<comment> \<open>bytes \<open>copy_from_user\<close> cannot copy\<close>

record kst =
  umem :: memory
  kmem :: memory
  phys :: memory
  ptab :: "u64 \<Rightarrow> u64"
  pid_refs :: "nat \<Rightarrow> int"
  mm_refs :: "nat \<Rightarrow> int"
  mmap_readers :: "nat \<Rightarrow> int"
  g_phy_total :: u64

section \<open>Calls with an effect on the state\<close>

text \<open>
  The user-copy functions return the number of bytes they could not copy; the bytes before
  those are copied. Whether and where they fault is the parameter's choice.
\<close>

definition copy_to_user :: "kenv \<Rightarrow> u64 \<Rightarrow> byte list \<Rightarrow> kst \<Rightarrow> nat \<times> kst" where
  "copy_to_user K dst bs s =
     (let left = min (ctu_left K dst (length bs)) (length bs)
      in (left, s\<lparr>umem := mem_write (umem s) dst (take (length bs - left) bs)\<rparr>))"

definition copy_from_user :: "kenv \<Rightarrow> u64 \<Rightarrow> nat \<Rightarrow> kst \<Rightarrow> nat \<times> byte list" where
  "copy_from_user K src n s =
     (let left = min (cfu_left K src n) n in (left, mem_read (umem s) src (n - left)))"

text \<open>References taken and dropped: \<open>find_get_pid\<close>, \<open>put_pid\<close>, \<open>get_task_mm\<close>, \<open>mmput\<close>, and
  the read lock on the address space.\<close>

definition get_pid :: "nat \<Rightarrow> kst \<Rightarrow> kst" where
  "get_pid p s = s\<lparr>pid_refs := (pid_refs s)(p := pid_refs s p + 1)\<rparr>"

definition put_pid :: "nat \<Rightarrow> kst \<Rightarrow> kst" where
  "put_pid p s = s\<lparr>pid_refs := (pid_refs s)(p := pid_refs s p - 1)\<rparr>"

definition get_mm :: "mm \<Rightarrow> kst \<Rightarrow> kst" where
  "get_mm m s = s\<lparr>mm_refs := (mm_refs s)(mm_id m := mm_refs s (mm_id m) + 1)\<rparr>"

definition mmput :: "mm \<Rightarrow> kst \<Rightarrow> kst" where
  "mmput m s = s\<lparr>mm_refs := (mm_refs s)(mm_id m := mm_refs s (mm_id m) - 1)\<rparr>"

definition down_read :: "mm \<Rightarrow> kst \<Rightarrow> kst" where
  "down_read m s = s\<lparr>mmap_readers := (mmap_readers s)(mm_id m := mmap_readers s (mm_id m) + 1)\<rparr>"

definition up_read :: "mm \<Rightarrow> kst \<Rightarrow> kst" where
  "up_read m s = s\<lparr>mmap_readers := (mmap_readers s)(mm_id m := mmap_readers s (mm_id m) - 1)\<rparr>"

named_theorems ref_defs \<open>definitions of the reference-counting calls\<close>

lemmas [ref_defs] = get_pid_def put_pid_def get_mm_def mmput_def down_read_def up_read_def

text \<open>A lock and a reference that are taken and then dropped leave the state as it was.\<close>

lemma ref_balance [simp]:
  "put_pid p (get_pid p s) = s"
  "mmput m (get_mm m s) = s"
  "mmput m (up_read m (down_read m (get_mm m s))) = s"
  by (simp_all add: ref_defs)

section \<open>What the driver relies on\<close>

text \<open>
  \<open>kenv_lookup_ok\<close>: the page-table walk of one address depends on the page only, and a
  page starts at a multiple of the page size. \<open>kenv_pte_ok\<close>: making an entry writable
  does so, and write-protecting an entry removes the permission. \<open>kenv_copy_ok\<close>: the
  accesses a theorem is about do not fault.
\<close>

definition page_of :: "u64 \<Rightarrow> u64" where
  "page_of va = va AND NOT (PAGE_SIZE - 1)"

definition kenv_lookup_ok :: "kenv \<Rightarrow> bool" where
  "kenv_lookup_ok K \<longleftrightarrow>
     (\<forall>m va. pgd_offset K m va = pgd_offset K m (page_of va)) \<and>
     (\<forall>t e va. p4d_offset K t e va = p4d_offset K t e (page_of va)) \<and>
     (\<forall>t e va. pud_offset K t e va = pud_offset K t e (page_of va)) \<and>
     (\<forall>t e va. pmd_offset K t e va = pmd_offset K t e (page_of va)) \<and>
     (\<forall>t e va. pte_offset_kernel K t e va = pte_offset_kernel K t e (page_of va)) \<and>
     (\<forall>v. pte_phys K v AND (PAGE_SIZE - 1) = 0)"

definition kenv_pte_ok :: "kenv \<Rightarrow> bool" where
  "kenv_pte_ok K \<longleftrightarrow>
     (\<forall>v. pte_write K (pte_mkwrite K v)) \<and> (\<forall>v. \<not> pte_write K (pte_wrprotect K v))"

definition kenv_copy_ok :: "kenv \<Rightarrow> bool" where
  "kenv_copy_ok K \<longleftrightarrow>
     (\<forall>a n. ctu_left K a n = 0) \<and> (\<forall>a n. cfu_left K a n = 0) \<and>
     (\<forall>n. kmalloc_ok K n) \<and> (\<forall>a. xlate_ok K a) \<and> (\<forall>a n. probe_ok K a n)"

section \<open>A concrete kernel for the witnesses\<close>

text \<open>
  One process (pid 7) with one readable and writable mapping of two pages at 0x10000 and
  a read-only one at 0x20000; the page at \<open>va\<close> is present when bit 0 of the leaf word at
  \<open>4096 + page number\<close> is set, its frame is the word's page part and bit 1 is the write
  permission.
\<close>

definition demo_vmas :: "vma list" where
  "demo_vmas =
     [\<lparr>vm_start = 0x10000, vm_end = 0x12000, vm_flags = 3, vm_file = None\<rparr>,
      \<lparr>vm_start = 0x20000, vm_end = 0x21000, vm_flags = 5, vm_file = Some 1\<rparr>]"

definition demo_mm :: mm where
  "demo_mm = \<lparr>mm_id = 1, mmap = demo_vmas, map_count = 2, start_brk = 0x11000, brk = 0x11800,
     start_stack = 0x900000, vdso = 0x800000\<rparr>"

definition demo_find_vma :: "mm \<Rightarrow> u64 \<Rightarrow> vma option" where
  "demo_find_vma m a = find (\<lambda>v. a < vm_end v) (mmap m)"

definition demo_env :: kenv where
  "demo_env = \<lparr>
     find_get_pid = (\<lambda>n. if n = 7 then Some 3 else None),
     pid_task = (\<lambda>p. if p = 3 then Some 5 else None),
     task_mm = (\<lambda>t. if t = 5 then Some demo_mm else None),
     find_vma = demo_find_vma,
     d_path = (\<lambda>f. if f = 1 then Path [0x2f, 0x61] else PathErr 36),
     pgd_offset = (\<lambda>m va. 8),
     p4d_offset = (\<lambda>t e va. e),
     pud_offset = (\<lambda>t e va. e),
     pmd_offset = (\<lambda>t e va. e),
     pte_offset_kernel = (\<lambda>t e va. PAGE_SIZE + drop_bit 12 va),
     pgd_none = (\<lambda>v. v = 0), p4d_none = (\<lambda>v. v = 0), pud_none = (\<lambda>v. v = 0),
     pmd_none = (\<lambda>v. v = 0), pte_none = (\<lambda>v. v AND 1 = 0),
     pte_phys = page_of,
     pte_read = None,
     pte_write = (\<lambda>v. v AND 2 = 2),
     pte_mkwrite = (\<lambda>v. v OR 2),
     pte_wrprotect = (\<lambda>v. v AND NOT 2),
     pte_exec = Some (\<lambda>v. v AND 4 = 0), pte_user_exec = None,
     pte_mkexec = Some (\<lambda>v. v AND NOT 4), pte_mknexec = Some (\<lambda>v. v OR 4),
     si_totalram = 0x100000, si_mem_unit = 4096, hweight32 = (\<lambda>_. 12), pa = (\<lambda>x. x),
     kmalloc_ok = (\<lambda>_. True), xlate_ok = (\<lambda>_. True), probe_ok = (\<lambda>_ _. True),
     ctu_left = (\<lambda>_ _. 0), cfu_left = (\<lambda>_ _. 0)\<rparr>"

lemma demo_env_sel [simp]:
  "find_get_pid demo_env n = (if n = 7 then Some 3 else None)"
  "pid_task demo_env p = (if p = 3 then Some 5 else None)"
  "task_mm demo_env t = (if t = 5 then Some demo_mm else None)"
  "find_vma demo_env = demo_find_vma"
  "d_path demo_env f = (if f = 1 then Path [0x2f, 0x61] else PathErr 36)"
  "pgd_offset demo_env m va = 8" "p4d_offset demo_env pt e va = e"
  "pud_offset demo_env pt e va = e" "pmd_offset demo_env pt e va = e"
  "pte_offset_kernel demo_env pt e va = PAGE_SIZE + drop_bit 12 va"
  "pgd_none demo_env v \<longleftrightarrow> v = 0" "p4d_none demo_env v \<longleftrightarrow> v = 0"
  "pud_none demo_env v \<longleftrightarrow> v = 0" "pmd_none demo_env v \<longleftrightarrow> v = 0"
  "pte_none demo_env v \<longleftrightarrow> v AND 1 = 0" "pte_phys demo_env = page_of"
  "pte_read demo_env = None" "pte_write demo_env v \<longleftrightarrow> v AND 2 = 2"
  "pte_mkwrite demo_env v = v OR 2" "pte_wrprotect demo_env v = v AND NOT 2"
  "si_totalram demo_env = 0x100000" "si_mem_unit demo_env = 4096" "hweight32 demo_env w = 12"
  "pa demo_env x = x" "kmalloc_ok demo_env x" "xlate_ok demo_env x" "probe_ok demo_env x y"
  "ctu_left demo_env x k = 0" "cfu_left demo_env x k = 0"
  by (simp_all add: demo_env_def)

definition demo_kst :: kst where
  "demo_kst = \<lparr>
     umem = (\<lambda>_. 0), kmem = (\<lambda>_. 0), phys = (\<lambda>a. ucast a),
     ptab = (\<lambda>p. if p = 8 then 1 else if p = 0x1010 then 0x5003 else if p = 0x1011 then 0x9003
       else if p = 0x1020 then 0x7001 else 0),
     pid_refs = (\<lambda>_. 0), mm_refs = (\<lambda>_. 0), mmap_readers = (\<lambda>_. 0), g_phy_total = 0\<rparr>"

lemma page_of_idem [simp]: "page_of (page_of va) = page_of va"
  by (simp add: page_of_def and.assoc)

lemma drop_bit_page_of: "drop_bit 12 (page_of va) = drop_bit 12 va"
proof -
  have m: "(0xFFF :: u64) = mask 12" by (simp add: mask_eq_exp_minus_1)
  show ?thesis
    by (rule bit_word_eqI)
      (auto simp: page_of_def PAGE_SIZE_def m bit_simps dest: bit_imp_le_length)
qed

lemma page_of_low: "page_of va AND (PAGE_SIZE - 1) = 0"
  by (rule bit_word_eqI) (simp add: page_of_def bit_simps)

lemma demo_lookup_ok: "kenv_lookup_ok demo_env"
  by (simp add: kenv_lookup_ok_def demo_env_def drop_bit_page_of page_of_low)

lemma demo_pte_ok: "kenv_pte_ok demo_env"
proof -
  have 1: "(v OR 2) AND 2 = 2" for v :: u64
    by (rule bit_word_eqI) (auto simp: bit_simps)
  have "(v AND - 3) AND 2 = 0" for v :: u64
    by (simp add: and.assoc)
  with 1 show ?thesis by (simp add: kenv_pte_ok_def demo_env_def)
qed

lemma demo_copy_ok: "kenv_copy_ok demo_env"
  by (simp add: kenv_copy_ok_def demo_env_def)

end
