(* ===== verification/Chunk_Loop.thy ===== *)
theory Chunk_Loop
  imports Rw_Prelude
begin

text \<open>
  The contract shared by the copying loops of the driver: \<open>rwmem_read\<close>, \<open>rwmem_write\<close>
  (\<^verbatim>\<open>rwMem/sys.c\<close>), \<open>read_ram_physical_addr\<close> and \<open>write_ram_physical_addr\<close>
  (\<^verbatim>\<open>rwMem/phy_mem.h\<close>) all move a buffer piece by piece, counting the bytes done; one
  iteration either moves a positive number of the bytes that are left and goes on, or
  breaks, possibly after a short piece. The locale states that contract and derives the
  facts the components use; each loop is an interpretation in the theory that defines it.
\<close>

locale chunk_loop =
  fixes loop :: "u64 \<Rightarrow> 's \<Rightarrow> u64 \<times> 's"
    and step :: "u64 \<Rightarrow> 's \<Rightarrow> u64 \<times> bool \<times> 's"
    and size :: u64
  assumes loop_unfold: "d \<le> size \<Longrightarrow> loop d s =
      (if d < size then
         (case step d s of (n, go, s') \<Rightarrow> if go then loop (d + n) s' else (d + n, s'))
       else (d, s))"
    and step_bound: "d < size \<Longrightarrow> step d s = (n, go, s') \<Longrightarrow> n \<le> size - d"
    and step_progress: "d < size \<Longrightarrow> step d s = (n, True, s') \<Longrightarrow> 0 < n"
begin

lemma add_piece:
  assumes "d < size" "n \<le> size - d"
  shows "d + n \<le> size" "unat (d + n) = unat d + unat n" "d \<le> d + n"
proof -
  have le: "unat n \<le> unat size - unat d"
    using assms by (simp add: word_le_nat_alt unat_le_sub [OF less_imp_le])
  have dl: "unat d < unat size" using assms by (simp add: word_less_nat_alt)
  have b: "unat size < 2 ^ 64" using unat_bound [of size] by simp
  show u: "unat (d + n) = unat d + unat n"
    using le dl b by (subst unat_add_lem [THEN iffD1]) auto
  show "d + n \<le> size" "d \<le> d + n"
    using u le dl by (simp_all add: word_le_nat_alt)
qed

lemma loop_induct [consumes 1, case_names finish more]:
  assumes "d \<le> size"
    and "\<And>s. P size s"
    and "\<And>d s. d < size \<Longrightarrow>
      (\<And>n s'. step d s = (n, True, s') \<Longrightarrow> d + n \<le> size \<Longrightarrow> P (d + n) s') \<Longrightarrow> P d s"
  shows "P d s"
  using assms(1)
proof (induction "unat (size - d)" arbitrary: d s rule: less_induct)
  case (less d s)
  show ?case
  proof (cases "d < size")
    case True
    show ?thesis
    proof (rule assms(3) [OF True])
      fix n s' assume st: "step d s = (n, True, s')" and le: "d + n \<le> size"
      from step_bound [OF True st] step_progress [OF True st] have n: "n \<le> size - d" "0 < n"
        by auto
      note a = add_piece [OF True n(1)]
      have "unat (size - (d + n)) < unat (size - d)"
        using a n(2) True by (simp add: word_less_nat_alt word_le_nat_alt)
      from less.hyps [OF this le] show "P (d + n) s'" .
    qed
  next
    case False
    with less.prems have "d = size" by simp
    then show ?thesis using assms(2) by simp
  qed
qed

lemma loop_done: "loop size s = (size, s)"
  using loop_unfold [of size s] by simp

lemma loop_go: "d < size \<Longrightarrow> step d s = (n, True, s') \<Longrightarrow> loop d s = loop (d + n) s'"
  using loop_unfold [of d s] by simp

lemma loop_break: "d < size \<Longrightarrow> step d s = (n, False, s') \<Longrightarrow> loop d s = (d + n, s')"
  using loop_unfold [of d s] by simp

lemma loop_result_bounds:
  assumes "d \<le> size"
  shows "d \<le> fst (loop d s) \<and> fst (loop d s) \<le> size"
  using assms
proof (induction rule: loop_induct [of d _ s])
  case (finish s)
  show ?case by (simp add: loop_done)
next
  case (more d s)
  obtain n go s' where st: "step d s = (n, go, s')" by (cases "step d s") auto
  note a = add_piece [OF more.hyps step_bound [OF more.hyps st]]
  show ?case
  proof (cases go)
    case True
    with st more.IH [of n s'] a have "d + n \<le> fst (loop (d + n) s') \<and> fst (loop (d + n) s') \<le> size"
      by simp
    with a(3) True st more.hyps show ?thesis
      by (auto simp: loop_go intro: order_trans)
  next
    case False
    with st more.hyps a show ?thesis by (simp add: loop_break)
  qed
qed

lemma loop_preserves:
  assumes "d \<le> size" and "Inv s"
    and keep: "\<And>d s. d < size \<Longrightarrow> Inv s \<Longrightarrow> Inv (snd (snd (step d s)))"
  shows "Inv (snd (loop d s))"
  using assms(1,2)
proof (induction rule: loop_induct [of d _ s])
  case (finish s)
  then show ?case by (simp add: loop_done)
next
  case (more d s)
  obtain n go s' where st: "step d s = (n, go, s')" by (cases "step d s") auto
  from keep [OF more.hyps more.prems] st have i: "Inv s'" by simp
  show ?case
  proof (cases go)
    case True
    with st more.hyps more.IH [of n s'] i add_piece [OF more.hyps step_bound [OF more.hyps st]]
    show ?thesis by (simp add: loop_go)
  next
    case False
    with st more.hyps i show ?thesis by (simp add: loop_break)
  qed
qed

lemma loop_completes:
  assumes "d \<le> size" and "Inv d s"
    and go: "\<And>d s. d < size \<Longrightarrow> Inv d s \<Longrightarrow>
      \<exists>n s'. step d s = (n, True, s') \<and> Inv (d + n) s'"
  shows "fst (loop d s) = size \<and> Inv size (snd (loop d s))"
  using assms(1,2)
proof (induction rule: loop_induct [of d _ s])
  case (finish s)
  then show ?case by (simp add: loop_done)
next
  case (more d s)
  from go [OF more.hyps more.prems] obtain n s'
    where st: "step d s = (n, True, s')" and i: "Inv (d + n) s'" by blast
  from st more.hyps more.IH [OF st] i add_piece [OF more.hyps step_bound [OF more.hyps st]]
  show ?case by (simp add: loop_go)
qed

lemma loop_short:
  assumes "d \<le> size" and "fst (loop d s) < size" and "Inv s"
    and keep: "\<And>d s. d < size \<Longrightarrow> Inv s \<Longrightarrow> Inv (snd (snd (step d s)))"
  shows "\<exists>d' n s1 s2. d \<le> d' \<and> d' < size \<and> step d' s1 = (n, False, s2) \<and> Inv s1 \<and>
    loop d s = (d' + n, s2)"
  using assms(1-3)
proof (induction rule: loop_induct [of d _ s])
  case (finish s)
  then show ?case by (simp add: loop_done)
next
  case (more d s)
  obtain n go s' where st: "step d s = (n, go, s')" by (cases "step d s") auto
  note a = add_piece [OF more.hyps step_bound [OF more.hyps st]]
  show ?case
  proof (cases go)
    case True
    from keep [OF more.hyps more.prems(2)] st have i: "Inv s'" by simp
    from True st more.prems more.hyps have "fst (loop (d + n) s') < size" by (simp add: loop_go)
    with more.IH [of n s'] st True a(1) i obtain d' n' s1 s2 where
      "d + n \<le> d'" "d' < size" "step d' s1 = (n', False, s2)" "Inv s1"
      "loop (d + n) s' = (d' + n', s2)"
      by auto
    moreover from this a(3) have "d \<le> d'" by simp
    moreover from st True more.hyps have "loop d s = loop (d + n) s'" by (simp add: loop_go)
    ultimately show ?thesis by auto
  next
    case False
    with st have st': "step d s = (n, False, s')" by simp
    from loop_break [OF more.hyps st'] more.hyps more.prems(2) st' show ?thesis by blast
  qed
qed

end

end
