(* ===== verification/Phy_Mem.thy ===== *)
theory Phy_Mem
  imports Kernel_Env Chunk_Loop
begin

text \<open>
  Physical memory access (\<^verbatim>\<open>rwMem/phy_mem.h\<close>): the page-table walk from a task's virtual
  address to a physical address and its leaf entry, the permission tests and changes on a
  leaf entry, and the two routines that copy between a physical range and a buffer page by
  page. Every definition takes the kernel \<open>K\<close> and passes the state \<open>kst\<close> through.
\<close>

section \<open>The page-table walk\<close>

text \<open>
  \<open>page_walk\<close> is the body of \<open>get_task_proc_phy_addr\<close> between taking and dropping the
  address space: every \<open>goto out\<close> leaves the address 0 and the entry NULL.
\<close>

definition page_walk :: "kenv \<Rightarrow> mm \<Rightarrow> u64 \<Rightarrow> (u64 \<Rightarrow> u64) \<Rightarrow> u64 \<times> u64" where
  "page_walk K m va t =
     (let pgd = pgd_offset K m va in
      if pgd = 0 then (0, 0)
      else if pgd_none K (t pgd) then (0, 0)
      else let p4d = p4d_offset K t pgd va in
      if p4d_none K (t p4d) then (0, 0)
      else let pud = pud_offset K t p4d va in
      if pud_none K (t pud) then (0, 0)
      else let pmd = pmd_offset K t pud va in
      if pmd_none K (t pmd) then (0, 0)
      else let pte = pte_offset_kernel K t pmd va in
      if pte_none K (t pte) then (0, 0)
      else let page_addr = pte_phys K (t pte);
               page_offset = va AND (PAGE_SIZE - 1)
           in (page_addr OR page_offset, pte))"

definition get_task_proc_phy_addr :: "kenv \<Rightarrow> nat option \<Rightarrow> u64 \<Rightarrow> kst \<Rightarrow> u64 \<times> u64 \<times> kst" where
  "get_task_proc_phy_addr K task va s =
     (case task of
        None \<Rightarrow> (0, 0, s)
      | Some t \<Rightarrow>
          (case task_mm K t of
             None \<Rightarrow> (0, 0, s)
           | Some m \<Rightarrow>
               (let s1 = get_mm m s;
                    (paddr, pte) = page_walk K m va (ptab s1)
                in (paddr, pte, mmput m s1))))"

definition get_proc_phy_addr :: "kenv \<Rightarrow> nat \<Rightarrow> u64 \<Rightarrow> kst \<Rightarrow> u64 \<times> u64 \<times> kst" where
  "get_proc_phy_addr K p va s =
     (case pid_task K p of
        None \<Rightarrow> (0, 0, s)
      | Some t \<Rightarrow> get_task_proc_phy_addr K (Some t) va s)"

section \<open>Permissions of a leaf entry\<close>

definition is_pte_can_read :: "kenv \<Rightarrow> u64 \<Rightarrow> kst \<Rightarrow> bool" where
  "is_pte_can_read K pte s =
     (if pte = 0 then False
      else (case pte_read K of Some f \<Rightarrow> f (ptab s pte) | None \<Rightarrow> True))"

definition is_pte_can_write :: "kenv \<Rightarrow> u64 \<Rightarrow> kst \<Rightarrow> bool" where
  "is_pte_can_write K pte s \<longleftrightarrow> pte \<noteq> 0 \<and> pte_write K (ptab s pte)"

definition is_pte_can_exec :: "kenv \<Rightarrow> u64 \<Rightarrow> kst \<Rightarrow> bool" where
  "is_pte_can_exec K pte s =
     (if pte = 0 then False
      else (case pte_exec K of
              Some f \<Rightarrow> f (ptab s pte)
            | None \<Rightarrow> (case pte_user_exec K of Some f \<Rightarrow> f (ptab s pte) | None \<Rightarrow> False)))"

definition set_pte :: "u64 \<Rightarrow> u64 \<Rightarrow> kst \<Rightarrow> kst" where
  "set_pte pte v s = s\<lparr>ptab := (ptab s)(pte := v)\<rparr>"

definition change_pte_read_status :: "u64 \<Rightarrow> bool \<Rightarrow> bool" where
  "change_pte_read_status pte can_read \<longleftrightarrow> pte \<noteq> 0"

definition change_pte_write_status :: "kenv \<Rightarrow> u64 \<Rightarrow> bool \<Rightarrow> kst \<Rightarrow> bool \<times> kst" where
  "change_pte_write_status K pte can_write s =
     (if pte = 0 then (False, s)
      else if can_write then (True, set_pte pte (pte_mkwrite K (ptab s pte)) s)
      else (True, set_pte pte (pte_wrprotect K (ptab s pte)) s))"

definition change_pte_exec_status :: "kenv \<Rightarrow> u64 \<Rightarrow> bool \<Rightarrow> kst \<Rightarrow> bool \<times> kst" where
  "change_pte_exec_status K pte can_exec s =
     (if pte = 0 then (False, s)
      else if can_exec then
        (True, case pte_mknexec K of Some f \<Rightarrow> set_pte pte (f (ptab s pte)) s | None \<Rightarrow> s)
      else
        (True, case pte_mkexec K of Some f \<Rightarrow> set_pte pte (f (ptab s pte)) s | None \<Rightarrow> s))"

section \<open>Copying a physical range\<close>

definition size_inside_page :: "u64 \<Rightarrow> u64 \<Rightarrow> u64" where
  "size_inside_page start sz = min (PAGE_SIZE - (start AND (PAGE_SIZE - 1))) sz"

text \<open>The static total is computed by the first call and kept.\<close>

definition check_phys_addr_valid_range :: "kenv \<Rightarrow> u64 \<Rightarrow> u64 \<Rightarrow> kst \<Rightarrow> bool \<times> kst" where
  "check_phys_addr_valid_range K addr count s =
     (let s' = (if g_phy_total s = 0 then
                  (let bitcount = hweight32 K (si_mem_unit K - 1) + 1;
                       totalram = push_bit bitcount (si_totalram K)
                   in s\<lparr>g_phy_total := pa K totalram\<rparr>)
                else s)
      in (addr + count \<le> g_phy_total s', s'))"

definition read_ram_iter :: "kenv \<Rightarrow> bool \<Rightarrow> u64 \<Rightarrow> u64 \<Rightarrow> u64 \<Rightarrow> kst \<Rightarrow> u64 \<times> bool \<times> kst" where
  "read_ram_iter K is_kernel_buf phy_addr lpBuf read_size s =
     (let sz = size_inside_page phy_addr read_size in
      if \<not> xlate_ok K phy_addr then (0, False, s)
      else if \<not> probe_ok K phy_addr sz then (0, False, s)
      else let bounce = mem_read (phys s) phy_addr (unat sz) in
      if is_kernel_buf then (sz, True, s\<lparr>kmem := mem_write (kmem s) lpBuf bounce\<rparr>)
      else (case copy_to_user K lpBuf bounce s of
              (remaining, s') \<Rightarrow> if remaining \<noteq> 0 then (0, False, s') else (sz, True, s')))"

definition write_ram_iter :: "kenv \<Rightarrow> bool \<Rightarrow> u64 \<Rightarrow> u64 \<Rightarrow> u64 \<Rightarrow> kst \<Rightarrow> u64 \<times> bool \<times> kst" where
  "write_ram_iter K is_kernel_buf phy_addr lpBuf write_size s =
     (let sz = size_inside_page phy_addr write_size in
      if \<not> xlate_ok K phy_addr then (0, False, s)
      else if is_kernel_buf then
        (sz, True, s\<lparr>phys := mem_write (phys s) phy_addr (mem_read (kmem s) lpBuf (unat sz))\<rparr>)
      else (case copy_from_user K lpBuf (unat sz) s of
              (copied, bs) \<Rightarrow>
                let s' = s\<lparr>phys := mem_write (phys s) phy_addr bs\<rparr> in
                if copied \<noteq> 0 then (sz - word_of_nat copied, False, s') else (sz, True, s')))"

text \<open>Every iteration moves between one byte and the rest of the page.\<close>

lemma page_rest_pos: "0 < PAGE_SIZE - (start AND (PAGE_SIZE - 1))"
proof -
  have "start AND (PAGE_SIZE - 1) \<le> PAGE_SIZE - 1" by (rule word_and_le1)
  then show ?thesis by (simp add: PAGE_SIZE_def word_less_nat_alt word_le_nat_alt unat_sub_if')
qed

lemma size_inside_page_le: "size_inside_page start sz \<le> sz"
  by (simp add: size_inside_page_def)

lemma size_inside_page_pos: "0 < sz \<Longrightarrow> 0 < size_inside_page start sz"
  using page_rest_pos by (simp add: size_inside_page_def)

lemma size_inside_page_page:
  "unat (start AND (PAGE_SIZE - 1)) + unat (size_inside_page start sz) \<le> unat PAGE_SIZE"
proof -
  have le: "start AND (PAGE_SIZE - 1) \<le> PAGE_SIZE"
    using word_and_le1 [of start "PAGE_SIZE - 1"]
    by (simp add: PAGE_SIZE_def word_le_nat_alt)
  have "size_inside_page start sz \<le> PAGE_SIZE - (start AND (PAGE_SIZE - 1))"
    by (simp add: size_inside_page_def)
  then have "unat (size_inside_page start sz) \<le> unat PAGE_SIZE - unat (start AND (PAGE_SIZE - 1))"
    unfolding word_le_nat_alt by (simp only: unat_le_sub [OF le])
  with le show ?thesis unfolding word_le_nat_alt by arith
qed

lemma read_ram_iter_bounds:
  assumes "0 < read_size" "read_ram_iter K kb phy_addr lpBuf read_size s = (n, go, s')"
  shows "n \<le> read_size" "go \<Longrightarrow> 0 < n"
  using assms size_inside_page_le [of phy_addr read_size]
    size_inside_page_pos [of read_size phy_addr]
  by (auto simp: read_ram_iter_def Let_def split: if_splits prod.splits)

lemma write_ram_iter_bounds:
  assumes "0 < write_size" "write_ram_iter K kb phy_addr lpBuf write_size s = (n, go, s')"
  shows "n \<le> write_size" "go \<Longrightarrow> 0 < n"
proof -
  let ?sz = "size_inside_page phy_addr write_size"
  have "?sz - word_of_nat (min c (unat ?sz)) \<le> ?sz" for c
  proof -
    have "word_of_nat (min c (unat ?sz)) \<le> ?sz"
      by (simp add: word_le_nat_alt unsigned_of_nat take_bit_nat_def)
    then show ?thesis by (simp add: word_sub_le)
  qed
  with assms size_inside_page_le [of phy_addr write_size]
    size_inside_page_pos [of write_size phy_addr]
  show "n \<le> write_size" "go \<Longrightarrow> 0 < n"
    by (auto simp: write_ram_iter_def copy_from_user_def Let_def
        split: if_splits prod.splits intro: order_trans)
qed

lemma loop_measure:
  assumes "0 < (sz::u64)" "n \<le> sz" "0 < n"
  shows "unat (sz - n) < unat sz"
  using assms by (simp add: word_less_nat_alt word_le_nat_alt)

function read_ram_loop :: "kenv \<Rightarrow> bool \<Rightarrow> u64 \<Rightarrow> u64 \<Rightarrow> u64 \<Rightarrow> u64 \<Rightarrow> kst \<Rightarrow> u64 \<times> kst" where
  "read_ram_loop K is_kernel_buf phy_addr lpBuf read_size realRead s =
     (if 0 < read_size then
        (case read_ram_iter K is_kernel_buf phy_addr lpBuf read_size s of
           (sz, go, s') \<Rightarrow>
             if go then
               read_ram_loop K is_kernel_buf (phy_addr + sz) (lpBuf + sz) (read_size - sz)
                 (realRead + sz) s'
             else (realRead + sz, s'))
      else (realRead, s))"
  by pat_completeness auto
termination
  by (relation "measure (\<lambda>(K, kb, phy, buf, sz, r, s). unat sz)")
    (auto intro: loop_measure dest: read_ram_iter_bounds [OF _ sym])

function write_ram_loop :: "kenv \<Rightarrow> bool \<Rightarrow> u64 \<Rightarrow> u64 \<Rightarrow> u64 \<Rightarrow> u64 \<Rightarrow> kst \<Rightarrow> u64 \<times> kst" where
  "write_ram_loop K is_kernel_buf phy_addr lpBuf write_size realWrite s =
     (if 0 < write_size then
        (case write_ram_iter K is_kernel_buf phy_addr lpBuf write_size s of
           (sz, go, s') \<Rightarrow>
             if go then
               write_ram_loop K is_kernel_buf (phy_addr + sz) (lpBuf + sz) (write_size - sz)
                 (realWrite + sz) s'
             else (realWrite + sz, s'))
      else (realWrite, s))"
  by pat_completeness auto
termination
  by (relation "measure (\<lambda>(K, kb, phy, buf, sz, r, s). unat sz)")
    (auto intro: loop_measure dest: write_ram_iter_bounds [OF _ sym])

declare read_ram_loop.simps [simp del] write_ram_loop.simps [simp del]

definition read_ram_physical_addr :: "kenv \<Rightarrow> u64 \<Rightarrow> u64 \<Rightarrow> bool \<Rightarrow> u64 \<Rightarrow> kst \<Rightarrow> u64 \<times> kst" where
  "read_ram_physical_addr K phy_addr lpBuf is_kernel_buf read_size s =
     (case check_phys_addr_valid_range K phy_addr read_size s of
        (ok, s1) \<Rightarrow>
          if \<not> ok then (0, s1)
          else if \<not> kmalloc_ok K PAGE_SIZE then (0, s1)
          else read_ram_loop K is_kernel_buf phy_addr lpBuf read_size 0 s1)"

definition write_ram_physical_addr :: "kenv \<Rightarrow> u64 \<Rightarrow> u64 \<Rightarrow> bool \<Rightarrow> u64 \<Rightarrow> kst \<Rightarrow> u64 \<times> kst" where
  "write_ram_physical_addr K phy_addr lpBuf is_kernel_buf write_size s =
     (case check_phys_addr_valid_range K phy_addr write_size s of
        (ok, s1) \<Rightarrow>
          if \<not> ok then (0, s1)
          else write_ram_loop K is_kernel_buf phy_addr lpBuf write_size 0 s1)"

section \<open>The copy loops keep the contract\<close>

interpretation read_ram: chunk_loop
  "\<lambda>d s. read_ram_loop K kb (phy + d) (buf + d) (len - d) d s"
  "\<lambda>d s. read_ram_iter K kb (phy + d) (buf + d) (len - d) s" len
  for K kb phy buf len
proof unfold_locales
  fix d :: u64 and s
  assume "d \<le> len"
  then have z: "0 < len - d \<longleftrightarrow> d < len"
    by (auto simp: word_less_nat_alt word_le_nat_alt)
  show "read_ram_loop K kb (phy + d) (buf + d) (len - d) d s =
      (if d < len then
        case read_ram_iter K kb (phy + d) (buf + d) (len - d) s of (n, go, s') \<Rightarrow>
          if go then read_ram_loop K kb (phy + (d + n)) (buf + (d + n)) (len - (d + n)) (d + n) s'
          else (d + n, s')
       else (d, s))"
    by (subst read_ram_loop.simps) (simp only: z add.assoc diff_diff_add)
next
  fix d n :: u64 and s go s'
  assume "d < len" and it: "read_ram_iter K kb (phy + d) (buf + d) (len - d) s = (n, go, s')"
  then have "0 < len - d" by (simp add: word_less_nat_alt unat_le_sub [OF less_imp_le])
  from read_ram_iter_bounds [OF this it] show "n \<le> len - d" by simp
next
  fix d n :: u64 and s s'
  assume "d < len" and it: "read_ram_iter K kb (phy + d) (buf + d) (len - d) s = (n, True, s')"
  then have "0 < len - d" by (simp add: word_less_nat_alt unat_le_sub [OF less_imp_le])
  from read_ram_iter_bounds [OF this it] show "0 < n" by simp
qed

interpretation write_ram: chunk_loop
  "\<lambda>d s. write_ram_loop K kb (phy + d) (buf + d) (len - d) d s"
  "\<lambda>d s. write_ram_iter K kb (phy + d) (buf + d) (len - d) s" len
  for K kb phy buf len
proof unfold_locales
  fix d :: u64 and s
  assume "d \<le> len"
  then have z: "0 < len - d \<longleftrightarrow> d < len"
    by (auto simp: word_less_nat_alt word_le_nat_alt)
  show "write_ram_loop K kb (phy + d) (buf + d) (len - d) d s =
      (if d < len then
        case write_ram_iter K kb (phy + d) (buf + d) (len - d) s of (n, go, s') \<Rightarrow>
          if go then write_ram_loop K kb (phy + (d + n)) (buf + (d + n)) (len - (d + n)) (d + n) s'
          else (d + n, s')
       else (d, s))"
    by (subst write_ram_loop.simps) (simp only: z add.assoc diff_diff_add)
next
  fix d n :: u64 and s go s'
  assume "d < len" and it: "write_ram_iter K kb (phy + d) (buf + d) (len - d) s = (n, go, s')"
  then have "0 < len - d" by (simp add: word_less_nat_alt unat_le_sub [OF less_imp_le])
  from write_ram_iter_bounds [OF this it] show "n \<le> len - d" by simp
next
  fix d n :: u64 and s s'
  assume "d < len" and it: "write_ram_iter K kb (phy + d) (buf + d) (len - d) s = (n, True, s')"
  then have "0 < len - d" by (simp add: word_less_nat_alt unat_le_sub [OF less_imp_le])
  from write_ram_iter_bounds [OF this it] show "0 < n" by simp
qed

lemma mem_copy_extend:
  assumes "unat (d + n) = unat d + unat n"
  shows "mem_write (mem_write m a (mem_read p b (unat d))) (a + d)
      (mem_read p (b + d) (unat n)) = mem_write m a (mem_read p b (unat (d + n)))"
proof -
  have "unat d + unat n \<le> 2 ^ 64" using unat_bound [of "d + n"] assms by simp
  with mem_write_append [of "mem_read p b (unat d)" "mem_read p (b + d) (unat n)" m a]
  show ?thesis by (simp add: assms mem_read_append)
qed

lemma read_ram_loop_whole:
  assumes K: "kenv_copy_ok K"
  shows "read_ram_loop K False phy buf len 0 s =
    (len, s\<lparr>umem := mem_write (umem s) buf (mem_read (phys s) phy (unat len))\<rparr>)"
proof -
  let ?st = "\<lambda>d. s\<lparr>umem := mem_write (umem s) buf (mem_read (phys s) phy (unat d))\<rparr>"
  have "fst (read_ram_loop K False (phy + 0) (buf + 0) (len - 0) 0 s) = len \<and>
      snd (read_ram_loop K False (phy + 0) (buf + 0) (len - 0) 0 s) = ?st len"
  proof (rule read_ram.loop_completes [where d = 0 and Inv = "\<lambda>d s'. s' = ?st d"])
    fix d :: u64 and s1
    assume d: "d < len" and inv: "s1 = ?st d"
    let ?n = "size_inside_page (phy + d) (len - d)"
    note a = read_ram.add_piece [OF d size_inside_page_le [of "phy + d" "len - d"]]
    have "read_ram_iter K False (phy + d) (buf + d) (len - d) s1 = (?n, True, ?st (d + ?n))"
      using K by (simp add: read_ram_iter_def kenv_copy_ok_def copy_to_user_def inv Let_def
          mem_copy_extend [OF a(2)])
    then show "\<exists>n s'. read_ram_iter K False (phy + d) (buf + d) (len - d) s1 = (n, True, s') \<and>
        s' = ?st (d + n)" by blast
  qed (simp_all add: mem_read_def)
  then show ?thesis by (simp add: prod_eq_iff)
qed

lemma write_ram_loop_whole:
  assumes K: "kenv_copy_ok K"
  shows "write_ram_loop K False phy buf len 0 s =
    (len, s\<lparr>phys := mem_write (phys s) phy (mem_read (umem s) buf (unat len))\<rparr>)"
proof -
  let ?st = "\<lambda>d. s\<lparr>phys := mem_write (phys s) phy (mem_read (umem s) buf (unat d))\<rparr>"
  have "fst (write_ram_loop K False (phy + 0) (buf + 0) (len - 0) 0 s) = len \<and>
      snd (write_ram_loop K False (phy + 0) (buf + 0) (len - 0) 0 s) = ?st len"
  proof (rule write_ram.loop_completes [where d = 0 and Inv = "\<lambda>d s'. s' = ?st d"])
    fix d :: u64 and s1
    assume d: "d < len" and inv: "s1 = ?st d"
    let ?n = "size_inside_page (phy + d) (len - d)"
    note a = write_ram.add_piece [OF d size_inside_page_le [of "phy + d" "len - d"]]
    have "write_ram_iter K False (phy + d) (buf + d) (len - d) s1 = (?n, True, ?st (d + ?n))"
      using K by (simp add: write_ram_iter_def kenv_copy_ok_def copy_from_user_def inv Let_def
          mem_copy_extend [OF a(2)])
    then show "\<exists>n s'. write_ram_iter K False (phy + d) (buf + d) (len - d) s1 = (n, True, s') \<and>
        s' = ?st (d + n)" by blast
  qed (simp_all add: mem_read_def)
  then show ?thesis by (simp add: prod_eq_iff)
qed

section \<open>Frames: what the routines leave alone\<close>

definition only_user :: "kst \<Rightarrow> kst \<Rightarrow> bool" where
  "only_user s s' \<longleftrightarrow> (\<exists>u k g. s' = s\<lparr>umem := u, kmem := k, g_phy_total := g\<rparr>)"

definition only_phys :: "kst \<Rightarrow> kst \<Rightarrow> bool" where
  "only_phys s s' \<longleftrightarrow> (\<exists>p g. s' = s\<lparr>phys := p, g_phy_total := g\<rparr>)"

lemma only_user_refl [simp]: "only_user s s"
  by (cases s) (auto simp: only_user_def)

lemma only_phys_refl [simp]: "only_phys s s"
  by (cases s) (auto simp: only_phys_def)

lemma only_user_trans: "only_user s s1 \<Longrightarrow> only_user s1 s2 \<Longrightarrow> only_user s s2"
  by (cases s) (auto simp: only_user_def)

lemma only_phys_trans: "only_phys s s1 \<Longrightarrow> only_phys s1 s2 \<Longrightarrow> only_phys s s2"
  by (cases s) (auto simp: only_phys_def)

lemma only_user_step [intro]:
  "only_user s (s\<lparr>umem := u\<rparr>)" "only_user s (s\<lparr>kmem := u\<rparr>)" "only_user s (s\<lparr>g_phy_total := g\<rparr>)"
  "only_phys s (s\<lparr>phys := u\<rparr>)" "only_phys s (s\<lparr>g_phy_total := g\<rparr>)"
  by (cases s, auto simp: only_user_def only_phys_def)+

lemma only_user_fields:
  assumes "only_user s s'"
  shows "phys s' = phys s" "ptab s' = ptab s" "pid_refs s' = pid_refs s"
    "mm_refs s' = mm_refs s" "mmap_readers s' = mmap_readers s"
  using assms by (auto simp: only_user_def)

lemma only_phys_fields:
  assumes "only_phys s s'"
  shows "umem s' = umem s" "kmem s' = kmem s" "ptab s' = ptab s" "pid_refs s' = pid_refs s"
    "mm_refs s' = mm_refs s" "mmap_readers s' = mmap_readers s"
  using assms by (auto simp: only_phys_def)

lemma check_phys_frame:
  "only_user s (snd (check_phys_addr_valid_range K addr count s))"
  "only_phys s (snd (check_phys_addr_valid_range K addr count s))"
  by (auto simp: check_phys_addr_valid_range_def Let_def)

lemma copy_to_user_frame: "only_user s (snd (copy_to_user K dst bs s))"
  by (auto simp: copy_to_user_def Let_def)

lemma read_ram_iter_frame: "only_user s (snd (snd (read_ram_iter K kb phy buf len s)))"
  using copy_to_user_frame [of s K buf "mem_read (phys s) phy (unat (size_inside_page phy len))"]
  by (auto simp: read_ram_iter_def Let_def split: prod.splits)

lemma write_ram_iter_frame: "only_phys s (snd (snd (write_ram_iter K kb phy buf len s)))"
  by (auto simp: write_ram_iter_def Let_def split: prod.splits)

lemma read_ram_frame:
  "only_user s (snd (read_ram_physical_addr K phy buf kb len s))"
proof -
  have "only_user s1 (snd (read_ram_loop K kb (phy + 0) (buf + 0) (len - 0) 0 s1))" for s1
    by (rule read_ram.loop_preserves)
      (auto intro: only_user_trans read_ram_iter_frame)
  then have "only_user s1 (snd (read_ram_loop K kb phy buf len 0 s1))" for s1
    by simp
  with check_phys_frame(1) [of s K phy len] show ?thesis
    by (auto simp: read_ram_physical_addr_def split: prod.splits intro: only_user_trans)
qed

lemma write_ram_frame:
  "only_phys s (snd (write_ram_physical_addr K phy buf kb len s))"
proof -
  have "only_phys s1 (snd (write_ram_loop K kb (phy + 0) (buf + 0) (len - 0) 0 s1))" for s1
    by (rule write_ram.loop_preserves)
      (auto intro: only_phys_trans write_ram_iter_frame)
  then have "only_phys s1 (snd (write_ram_loop K kb phy buf len 0 s1))" for s1
    by simp
  with check_phys_frame(2) [of s K phy len] show ?thesis
    by (auto simp: write_ram_physical_addr_def split: prod.splits intro: only_phys_trans)
qed

text \<open>The walk takes and drops the address space, so it leaves the state as it was.\<close>

lemma get_task_proc_phy_addr_state [simp]: "snd (snd (get_task_proc_phy_addr K task va s)) = s"
  by (auto simp: get_task_proc_phy_addr_def Let_def split: option.splits prod.splits)

lemma get_proc_phy_addr_state [simp]: "snd (snd (get_proc_phy_addr K p va s)) = s"
  by (auto simp: get_proc_phy_addr_def split: option.splits)

lemma get_proc_phy_addr_same: "get_proc_phy_addr K p va s = (phy, pte, s1) \<Longrightarrow> s1 = s"
  using get_proc_phy_addr_state [of K p va s] by simp

section \<open>Translation within a page\<close>

lemma page_split: "page_of va + (va AND (PAGE_SIZE - 1)) = va"
proof -
  have "page_of va AND (va AND (PAGE_SIZE - 1)) = 0"
    by (rule bit_word_eqI) (auto simp: page_of_def bit_simps)
  then have "page_of va + (va AND (PAGE_SIZE - 1)) = page_of va OR (va AND (PAGE_SIZE - 1))"
    by (rule disjunctive_add_eq_or)
  also have "\<dots> = va"
    by (rule bit_word_eqI) (auto simp: page_of_def bit_simps)
  finally show ?thesis .
qed

lemma page_offset_diff:
  assumes "page_of va' = page_of va"
  shows "va' - va = (va' AND (PAGE_SIZE - 1)) - (va AND (PAGE_SIZE - 1))"
  using page_split [of va] page_split [of va'] assms by (metis add_diff_cancel_left)

lemma aligned_or:
  assumes "P AND (PAGE_SIZE - 1) = (0::u64)"
  shows "P OR (va AND (PAGE_SIZE - 1)) = P + (va AND (PAGE_SIZE - 1))"
proof -
  have "P AND (va AND (PAGE_SIZE - 1)) = (P AND (PAGE_SIZE - 1)) AND va"
    by (simp only: ac_simps)
  with assms have "P AND (va AND (PAGE_SIZE - 1)) = 0" by simp
  then show ?thesis by (rule disjunctive_add_eq_or [symmetric])
qed

lemma page_walk_linear:
  assumes K: "kenv_lookup_ok K" and w: "page_walk K m va t = (phy, pte)" and "phy \<noteq> 0"
    and pg: "page_of va' = page_of va"
  shows "page_walk K m va' t = (phy + (va' - va), pte)"
proof -
  have eqs: "pgd_offset K m va' = pgd_offset K m va"
    "\<And>t e. p4d_offset K t e va' = p4d_offset K t e va"
    "\<And>t e. pud_offset K t e va' = pud_offset K t e va"
    "\<And>t e. pmd_offset K t e va' = pmd_offset K t e va"
    "\<And>t e. pte_offset_kernel K t e va' = pte_offset_kernel K t e va"
    using K pg unfolding kenv_lookup_ok_def by metis+
  have al: "pte_phys K v AND (PAGE_SIZE - 1) = 0" for v
    using K by (simp add: kenv_lookup_ok_def)
  show ?thesis
    using w \<open>phy \<noteq> 0\<close>
    by (auto simp: page_walk_def Let_def eqs aligned_or [OF al] page_offset_diff [OF pg]
        split: if_splits)
qed

lemma page_of_add:
  assumes "unat (a AND (PAGE_SIZE - 1)) + j < unat PAGE_SIZE"
  shows "page_of (a + word_of_nat j) = page_of a"
proof -
  let ?k = "(a AND (PAGE_SIZE - 1)) + word_of_nat j :: u64"
  have "unat (a AND (PAGE_SIZE - 1)) + j < 2 ^ 64"
    using assms by (simp add: PAGE_SIZE_def)
  from unat_add_of_nat [OF this] assms have k: "unat ?k < 4096" by (simp add: PAGE_SIZE_def)
  have m: "PAGE_SIZE - 1 = (mask 12 :: u64)" by (simp add: PAGE_SIZE_def mask_eq_exp_minus_1)
  have km: "?k AND mask 12 = ?k"
  proof -
    have "take_bit 12 (unat ?k) = unat ?k" using k by (simp add: take_bit_nat_eq_self)
    then have "unat (take_bit 12 ?k) = unat ?k" by (simp only: unsigned_take_bit_eq)
    then show ?thesis by (simp only: unsigned_word_eqI flip: take_bit_eq_mask)
  qed
  have "page_of a AND ?k = (page_of a AND (PAGE_SIZE - 1)) AND ?k"
    using km by (simp only: m ac_simps)
  then have z: "page_of a AND ?k = 0" by (simp add: page_of_low)
  have "a + word_of_nat j = page_of a + ?k" by (simp add: page_split flip: add.assoc)
  also have "\<dots> = page_of a OR ?k" by (rule disjunctive_add_eq_or [OF z])
  finally have "page_of (a + word_of_nat j) = (page_of a OR (?k AND mask 12)) AND NOT (mask 12)"
    unfolding km by (simp only: page_of_def m)
  also have "\<dots> = page_of a AND NOT (mask 12)"
    by (rule bit_word_eqI) (auto simp: bit_simps)
  also have "\<dots> = page_of a"
    unfolding page_of_def m by (simp add: and.assoc)
  finally show ?thesis .
qed

lemma page_walk_offset:
  assumes K: "kenv_lookup_ok K" and w: "page_walk K m va t = (phy, pte)" and "phy \<noteq> 0"
  shows "phy AND (PAGE_SIZE - 1) = va AND (PAGE_SIZE - 1)"
proof -
  have al: "pte_phys K v AND (PAGE_SIZE - 1) = 0" for v
    using K by (simp add: kenv_lookup_ok_def)
  have "(pte_phys K v OR va AND (PAGE_SIZE - 1)) AND (PAGE_SIZE - 1) = va AND (PAGE_SIZE - 1)" for v
    using al [of v] by (simp add: bit.conj_disj_distrib2 and.assoc)
  with w \<open>phy \<noteq> 0\<close> show ?thesis
    by (auto simp: page_walk_def Let_def split: if_splits)
qed

text \<open>The same two facts for the lookup by pid.\<close>

lemma get_proc_phy_addr_walk:
  assumes "get_proc_phy_addr K p va s = (phy, pte, s1)" "phy \<noteq> 0"
  obtains m where "\<And>va'. get_proc_phy_addr K p va' s = (fst (page_walk K m va' (ptab s)),
      snd (page_walk K m va' (ptab s)), s)" and "page_walk K m va (ptab s) = (phy, pte)"
proof -
  from assms obtain t m where tm: "pid_task K p = Some t" "task_mm K t = Some m"
    by (auto simp: get_proc_phy_addr_def get_task_proc_phy_addr_def split: option.splits)
  have pt: "ptab (get_mm m s) = ptab s" by (simp add: get_mm_def)
  have e: "get_proc_phy_addr K p va' s = (fst (page_walk K m va' (ptab s)),
      snd (page_walk K m va' (ptab s)), s)" for va'
    by (simp add: get_proc_phy_addr_def get_task_proc_phy_addr_def tm pt Let_def split_beta)
  moreover have "page_walk K m va (ptab s) = (phy, pte)"
    using e [of va] assms(1) by (simp add: prod_eq_iff)
  ultimately show thesis by (rule that)
qed

lemma get_proc_phy_addr_offset:
  assumes "kenv_lookup_ok K" "get_proc_phy_addr K p va s = (phy, pte, s1)" "phy \<noteq> 0"
  shows "phy AND (PAGE_SIZE - 1) = va AND (PAGE_SIZE - 1)"
  using assms by (metis get_proc_phy_addr_walk page_walk_offset)

lemma get_proc_phy_addr_linear:
  assumes "kenv_lookup_ok K" "get_proc_phy_addr K p va s = (phy, pte, s1)" "phy \<noteq> 0"
    and "page_of va' = page_of va"
  shows "get_proc_phy_addr K p va' s = (phy + (va' - va), pte, s)"
proof -
  obtain m where e: "\<And>va'. get_proc_phy_addr K p va' s = (fst (page_walk K m va' (ptab s)),
      snd (page_walk K m va' (ptab s)), s)" and w: "page_walk K m va (ptab s) = (phy, pte)"
    using get_proc_phy_addr_walk [OF assms(2,3)] by blast
  show ?thesis
    unfolding e [of va'] page_walk_linear [OF assms(1) w assms(3,4)] by simp
qed

section \<open>The physical range check\<close>

definition phy_total :: "kenv \<Rightarrow> kst \<Rightarrow> u64" where
  "phy_total K s = (if g_phy_total s = 0
     then pa K (push_bit (hweight32 K (si_mem_unit K - 1) + 1) (si_totalram K)) else g_phy_total s)"

lemma check_phys_total:
  "check_phys_addr_valid_range K addr count s =
    (addr + count \<le> phy_total K s, s\<lparr>g_phy_total := phy_total K s\<rparr>)"
  by (simp add: check_phys_addr_valid_range_def phy_total_def Let_def)

lemma phy_total_stable [simp]: "phy_total K (t\<lparr>g_phy_total := phy_total K s\<rparr>) = phy_total K s"
  by (simp add: phy_total_def)

lemma phy_total_other [simp]:
  "phy_total K (s\<lparr>umem := u\<rparr>) = phy_total K s" "phy_total K (s\<lparr>kmem := u\<rparr>) = phy_total K s"
  "phy_total K (s\<lparr>phys := u\<rparr>) = phy_total K s" "phy_total K (s\<lparr>ptab := t\<rparr>) = phy_total K s"
  "phy_total K (s\<lparr>pid_refs := r\<rparr>) = phy_total K s"
  by (simp_all add: phy_total_def)

lemma read_ram_whole:
  assumes "kenv_copy_ok K" "phy + len \<le> phy_total K s"
  shows "read_ram_physical_addr K phy buf False len s =
    (len, s\<lparr>umem := mem_write (umem s) buf (mem_read (phys s) phy (unat len)),
      g_phy_total := phy_total K s\<rparr>)"
  using assms
  by (simp add: read_ram_physical_addr_def check_phys_total read_ram_loop_whole kenv_copy_ok_def)

lemma write_ram_whole:
  assumes "kenv_copy_ok K" "phy + len \<le> phy_total K s"
  shows "write_ram_physical_addr K phy buf False len s =
    (len, s\<lparr>phys := mem_write (phys s) phy (mem_read (umem s) buf (unat len)),
      g_phy_total := phy_total K s\<rparr>)"
  using assms
  by (simp add: write_ram_physical_addr_def check_phys_total write_ram_loop_whole)

lemma ram_out_of_range:
  assumes "\<not> phy + len \<le> phy_total K s"
  shows "read_ram_physical_addr K phy buf kb len s = (0, s\<lparr>g_phy_total := phy_total K s\<rparr>)"
    "write_ram_physical_addr K phy buf kb len s = (0, s\<lparr>g_phy_total := phy_total K s\<rparr>)"
  using assms by (simp_all add: read_ram_physical_addr_def write_ram_physical_addr_def check_phys_total)

end
