(* ===== verification/Proc_Maps.thy ===== *)
theory Proc_Maps
  imports Phy_Mem
begin

text \<open>
  The address-space queries (\<^verbatim>\<open>rwMem/proc_maps.h\<close>): the number of mappings, the
  permission checks made before a read or a write, and the list of mappings serialised into
  the caller's buffer. A kernel fault (a dereferenced error pointer) is the result \<open>None\<close>.
\<close>

section \<open>Counting and checking\<close>

definition MY_PATH_MAX_LEN :: nat where "MY_PATH_MAX_LEN = 512"

definition get_proc_map_count :: "kenv \<Rightarrow> nat \<Rightarrow> kst \<Rightarrow> u64 \<times> kst" where
  "get_proc_map_count K p s =
     (case pid_task K p of
        None \<Rightarrow> (0, s)
      | Some t \<Rightarrow>
          (case task_mm K t of
             None \<Rightarrow> (0, s)
           | Some m \<Rightarrow>
               (let s1 = down_read m (get_mm m s);
                    count = scast (map_count m)
                in (count, mmput m (up_read m s1)))))"

definition check_proc_map_can_read :: "kenv \<Rightarrow> nat \<Rightarrow> u64 \<Rightarrow> u64 \<Rightarrow> kst \<Rightarrow> bool \<times> kst" where
  "check_proc_map_can_read K p proc_virt_addr sz s =
     (case pid_task K p of
        None \<Rightarrow> (False, s)
      | Some t \<Rightarrow>
          (case task_mm K t of
             None \<Rightarrow> (False, s)
           | Some m \<Rightarrow>
               (let s1 = down_read m (get_mm m s);
                    res = (case find_vma K m proc_virt_addr of
                             None \<Rightarrow> False
                           | Some v \<Rightarrow>
                               (if vm_flags v AND VM_READ \<noteq> 0
                                then proc_virt_addr + sz \<le> vm_end v else False))
                in (res, mmput m (up_read m s1)))))"

definition check_proc_map_can_write :: "kenv \<Rightarrow> nat \<Rightarrow> u64 \<Rightarrow> u64 \<Rightarrow> kst \<Rightarrow> bool \<times> kst" where
  "check_proc_map_can_write K p proc_virt_addr sz s =
     (case pid_task K p of
        None \<Rightarrow> (False, s)
      | Some t \<Rightarrow>
          (case task_mm K t of
             None \<Rightarrow> (False, s)
           | Some m \<Rightarrow>
               (let s1 = down_read m (get_mm m s);
                    res = (case find_vma K m proc_virt_addr of
                             None \<Rightarrow> False
                           | Some v \<Rightarrow>
                               (if vm_flags v AND VM_WRITE \<noteq> 0
                                then proc_virt_addr + sz \<le> vm_end v else False))
                in (res, mmput m (up_read m s1)))))"

section \<open>The list of mappings\<close>

definition is_stack :: "mm \<Rightarrow> vma \<Rightarrow> bool" where
  "is_stack m v \<longleftrightarrow> vm_start v \<le> start_stack m \<and> vm_end v \<ge> start_stack m"

definition maps_name :: "kenv \<Rightarrow> mm \<Rightarrow> vma \<Rightarrow> byte list option" where
  "maps_name K m v =
     (case vm_file v of
        Some f \<Rightarrow>
          (case d_path K f of
             Path p \<Rightarrow> Some (take (MY_PATH_MAX_LEN - 1) (cstr p))
           | PathErr e \<Rightarrow> None)
      | None \<Rightarrow>
          if vm_start v = vdso m then Some (str_bytes ''[vdso]'')
          else if vm_start v \<le> brk m \<and> vm_end v \<ge> start_brk m then Some (str_bytes ''[heap]'')
          else if is_stack m v then Some (str_bytes ''[stack]'')
          else Some [])"

definition flag_byte :: "vma \<Rightarrow> u64 \<Rightarrow> byte" where
  "flag_byte v f = (if vm_flags v AND f \<noteq> 0 then 1 else 0)"

definition maps_flags :: "vma \<Rightarrow> byte list" where
  "maps_flags v = [flag_byte v VM_READ, flag_byte v VM_WRITE, flag_byte v VM_EXEC,
     flag_byte v VM_MAYSHARE]"

definition path_copy_len :: "u64 \<Rightarrow> nat" where
  "path_copy_len max_path_length =
     unat (if max_path_length > 512 then 512 else max_path_length - 1 :: u64)"

text \<open>One field of a record: a \<open>memcpy\<close> into a kernel buffer, a checked copy to the user.\<close>

definition emit :: "kenv \<Rightarrow> bool \<Rightarrow> u64 \<Rightarrow> byte list \<Rightarrow> kst \<Rightarrow> bool \<times> kst" where
  "emit K is_kernel_buf pos bs s =
     (if is_kernel_buf then (True, s\<lparr>kmem := mem_write (kmem s) pos bs\<rparr>)
      else (case copy_to_user K pos bs s of (left, s') \<Rightarrow> (left = 0, s')))"

definition emit_record ::
    "kenv \<Rightarrow> bool \<Rightarrow> vma \<Rightarrow> byte list \<Rightarrow> u64 \<Rightarrow> u64 \<Rightarrow> kst \<Rightarrow> bool \<times> kst" where
  "emit_record K kb v new_path max_path_length pos s =
     (case emit K kb pos (u64_bytes (vm_start v)) s of (ok1, s1) \<Rightarrow>
      if \<not> ok1 then (False, s1) else
      (case emit K kb (pos + 8) (u64_bytes (vm_end v)) s1 of (ok2, s2) \<Rightarrow>
      if \<not> ok2 then (False, s2) else
      (case emit K kb (pos + 16) (maps_flags v) s2 of (ok3, s3) \<Rightarrow>
      if \<not> ok3 then (False, s3) else
      emit K kb (pos + 20) (take (path_copy_len max_path_length) new_path) s3)))"

fun maps_loop :: "kenv \<Rightarrow> bool \<Rightarrow> mm \<Rightarrow> u64 \<Rightarrow> vma list \<Rightarrow> u64 \<Rightarrow> u64 \<Rightarrow> int \<Rightarrow> kst \<Rightarrow>
    (int \<times> bool \<times> kst) option" where
  "maps_loop K kb m max_path_length [] copy_pos end_pos success s = Some (success, False, s)"
| "maps_loop K kb m max_path_length (v # vs) copy_pos end_pos success s =
     (if copy_pos \<ge> end_pos then Some (success, True, s)
      else (case maps_name K m v of
              None \<Rightarrow> None
            | Some name \<Rightarrow>
                (let new_path = name @ replicate (MY_PATH_MAX_LEN - length name) 0 in
                 case emit_record K kb v new_path max_path_length copy_pos s of (ok, s') \<Rightarrow>
                 if \<not> ok then Some (success, True, s')
                 else maps_loop K kb m max_path_length vs (copy_pos + 20 + max_path_length)
                        end_pos (success + 1) s')))"

definition get_proc_maps_list ::
    "kenv \<Rightarrow> nat \<Rightarrow> u64 \<Rightarrow> u64 \<Rightarrow> u64 \<Rightarrow> bool \<Rightarrow> kst \<Rightarrow> (int \<times> bool \<times> kst) option" where
  "get_proc_maps_list K p max_path_length lpBuf buf_size is_kernel_buf s =
     (if max_path_length = 0 then Some (-1, False, s)
      else (case pid_task K p of
        None \<Rightarrow> Some (-2, False, s)
      | Some t \<Rightarrow>
          (case task_mm K t of
             None \<Rightarrow> Some (-3, False, s)
           | Some m \<Rightarrow>
               (let s1 = get_mm m s;
                    s2 = (if is_kernel_buf
                          then s1\<lparr>kmem := mem_write (kmem s1) lpBuf (replicate (unat buf_size) 0)\<rparr>
                          else s1)
                in case maps_loop K is_kernel_buf m max_path_length (mmap m) lpBuf
                          (lpBuf + buf_size) 0 (down_read m s2) of
                     None \<Rightarrow> None
                   | Some (success, have_pass, s3) \<Rightarrow>
                       Some (success, have_pass, mmput m (up_read m s3))))))"

section \<open>The checks leave no trace\<close>

lemma get_proc_map_count_state [simp]: "snd (get_proc_map_count K p s) = s"
  by (auto simp: get_proc_map_count_def Let_def split: option.splits)

lemma check_proc_map_can_read_state [simp]: "snd (check_proc_map_can_read K p a n s) = s"
  by (auto simp: check_proc_map_can_read_def Let_def split: option.splits)

lemma check_proc_map_can_write_state [simp]: "snd (check_proc_map_can_write K p a n s) = s"
  by (auto simp: check_proc_map_can_write_def Let_def split: option.splits)

section \<open>What a record holds\<close>

text \<open>
  The bytes of one record for a path field of \<open>max_path_length\<close> bytes: the two bounds,
  the four flags, the name padded with zeros.
\<close>

definition vma_record :: "kenv \<Rightarrow> mm \<Rightarrow> nat \<Rightarrow> vma \<Rightarrow> byte list" where
  "vma_record K m plen v =
     u64_bytes (vm_start v) @ u64_bytes (vm_end v) @ maps_flags v @
     take (plen - 1) (the (maps_name K m v) @
       replicate (MY_PATH_MAX_LEN - length (the (maps_name K m v))) 0) @ [0]"

lemma length_maps_flags [simp]: "length (maps_flags v) = 4"
  by (simp add: maps_flags_def)

lemma maps_name_length: "maps_name K m v = Some name \<Longrightarrow> length name < MY_PATH_MAX_LEN"
  by (auto simp: maps_name_def MY_PATH_MAX_LEN_def str_bytes_def
      split: option.splits dpath.splits if_splits)

lemma maps_name_no_nul: "maps_name K m v = Some name \<Longrightarrow> 0 \<notin> set name"
  by (auto simp: maps_name_def str_bytes_def
      split: option.splits dpath.splits if_splits dest!: in_set_takeD simp: set_cstr)

lemma length_vma_record:
  assumes "maps_name K m v \<noteq> None" "0 < plen" "plen \<le> MY_PATH_MAX_LEN"
  shows "length (vma_record K m plen v) = 20 + plen"
  using assms maps_name_length [of K m v] by (auto simp: vma_record_def)

lemma emit_frame: "only_user s (snd (emit K kb pos bs s))"
  using copy_to_user_frame [of s K pos bs] by (auto simp: emit_def split: prod.splits)

lemma emit_step: "emit K kb a bs s = (ok, s') \<Longrightarrow> only_user s s'"
  using emit_frame [of s K kb a bs] by simp

lemma emit_record_frame: "only_user s (snd (emit_record K kb v np plen pos s))"
proof (cases "emit_record K kb v np plen pos s")
  case (Pair ok s')
  then have "only_user s s'"
    unfolding emit_record_def
    by (auto split: prod.splits if_splits dest!: emit_step) (blast intro: only_user_trans)+
  with Pair show ?thesis by simp
qed

lemma maps_loop_frame:
  "maps_loop K kb m plen vs pos ep n s = Some (n', hp, s') \<Longrightarrow> only_user s s'"
proof (induction K kb m plen vs pos ep n s rule: maps_loop.induct)
  case (2 K kb m plen v vs pos ep n s)
  show ?case
  proof (cases "pos \<ge> ep")
    case False
    with "2.prems" obtain name ok s1 where nm: "maps_name K m v = Some name"
      and er: "emit_record K kb v (name @ replicate (MY_PATH_MAX_LEN - length name) 0) plen pos s
        = (ok, s1)"
      by (auto simp: Let_def split: option.splits prod.splits)
    from emit_record_frame [of s K kb v _ plen pos] er have f: "only_user s s1" by (metis snd_conv)
    show ?thesis
    proof (cases ok)
      case True
      with "2.prems" False nm er have
        "maps_loop K kb m plen vs (pos + 20 + plen) ep (n + 1) s1 = Some (n', hp, s')"
        by simp
      from "2.IH" [OF False nm refl er [symmetric] _ this] True f show ?thesis
        by (auto intro: only_user_trans)
    next
      case False
      with "2.prems" \<open>\<not> ep \<le> pos\<close> nm er f show ?thesis by simp
    qed
  qed (use "2.prems" in simp)
qed simp

section \<open>The serialised list\<close>

lemma emit_ok: "kenv_copy_ok K \<Longrightarrow>
    emit K False pos bs s = (True, s\<lparr>umem := mem_write (umem s) pos bs\<rparr>)"
  by (simp add: emit_def copy_to_user_def kenv_copy_ok_def Let_def)

lemma path_copy_len_le:
  "0 < plen \<Longrightarrow> unat plen \<le> MY_PATH_MAX_LEN \<Longrightarrow> path_copy_len plen = unat plen - 1"
  by (auto simp: path_copy_len_def MY_PATH_MAX_LEN_def word_less_nat_alt word_le_nat_alt
      unat_minus_one word_gt_0)

lemma emit_record_ok:
  assumes K: "kenv_copy_ok K" and nm: "maps_name K m v = Some name"
    and pl: "0 < plen" "unat plen \<le> MY_PATH_MAX_LEN"
    and hole: "umem s (pos + word_of_nat (19 + unat plen)) = 0"
  shows "emit_record K False v (name @ replicate (MY_PATH_MAX_LEN - length name) 0) plen pos s =
    (True, s\<lparr>umem := mem_write (umem s) pos (vma_record K m (unat plen) v)\<rparr>)"
proof -
  define np where "np = name @ replicate (MY_PATH_MAX_LEN - length name) (0::byte)"
  define A where "A = u64_bytes (vm_start v)"
  define B where "B = u64_bytes (vm_end v)"
  define C where "C = maps_flags v"
  define D where "D = take (unat plen - Suc 0) np"
  let ?m = "umem s"
  have p1: "1 \<le> unat plen" using pl(1) by (simp add: word_less_nat_alt)
  have lD: "length D = unat plen - 1" using maps_name_length [OF nm] pl by (simp add: D_def np_def)
  have small: "length D < 512" using lD pl p1 by (simp add: MY_PATH_MAX_LEN_def)
  have lens: "length A = 8" "length B = 8" "length C = 4" by (simp_all add: A_def B_def C_def)
  have 1: "mem_write (mem_write ?m pos A) (pos + 8) B = mem_write ?m pos (A @ B)"
    using mem_write_append [of A B ?m pos] by (simp add: lens)
  have 2: "mem_write (mem_write ?m pos (A @ B)) (pos + 16) C = mem_write ?m pos (A @ B @ C)"
    using mem_write_append [of "A @ B" C ?m pos] by (simp add: lens)
  have 3: "mem_write (mem_write ?m pos (A @ B @ C)) (pos + 20) D = mem_write ?m pos (A @ B @ C @ D)"
    using mem_write_append [of "A @ B @ C" D ?m pos] small by (simp add: lens)
  have 4: "mem_write ?m pos ((A @ B @ C @ D) @ [0]) = mem_write ?m pos (A @ B @ C @ D)"
  proof (rule mem_write_keep_last)
    show "length (A @ B @ C @ D) < 2 ^ 64" using small by (simp add: lens)
    have "length (A @ B @ C @ D) = 19 + unat plen" using lD p1 by (simp add: lens)
    with hole show "?m (pos + word_of_nat (length (A @ B @ C @ D))) = 0" by (simp only:)
  qed
  have "vma_record K m (unat plen) v = (A @ B @ C @ D) @ [0]"
    by (simp add: vma_record_def nm A_def B_def C_def D_def np_def)
  with 4 have 5: "mem_write ?m pos (vma_record K m (unat plen) v) = mem_write ?m pos (A @ B @ C @ D)"
    by (simp only:)
  show ?thesis
    unfolding emit_record_def path_copy_len_le [OF pl]
    by (simp add: emit_ok [OF K] 1 2 3 5 flip: np_def A_def B_def C_def D_def)
qed

lemma maps_loop_ok:
  assumes K: "kenv_copy_ok K" and pl: "0 < plen" "unat plen \<le> MY_PATH_MAX_LEN"
    and "\<forall>v \<in> set vs. maps_name K m v \<noteq> None"
    and "\<forall>k < min (length vs) cap. umem s (pos + word_of_nat (k * (20 + unat plen) + 19 + unat plen)) = 0"
    and "unat pos + cap * (20 + unat plen) < 2 ^ 64"
    and "ep = pos + word_of_nat (cap * (20 + unat plen))"
  shows "maps_loop K False m plen vs pos ep n s =
    Some (n + int (min (length vs) cap), cap < length vs,
      s\<lparr>umem := mem_write (umem s) pos (concat (map (vma_record K m (unat plen)) (take cap vs)))\<rparr>)"
  using assms(4-7)
proof (induction vs arbitrary: pos cap n s)
  case Nil
  then show ?case by simp
next
  case (Cons v vs)
  let ?L = "20 + unat plen"
  obtain name where nm: "maps_name K m v = Some name" using Cons.prems(1) by auto
  show ?case
  proof (cases cap)
    case 0
    with Cons.prems show ?thesis by simp
  next
    case (Suc c)
    have fit: "unat pos + ?L + c * ?L < 2 ^ 64" using Cons.prems(3) by (simp add: Suc)
    have lt: "pos < ep"
    proof -
      have "unat ep = unat pos + cap * ?L"
        unfolding Cons.prems(4) by (rule unat_add_of_nat [OF Cons.prems(3)])
      then show ?thesis by (simp add: Suc word_less_nat_alt)
    qed
    have h0: "umem s (pos + word_of_nat (19 + unat plen)) = 0"
      using Cons.prems(2) [rule_format, of 0] by (simp add: Suc)
    let ?rec = "vma_record K m (unat plen) v"
    let ?s1 = "s\<lparr>umem := mem_write (umem s) pos ?rec\<rparr>"
    let ?pos1 = "pos + 20 + plen"
    have p1: "?pos1 = pos + word_of_nat ?L" by (simp add: add.assoc)
    have lr: "length ?rec = ?L"
      using pl nm by (intro length_vma_record) (auto simp: word_less_nat_alt)
    have up: "unat ?pos1 = unat pos + ?L"
      unfolding p1 by (rule unat_add_of_nat) (use fit in simp)
    have holes: "\<forall>k < min (length vs) c.
        umem ?s1 (?pos1 + word_of_nat (k * ?L + 19 + unat plen)) = 0"
    proof (intro allI impI)
      fix k assume k: "k < min (length vs) c"
      let ?q = "?L + (k * ?L + 19 + unat plen)"
      have e: "?pos1 + word_of_nat (k * ?L + 19 + unat plen) = pos + word_of_nat ?q"
        unfolding p1 by (simp add: add.assoc)
      have "Suc k * ?L \<le> c * ?L" using k by (intro mult_right_mono) auto
      then have "?q < 2 ^ 64" using fit by simp
      then have "umem ?s1 (pos + word_of_nat ?q) = umem s (pos + word_of_nat ?q)"
        using lr by (simp add: mem_write_beyond del: of_nat_add)
      also have "\<dots> = 0"
        using Cons.prems(2) [rule_format, of "Suc k"] k by (simp add: Suc algebra_simps)
      finally show "umem ?s1 (?pos1 + word_of_nat (k * ?L + 19 + unat plen)) = 0"
        by (simp only: e)
    qed
    have IH: "maps_loop K False m plen vs ?pos1 ep (n + 1) ?s1 =
        Some (n + 1 + int (min (length vs) c), c < length vs,
          ?s1\<lparr>umem := mem_write (umem ?s1) ?pos1
            (concat (map (vma_record K m (unat plen)) (take c vs)))\<rparr>)"
    proof (rule Cons.IH)
      show "\<forall>v\<in>set vs. maps_name K m v \<noteq> None" using Cons.prems(1) by simp
      show "unat ?pos1 + c * ?L < 2 ^ 64" using fit up by simp
      show "ep = ?pos1 + word_of_nat (c * ?L)"
        unfolding p1 using Cons.prems(4) by (simp add: Suc add.assoc algebra_simps)
    qed (rule holes)
    have app: "mem_write (mem_write (umem s) pos ?rec) ?pos1 xs = mem_write (umem s) pos (?rec @ xs)"
      if "length xs \<le> c * ?L" for xs
      unfolding p1 lr [symmetric] using fit that lr by (intro mem_write_append) simp
    have lc: "length (concat (map (vma_record K m (unat plen)) (take c vs))) \<le> c * ?L"
    proof -
      have "\<forall>v \<in> set (take c vs). length (vma_record K m (unat plen) v) = ?L"
        using Cons.prems(1) pl by (auto dest!: in_set_takeD intro!: length_vma_record
            simp: word_less_nat_alt)
      then have "length (concat (map (vma_record K m (unat plen)) (take c vs))) =
          length (take c vs) * ?L"
        by (induction "take c vs" arbitrary: c vs)
          (auto simp: length_concat sum_list_triv comp_def cong: map_cong)
      then show ?thesis by simp
    qed
    show ?thesis
      using lt by (simp add: nm emit_record_ok [OF K nm pl h0] IH app [OF lc] Suc)
  qed
qed

end
