(* ===== verification/Rw_Dev.thy ===== *)
theory Rw_Dev
  imports Proc_Maps
begin

text \<open>
  The character device's \<open>read\<close> and \<open>write\<close> (\<^verbatim>\<open>rwMem/sys.c\<close>). The caller's buffer starts
  with a 17-byte header: the pid, the virtual address and the force flag. \<open>rwmem_read\<close>
  overwrites the buffer from its start with the target's bytes; \<open>rwmem_write\<close> takes the
  bytes after the header. One iteration of either loop is a definition of its own, the
  loops are instances of \<open>chunk_loop\<close>.
\<close>

section \<open>The request header\<close>

record rw_header =
  hd_pid :: u32
  hd_addr :: u64
  hd_force :: bool

definition parse_header :: "byte list \<Rightarrow> rw_header" where
  "parse_header data = \<lparr>
     hd_pid = ucast (u64_of (get_bytes 0 8 data)),
     hd_addr = u64_of (get_bytes 8 8 data),
     hd_force = (data ! 16 = 1)\<rparr>"

definition build_header :: "u64 \<Rightarrow> u64 \<Rightarrow> bool \<Rightarrow> byte list" where
  "build_header pid addr force = u64_bytes pid @ u64_bytes addr @ [if force then 1 else 0]"

lemma length_build_header [simp]: "length (build_header pid addr force) = 17"
  by (simp add: build_header_def)

lemma parse_build_header:
  "parse_header (build_header pid addr force) =
     \<lparr>hd_pid = ucast pid, hd_addr = addr, hd_force = force\<rparr>"
  by (simp add: parse_header_def build_header_def get_bytes_def nth_append)

section \<open>Reading\<close>

definition next_piece :: "u64 \<Rightarrow> u64 \<Rightarrow> u64 \<Rightarrow> u64" where
  "next_piece phy_addr sz d =
     size_inside_page phy_addr (if sz - d > PAGE_SIZE then PAGE_SIZE else sz - d)"

definition rwmem_read_step ::
    "kenv \<Rightarrow> nat \<Rightarrow> u64 \<Rightarrow> u64 \<Rightarrow> u64 \<Rightarrow> bool \<Rightarrow> u64 \<Rightarrow> kst \<Rightarrow> u64 \<times> bool \<times> kst" where
  "rwmem_read_step K p proc_virt_addr buf sz is_force_read read_size s =
     (case get_proc_phy_addr K p (proc_virt_addr + read_size) s of (phy_addr, pte, s1) \<Rightarrow>
      if phy_addr = 0 then (0, False, s1)
      else let old_pte_can_read = is_pte_can_read K pte s1 in
      if is_force_read \<and> \<not> old_pte_can_read \<and> \<not> change_pte_read_status pte True
      then (0, False, s1)
      else if \<not> is_force_read \<and> \<not> old_pte_can_read then (0, False, s1)
      else let pfn_sz = next_piece phy_addr sz read_size;
               lpOutBuf = buf + read_size;
               s2 = snd (read_ram_physical_addr K phy_addr lpOutBuf False pfn_sz s1)
           in (pfn_sz, True, s2))"

lemma piece_bounds:
  assumes "d < sz"
  shows "next_piece phy sz d \<le> sz - d" "0 < next_piece phy sz d"
proof -
  have pos: "0 < sz - d" using assms by (simp add: word_less_nat_alt unat_le_sub [OF less_imp_le])
  show "next_piece phy sz d \<le> sz - d"
    unfolding next_piece_def
    by (rule order_trans [OF size_inside_page_le]) auto
  show "0 < next_piece phy sz d"
    unfolding next_piece_def by (rule size_inside_page_pos) (use pos in \<open>auto simp: PAGE_SIZE_def\<close>)
qed

lemma rwmem_read_step_bounds:
  assumes "d < sz" "rwmem_read_step K p va buf sz f d s = (n, go, s')"
  shows "n \<le> sz - d" "go \<Longrightarrow> 0 < n"
  using assms piece_bounds [OF assms(1)]
  by (auto simp: rwmem_read_step_def Let_def split: prod.splits if_splits)

lemma loop_measure_up:
  assumes "(d::u64) < sz" "n \<le> sz - d" "0 < n"
  shows "unat (sz - (d + n)) < unat (sz - d)"
  using loop_measure [of "sz - d" n] assms
  by (simp add: diff_diff_add word_less_nat_alt unat_le_sub [OF less_imp_le])

function rwmem_read_loop ::
    "kenv \<Rightarrow> nat \<Rightarrow> u64 \<Rightarrow> u64 \<Rightarrow> u64 \<Rightarrow> bool \<Rightarrow> u64 \<Rightarrow> kst \<Rightarrow> u64 \<times> kst" where
  "rwmem_read_loop K p proc_virt_addr buf sz is_force_read read_size s =
     (if read_size < sz then
        (case rwmem_read_step K p proc_virt_addr buf sz is_force_read read_size s of
           (n, go, s') \<Rightarrow>
             if go then rwmem_read_loop K p proc_virt_addr buf sz is_force_read (read_size + n) s'
             else (read_size + n, s'))
      else (read_size, s))"
  by pat_completeness auto
termination
  by (relation "measure (\<lambda>(K, p, va, buf, sz, f, d, s). unat (sz - d))")
    (auto simp del: unat_le_sub intro: loop_measure_up dest: rwmem_read_step_bounds [OF _ sym])

declare rwmem_read_loop.simps [simp del]

definition rwmem_read :: "kenv \<Rightarrow> u64 \<Rightarrow> u64 \<Rightarrow> kst \<Rightarrow> int \<times> kst" where
  "rwmem_read K buf sz s =
     (case copy_from_user K buf 17 s of (left, data) \<Rightarrow>
      if left = 0 then
        (let h = parse_header data in
         case find_get_pid K (hd_pid h) of
           None \<Rightarrow> (- EINVAL, s)
         | Some p \<Rightarrow>
             (let s1 = get_pid p s;
                  (can, s2) = (if hd_force h then (True, s1)
                               else check_proc_map_can_read K p (hd_addr h) sz s1)
              in if \<not> can then (- EFAULT, put_pid p s2)
                 else (case rwmem_read_loop K p (hd_addr h) buf sz (hd_force h) 0 s2 of
                         (read_size, s3) \<Rightarrow> (sint read_size, put_pid p s3))))
      else (- EFAULT, s))"

section \<open>Writing\<close>

definition rwmem_write_step ::
    "kenv \<Rightarrow> nat \<Rightarrow> u64 \<Rightarrow> u64 \<Rightarrow> u64 \<Rightarrow> bool \<Rightarrow> u64 \<Rightarrow> kst \<Rightarrow> u64 \<times> bool \<times> kst" where
  "rwmem_write_step K p proc_virt_addr buf sz is_force_write write_size s =
     (case get_proc_phy_addr K p (proc_virt_addr + write_size) s of (phy_addr, pte, s1) \<Rightarrow>
      if phy_addr = 0 then (0, False, s1)
      else let old_pte_can_write = is_pte_can_write K pte s1;
               (changed, s2) = (if is_force_write \<and> \<not> old_pte_can_write
                                then change_pte_write_status K pte True s1 else (True, s1))
      in if is_force_write \<and> \<not> old_pte_can_write \<and> \<not> changed then (0, False, s2)
      else if \<not> is_force_write \<and> \<not> old_pte_can_write then (0, False, s2)
      else let pfn_sz = next_piece phy_addr sz write_size;
               lpInputBuf = buf + 17 + write_size;
               s3 = snd (write_ram_physical_addr K phy_addr lpInputBuf False pfn_sz s2);
               s4 = (if is_force_write \<and> \<not> old_pte_can_write
                     then snd (change_pte_write_status K pte False s3) else s3)
           in (pfn_sz, True, s4))"

lemma rwmem_write_step_bounds:
  assumes "d < sz" "rwmem_write_step K p va buf sz f d s = (n, go, s')"
  shows "n \<le> sz - d" "go \<Longrightarrow> 0 < n"
  using assms piece_bounds [OF assms(1)]
  by (auto simp: rwmem_write_step_def Let_def split: prod.splits if_splits)

function rwmem_write_loop ::
    "kenv \<Rightarrow> nat \<Rightarrow> u64 \<Rightarrow> u64 \<Rightarrow> u64 \<Rightarrow> bool \<Rightarrow> u64 \<Rightarrow> kst \<Rightarrow> u64 \<times> kst" where
  "rwmem_write_loop K p proc_virt_addr buf sz is_force_write write_size s =
     (if write_size < sz then
        (case rwmem_write_step K p proc_virt_addr buf sz is_force_write write_size s of
           (n, go, s') \<Rightarrow>
             if go then rwmem_write_loop K p proc_virt_addr buf sz is_force_write (write_size + n) s'
             else (write_size + n, s'))
      else (write_size, s))"
  by pat_completeness auto
termination
  by (relation "measure (\<lambda>(K, p, va, buf, sz, f, d, s). unat (sz - d))")
    (auto simp del: unat_le_sub intro: loop_measure_up dest: rwmem_write_step_bounds [OF _ sym])

declare rwmem_write_loop.simps [simp del]

definition rwmem_write :: "kenv \<Rightarrow> u64 \<Rightarrow> u64 \<Rightarrow> kst \<Rightarrow> int \<times> kst" where
  "rwmem_write K buf sz s =
     (case copy_from_user K buf 17 s of (left, data) \<Rightarrow>
      if left = 0 then
        (let h = parse_header data in
         case find_get_pid K (hd_pid h) of
           None \<Rightarrow> (- EINVAL, s)
         | Some p \<Rightarrow>
             (let s1 = get_pid p s;
                  (can, s2) = (if hd_force h then (True, s1)
                               else check_proc_map_can_write K p (hd_addr h) sz s1)
              in if \<not> can then (- EFAULT, put_pid p s2)
                 else (case rwmem_write_loop K p (hd_addr h) buf sz (hd_force h) 0 s2 of
                         (write_size, s3) \<Rightarrow> (sint write_size, put_pid p s3))))
      else (- EFAULT, s))"

definition rwmem_open :: "kst \<Rightarrow> int \<times> kst" where "rwmem_open s = (0, s)"

definition rwmem_release :: "kst \<Rightarrow> int \<times> kst" where "rwmem_release s = (0, s)"

section \<open>Both loops keep the contract\<close>

interpretation rd: chunk_loop "rwmem_read_loop K p va buf sz f" "rwmem_read_step K p va buf sz f" sz
  for K p va buf sz f
proof unfold_locales
  fix d :: u64 and s
  show "rwmem_read_loop K p va buf sz f d s =
      (if d < sz then
         case rwmem_read_step K p va buf sz f d s of (n, go, s') \<Rightarrow>
           if go then rwmem_read_loop K p va buf sz f (d + n) s' else (d + n, s')
       else (d, s))"
    by (rule rwmem_read_loop.simps)
qed (blast dest: rwmem_read_step_bounds)+

interpretation wr: chunk_loop "rwmem_write_loop K p va buf sz f" "rwmem_write_step K p va buf sz f" sz
  for K p va buf sz f
proof unfold_locales
  fix d :: u64 and s
  show "rwmem_write_loop K p va buf sz f d s =
      (if d < sz then
         case rwmem_write_step K p va buf sz f d s of (n, go, s') \<Rightarrow>
           if go then rwmem_write_loop K p va buf sz f (d + n) s' else (d + n, s')
       else (d, s))"
    by (rule rwmem_write_loop.simps)
qed (blast dest: rwmem_write_step_bounds)+

section \<open>Frames and results\<close>

lemma rwmem_read_step_frame: "only_user s (snd (snd (rwmem_read_step K p va buf sz f d s)))"
  using read_ram_frame
  by (auto simp: rwmem_read_step_def Let_def split: prod.splits dest!: get_proc_phy_addr_same)

lemma rwmem_read_loop_frame: "d \<le> sz \<Longrightarrow> only_user s (snd (rwmem_read_loop K p va buf sz f d s))"
  by (erule rd.loop_preserves) (auto intro: only_user_trans rwmem_read_step_frame)

lemma only_user_pid: "only_user (get_pid p s) s1 \<Longrightarrow> only_user s (put_pid p s1)"
  by (cases s) (auto simp: only_user_def get_pid_def put_pid_def)

text \<open>The outcomes of the two handlers: a failed header copy, an unknown pid, a refused range,
  or the result of the loop with the pid held around it.\<close>

definition request :: "kenv \<Rightarrow> u64 \<Rightarrow> kst \<Rightarrow> rw_header" where
  "request K buf s = parse_header (snd (copy_from_user K buf 17 s))"

lemma rwmem_read_cases:
  obtains (fault) "rwmem_read K buf sz s = (- EFAULT, s)"
      "fst (copy_from_user K buf 17 s) \<noteq> 0"
  | (nopid) "rwmem_read K buf sz s = (- EINVAL, s)" "fst (copy_from_user K buf 17 s) = 0"
      "find_get_pid K (hd_pid (request K buf s)) = None"
  | (denied) p where "rwmem_read K buf sz s = (- EFAULT, s)" "fst (copy_from_user K buf 17 s) = 0"
      "find_get_pid K (hd_pid (request K buf s)) = Some p" "\<not> hd_force (request K buf s)"
      "\<not> fst (check_proc_map_can_read K p (hd_addr (request K buf s)) sz (get_pid p s))"
  | (moved) p r s1 where "rwmem_read K buf sz s = (sint r, put_pid p s1)"
      "fst (copy_from_user K buf 17 s) = 0"
      "find_get_pid K (hd_pid (request K buf s)) = Some p"
      "hd_force (request K buf s) \<or>
        fst (check_proc_map_can_read K p (hd_addr (request K buf s)) sz (get_pid p s))"
      "rwmem_read_loop K p (hd_addr (request K buf s)) buf sz (hd_force (request K buf s)) 0
        (get_pid p s) = (r, s1)"
proof -
  obtain left data where c: "copy_from_user K buf 17 s = (left, data)" by (metis surj_pair)
  show thesis
  proof (cases "left = 0")
    case True
    show thesis
    proof (cases "find_get_pid K (hd_pid (request K buf s))")
      case None
      with c True nopid show thesis by (simp add: rwmem_read_def request_def)
    next
      case (Some p)
      obtain ok s2 where ch: "check_proc_map_can_read K p (hd_addr (request K buf s)) sz
          (get_pid p s) = (ok, s2)" by (metis surj_pair)
      with check_proc_map_can_read_state [of K p "hd_addr (request K buf s)" sz "get_pid p s"]
      have s2: "s2 = get_pid p s" by simp
      obtain r s1 where lp: "rwmem_read_loop K p (hd_addr (request K buf s)) buf sz
          (hd_force (request K buf s)) 0 (get_pid p s) = (r, s1)" by (metis surj_pair)
      show thesis
      proof (cases "hd_force (request K buf s) \<or> ok")
        case True
        with c \<open>left = 0\<close> Some ch s2 lp show thesis
          by (intro moved) (auto simp: rwmem_read_def request_def Let_def)
      next
        case False
        with c \<open>left = 0\<close> Some ch s2 show thesis
          by (intro denied) (auto simp: rwmem_read_def request_def Let_def)
      qed
    qed
  next
    case False
    with c fault show thesis by (simp add: rwmem_read_def)
  qed
qed

lemma rwmem_write_cases:
  obtains (fault) "rwmem_write K buf sz s = (- EFAULT, s)"
      "fst (copy_from_user K buf 17 s) \<noteq> 0"
  | (nopid) "rwmem_write K buf sz s = (- EINVAL, s)" "fst (copy_from_user K buf 17 s) = 0"
      "find_get_pid K (hd_pid (request K buf s)) = None"
  | (denied) p where "rwmem_write K buf sz s = (- EFAULT, s)" "fst (copy_from_user K buf 17 s) = 0"
      "find_get_pid K (hd_pid (request K buf s)) = Some p" "\<not> hd_force (request K buf s)"
      "\<not> fst (check_proc_map_can_write K p (hd_addr (request K buf s)) sz (get_pid p s))"
  | (moved) p r s1 where "rwmem_write K buf sz s = (sint r, put_pid p s1)"
      "fst (copy_from_user K buf 17 s) = 0"
      "find_get_pid K (hd_pid (request K buf s)) = Some p"
      "hd_force (request K buf s) \<or>
        fst (check_proc_map_can_write K p (hd_addr (request K buf s)) sz (get_pid p s))"
      "rwmem_write_loop K p (hd_addr (request K buf s)) buf sz (hd_force (request K buf s)) 0
        (get_pid p s) = (r, s1)"
proof -
  obtain left data where c: "copy_from_user K buf 17 s = (left, data)" by (metis surj_pair)
  show thesis
  proof (cases "left = 0")
    case True
    show thesis
    proof (cases "find_get_pid K (hd_pid (request K buf s))")
      case None
      with c True nopid show thesis by (simp add: rwmem_write_def request_def)
    next
      case (Some p)
      obtain ok s2 where ch: "check_proc_map_can_write K p (hd_addr (request K buf s)) sz
          (get_pid p s) = (ok, s2)" by (metis surj_pair)
      with check_proc_map_can_write_state [of K p "hd_addr (request K buf s)" sz "get_pid p s"]
      have s2: "s2 = get_pid p s" by simp
      obtain r s1 where lp: "rwmem_write_loop K p (hd_addr (request K buf s)) buf sz
          (hd_force (request K buf s)) 0 (get_pid p s) = (r, s1)" by (metis surj_pair)
      show thesis
      proof (cases "hd_force (request K buf s) \<or> ok")
        case True
        with c \<open>left = 0\<close> Some ch s2 lp show thesis
          by (intro moved) (auto simp: rwmem_write_def request_def Let_def)
      next
        case False
        with c \<open>left = 0\<close> Some ch s2 show thesis
          by (intro denied) (auto simp: rwmem_write_def request_def Let_def)
      qed
    qed
  next
    case False
    with c fault show thesis by (simp add: rwmem_write_def)
  qed
qed

lemma rwmem_read_frame: "only_user s (snd (rwmem_read K buf sz s))"
proof (cases rule: rwmem_read_cases [of K buf sz s])
  case (moved p r s1)
  with rwmem_read_loop_frame [of 0 sz "get_pid p s"] have "only_user (get_pid p s) s1"
    by (metis snd_conv word_zero_le)
  with moved show ?thesis by (simp add: only_user_pid)
qed simp_all

text \<open>A forced write changes a leaf entry and changes it back; \<open>same_perms\<close> says that every
  entry has the write permission it had.\<close>

definition same_perms :: "kenv \<Rightarrow> kst \<Rightarrow> kst \<Rightarrow> bool" where
  "same_perms K s s' \<longleftrightarrow> (\<forall>p. pte_write K (ptab s' p) = pte_write K (ptab s p)) \<and>
     (\<exists>t ph g. s' = s\<lparr>ptab := t, phys := ph, g_phy_total := g\<rparr>)"

lemma same_perms_refl [simp]: "same_perms K s s"
  by (cases s) (auto simp: same_perms_def)

lemma same_perms_trans: "same_perms K s s1 \<Longrightarrow> same_perms K s1 s2 \<Longrightarrow> same_perms K s s2"
  by (cases s) (auto simp: same_perms_def)

lemma only_phys_same_perms: "only_phys s s' \<Longrightarrow> same_perms K s s'"
  by (cases s) (auto simp: only_phys_def same_perms_def)

lemma rwmem_write_step_perms:
  assumes "kenv_pte_ok K"
  shows "same_perms K s (snd (snd (rwmem_write_step K p va buf sz f d s)))"
proof -
  obtain phy pte where w: "get_proc_phy_addr K p (va + d) s = (phy, pte, s)"
    by (metis get_proc_phy_addr_same prod_cases3)
  let ?n = "next_piece phy sz d"
  have plain: "same_perms K s (snd (write_ram_physical_addr K phy (buf + 17 + d) False ?n s))"
    by (rule only_phys_same_perms [OF write_ram_frame])
  show ?thesis
  proof (cases "f \<and> \<not> is_pte_can_write K pte s \<and> pte \<noteq> 0")
    case True
    let ?s2 = "set_pte pte (pte_mkwrite K (ptab s pte)) s"
    let ?s3 = "snd (write_ram_physical_addr K phy (buf + 17 + d) False ?n ?s2)"
    have "only_phys ?s2 ?s3" by (rule write_ram_frame)
    then obtain ph g where s3: "?s3 = ?s2\<lparr>phys := ph, g_phy_total := g\<rparr>"
      by (auto simp: only_phys_def)
    have "\<not> pte_write K (ptab s pte)" using True by (auto simp: is_pte_can_write_def)
    then have "same_perms K s (set_pte pte (pte_wrprotect K (ptab ?s3 pte)) ?s3)"
      using assms unfolding s3
      by (cases s) (auto simp: same_perms_def set_pte_def kenv_pte_ok_def)
    then show ?thesis using True
      by (simp add: rwmem_write_step_def w change_pte_write_status_def Let_def)
  next
    case False
    then show ?thesis using plain
      by (auto simp: rwmem_write_step_def w change_pte_write_status_def Let_def
          is_pte_can_write_def split: prod.splits)
  qed
qed

lemma rwmem_write_loop_perms:
  "kenv_pte_ok K \<Longrightarrow> d \<le> sz \<Longrightarrow> same_perms K s (snd (rwmem_write_loop K p va buf sz f d s))"
  by (erule wr.loop_preserves) (auto intro: same_perms_trans rwmem_write_step_perms)

lemma same_perms_pid: "same_perms K (get_pid p s) s1 \<Longrightarrow> same_perms K s (put_pid p s1)"
  by (cases s) (auto simp: same_perms_def get_pid_def put_pid_def)

lemma rwmem_write_same_perms:
  assumes "kenv_pte_ok K"
  shows "same_perms K s (snd (rwmem_write K buf sz s))"
proof (cases rule: rwmem_write_cases [of K buf sz s])
  case (moved p r s1)
  with rwmem_write_loop_perms [OF assms, of 0 sz "get_pid p s"]
  have "same_perms K (get_pid p s) s1" by (metis snd_conv word_zero_le)
  with moved show ?thesis by (simp add: same_perms_pid)
qed simp_all

section \<open>The target's memory\<close>

text \<open>
  The specification of the data the handlers move: the byte of the target at a virtual
  address, \<open>None\<close> where the walk finds no page or the frame lies outside the physical range
  the driver accepts.
\<close>

definition target_byte :: "kenv \<Rightarrow> nat \<Rightarrow> kst \<Rightarrow> u64 \<Rightarrow> byte option" where
  "target_byte K p s va =
     (case get_proc_phy_addr K p va s of (phy, pte, s1) \<Rightarrow>
      if phy = 0 \<or> \<not> phy < phy_total K s then None else Some (phys s phy))"

definition target_readable :: "kenv \<Rightarrow> nat \<Rightarrow> kst \<Rightarrow> u64 \<Rightarrow> bool" where
  "target_readable K p s va = (case get_proc_phy_addr K p va s of (phy, pte, s1) \<Rightarrow>
     is_pte_can_read K pte s)"

definition target_writable :: "kenv \<Rightarrow> nat \<Rightarrow> kst \<Rightarrow> u64 \<Rightarrow> bool" where
  "target_writable K p s va = (case get_proc_phy_addr K p va s of (phy, pte, s1) \<Rightarrow>
     is_pte_can_write K pte s)"

definition target_phy :: "kenv \<Rightarrow> nat \<Rightarrow> kst \<Rightarrow> u64 \<Rightarrow> u64" where
  "target_phy K p s va = fst (get_proc_phy_addr K p va s)"

text \<open>The pieces of one iteration lie in one page, where translation is linear.\<close>

lemma piece_in_page:
  assumes K: "kenv_lookup_ok K" and w: "get_proc_phy_addr K p va s = (phy, pte, s1)" "phy \<noteq> 0"
    and j: "j < unat (next_piece phy sz d)"
  shows "get_proc_phy_addr K p (va + word_of_nat j) s = (phy + word_of_nat j, pte, s)"
proof -
  have "unat (phy AND (PAGE_SIZE - 1)) + unat (next_piece phy sz d) \<le> unat PAGE_SIZE"
    unfolding next_piece_def by (rule size_inside_page_page)
  with j have "unat (va AND (PAGE_SIZE - 1)) + j < unat PAGE_SIZE"
    by (simp add: get_proc_phy_addr_offset [OF K w])
  from page_of_add [OF this] get_proc_phy_addr_linear [OF K w, of "va + word_of_nat j"]
  show ?thesis by simp
qed

lemma piece_in_range:
  assumes K: "kenv_lookup_ok K" and w: "get_proc_phy_addr K p va s = (phy, pte, s1)" "phy \<noteq> 0"
    and pos: "0 < next_piece phy sz d"
    and b: "\<And>j. j < unat (next_piece phy sz d) \<Longrightarrow> phy + word_of_nat j < phy_total K s"
  shows "phy + next_piece phy sz d \<le> phy_total K s"
proof -
  let ?n = "next_piece phy sz d"
  have n: "0 < unat ?n" using pos by (simp add: word_less_nat_alt)
  let ?j = "unat ?n - 1"
  have "phy + word_of_nat ?j < phy_total K s" using b [of ?j] n by simp
  moreover have "phy + ?n = (phy + word_of_nat ?j) + 1"
    using n by (simp add: of_nat_diff)
  ultimately show ?thesis by (metis inc_le)
qed

lemma map_upt_append:
  "map f [0..<a + n] = map f [0..<a] @ map (\<lambda>i. f (a + i)) [0..<n]"
  by (induction n) auto

lemma only_user_target:
  assumes "only_user s s'" "phy_total K s' = phy_total K s"
  shows "get_proc_phy_addr K p va s' = (fst (get_proc_phy_addr K p va s),
      fst (snd (get_proc_phy_addr K p va s)), s')"
    "is_pte_can_read K pte s' = is_pte_can_read K pte s"
proof -
  have pt: "ptab s' = ptab s" by (rule only_user_fields [OF assms(1)])
  show "get_proc_phy_addr K p va s' = (fst (get_proc_phy_addr K p va s),
      fst (snd (get_proc_phy_addr K p va s)), s')"
    by (auto simp: get_proc_phy_addr_def get_task_proc_phy_addr_def get_mm_def mmput_def pt Let_def
        split_beta split: option.splits)
  show "is_pte_can_read K pte s' = is_pte_can_read K pte s"
    by (simp add: is_pte_can_read_def pt cong: option.case_cong)
qed

definition target_accessible :: "kenv \<Rightarrow> nat \<Rightarrow> kst \<Rightarrow> u64 \<Rightarrow> u64 \<Rightarrow> bool" where
  "target_accessible K p s va sz \<longleftrightarrow> (\<forall>i < unat sz. target_byte K p s (va + word_of_nat i) \<noteq> None)"

definition target_bytes :: "kenv \<Rightarrow> nat \<Rightarrow> kst \<Rightarrow> u64 \<Rightarrow> nat \<Rightarrow> byte list" where
  "target_bytes K p s va n = map (\<lambda>i. the (target_byte K p s (va + word_of_nat i))) [0..<n]"

text \<open>One iteration at an accessible place: its piece, and where the piece lies.\<close>

lemma accessible_piece:
  assumes K: "kenv_lookup_ok K" and acc: "target_accessible K p s va sz" and d: "d < sz"
  obtains phy pte where "get_proc_phy_addr K p (va + d) s = (phy, pte, s)" "phy \<noteq> 0"
    "phy + next_piece phy sz d \<le> phy_total K s"
    "\<And>j. j < unat (next_piece phy sz d) \<Longrightarrow>
       get_proc_phy_addr K p (va + d + word_of_nat j) s = (phy + word_of_nat j, pte, s)"
    "unat (d + next_piece phy sz d) = unat d + unat (next_piece phy sz d)"
    "mem_read (phys s) phy (unat (next_piece phy sz d)) =
       map (\<lambda>j. the (target_byte K p s (va + d + word_of_nat j))) [0..<unat (next_piece phy sz d)]"
proof -
  obtain phy pte where w: "get_proc_phy_addr K p (va + d) s = (phy, pte, s)"
    by (metis get_proc_phy_addr_same prod_cases3)
  have du: "unat d < unat sz" using d by (simp add: word_less_nat_alt)
  have tb: "target_byte K p s (va + d + word_of_nat j) \<noteq> None" if "unat d + j < unat sz" for j
  proof -
    have "va + d + word_of_nat j = va + word_of_nat (unat d + j)" by (simp add: add.assoc)
    with acc that show ?thesis by (metis target_accessible_def)
  qed
  have phy: "phy \<noteq> 0"
    using tb [of 0] du w by (auto simp: target_byte_def)
  let ?n = "next_piece phy sz d"
  note a = rd.add_piece [OF d piece_bounds(1) [OF d, of phy]]
  have le: "unat d + unat ?n \<le> unat sz" using a by (simp add: word_le_nat_alt)
  have lin: "get_proc_phy_addr K p (va + d + word_of_nat j) s = (phy + word_of_nat j, pte, s)"
    if "j < unat ?n" for j
    by (rule piece_in_page [OF K w phy that])
  have inr: "phy + word_of_nat j < phy_total K s" if "j < unat ?n" for j
    using tb [of j] lin [OF that] that le by (auto simp: target_byte_def split: if_splits)
  have "mem_read (phys s) phy (unat ?n) =
      map (\<lambda>j. the (target_byte K p s (va + d + word_of_nat j))) [0..<unat ?n]"
    unfolding mem_read_def
  proof (rule map_cong [OF refl])
    fix j assume "j \<in> set [0..<unat ?n]"
    then have j: "j < unat ?n" by simp
    with tb [of j] le lin [OF j] show "phys s (phy + word_of_nat j) =
        the (target_byte K p s (va + d + word_of_nat j))"
      by (auto simp: target_byte_def split: if_splits)
  qed
  with w phy lin a(2) piece_in_range [OF K w phy piece_bounds(2) [OF d] inr] show thesis
    by (intro that)
qed

lemma target_bytes_extend:
  "unat (d + n) = unat d + unat n \<Longrightarrow> target_bytes K p s va (unat (d + n)) =
    target_bytes K p s va (unat d) @
      map (\<lambda>j. the (target_byte K p s (va + d + word_of_nat j))) [0..<unat n]"
  by (simp add: target_bytes_def map_upt_append add.assoc)

lemma rwmem_read_loop_copies:
  assumes K: "kenv_lookup_ok K" "kenv_copy_ok K" and acc: "target_accessible K p s va sz"
    and rd: "\<forall>i < unat sz. target_readable K p s (va + word_of_nat i)"
  shows "fst (rwmem_read_loop K p va buf sz f 0 s) = sz \<and>
    umem (snd (rwmem_read_loop K p va buf sz f 0 s)) =
      mem_write (umem s) buf (target_bytes K p s va (unat sz))"
proof -
  let ?Inv = "\<lambda>d s'. only_user s s' \<and> phy_total K s' = phy_total K s \<and>
      umem s' = mem_write (umem s) buf (target_bytes K p s va (unat d))"
  have "fst (rwmem_read_loop K p va buf sz f 0 s) = sz \<and>
      ?Inv sz (snd (rwmem_read_loop K p va buf sz f 0 s))"
  proof (rule rd.loop_completes)
    fix d :: u64 and s1
    assume d: "d < sz" and inv: "?Inv d s1"
    obtain phy pte where w: "get_proc_phy_addr K p (va + d) s = (phy, pte, s)" "phy \<noteq> 0"
      and rng: "phy + next_piece phy sz d \<le> phy_total K s"
      and add: "unat (d + next_piece phy sz d) = unat d + unat (next_piece phy sz d)"
      and data: "mem_read (phys s) phy (unat (next_piece phy sz d)) =
        map (\<lambda>j. the (target_byte K p s (va + d + word_of_nat j))) [0..<unat (next_piece phy sz d)]"
      using accessible_piece [OF K(1) acc d] by metis
    let ?n = "next_piece phy sz d"
    from inv have tot: "phy_total K s1 = phy_total K s" and ou: "only_user s s1" by auto
    have ph: "phys s1 = phys s" by (rule only_user_fields(1) [OF ou])
    have can: "is_pte_can_read K pte s1"
    proof -
      have "target_readable K p s (va + d)"
        using rd [rule_format, of "unat d"] d by (simp add: word_less_nat_alt)
      then show ?thesis using w only_user_target(2) [OF ou tot] by (simp add: target_readable_def)
    qed
    have w1: "get_proc_phy_addr K p (va + d) s1 = (phy, pte, s1)"
      using only_user_target(1) [OF ou tot, of p "va + d"] w by simp
    let ?s2 = "s1\<lparr>umem := mem_write (umem s1) (buf + d) (mem_read (phys s1) phy (unat ?n)),
        g_phy_total := phy_total K s1\<rparr>"
    have rr: "read_ram_physical_addr K phy (buf + d) False ?n s1 = (?n, ?s2)"
      by (rule read_ram_whole [OF K(2)]) (simp add: rng tot)
    have st: "rwmem_read_step K p va buf sz f d s1 = (?n, True, ?s2)"
      by (simp add: rwmem_read_step_def w1 w(2) can Let_def rr)
    have "length (target_bytes K p s va (unat d)) + unat ?n \<le> 2 ^ 64"
      using unat_bound [of "d + ?n"] by (simp add: target_bytes_def add)
    with inv ph data have um: "umem ?s2 =
        mem_write (umem s) buf (target_bytes K p s va (unat (d + ?n)))"
      using mem_write_append [of "target_bytes K p s va (unat d)"
        "mem_read (phys s) phy (unat ?n)" "umem s" buf]
      by (simp add: target_bytes_extend [OF add] del: unat_le_sub)
        (simp add: target_bytes_def)
    have "only_user s1 ?s2" by (cases s1) (auto simp: only_user_def)
    then have "only_user s ?s2" by (rule only_user_trans [OF ou])
    moreover have "phy_total K ?s2 = phy_total K s" using tot by simp
    ultimately show "\<exists>n s'. rwmem_read_step K p va buf sz f d s1 = (n, True, s') \<and> ?Inv (d + n) s'"
      using st um by blast
  qed (simp_all add: target_bytes_def)
  then show ?thesis by blast
qed

lemma only_phys_target:
  assumes "only_phys s s'"
  shows "get_proc_phy_addr K p va s' = (fst (get_proc_phy_addr K p va s),
      fst (snd (get_proc_phy_addr K p va s)), s')"
    "is_pte_can_write K pte s' = is_pte_can_write K pte s"
proof -
  have pt: "ptab s' = ptab s" by (rule only_phys_fields [OF assms])
  show "get_proc_phy_addr K p va s' = (fst (get_proc_phy_addr K p va s),
      fst (snd (get_proc_phy_addr K p va s)), s')"
    by (auto simp: get_proc_phy_addr_def get_task_proc_phy_addr_def get_mm_def mmput_def pt Let_def
        split_beta split: option.splits)
  show "is_pte_can_write K pte s' = is_pte_can_write K pte s"
    by (simp add: is_pte_can_write_def pt)
qed

lemma mem_write_at:
  "j < length bs \<Longrightarrow> length bs \<le> 2 ^ 64 \<Longrightarrow> mem_write m a bs (a + word_of_nat j) = bs ! j"
  by (simp add: mem_write_def unat_u64_of_nat)

lemma mem_write_off:
  assumes "\<And>j. j < length bs \<Longrightarrow> x \<noteq> a + word_of_nat j"
  shows "mem_write m a bs x = m x"
proof (cases "unat (x - a) < length bs")
  case True
  from assms [OF this] show ?thesis by simp
qed (simp add: mem_write_def)

text \<open>What a finished write has done to physical memory: the target's bytes hold the data,
  no other byte has changed.\<close>

definition wrote :: "kenv \<Rightarrow> nat \<Rightarrow> kst \<Rightarrow> u64 \<Rightarrow> u64 \<Rightarrow> nat \<Rightarrow> memory \<Rightarrow> bool" where
  "wrote K p s va src n ph \<longleftrightarrow>
     (\<forall>i < n. ph (target_phy K p s (va + word_of_nat i)) = umem s (src + word_of_nat i)) \<and>
     (\<forall>x. (\<forall>i < n. x \<noteq> target_phy K p s (va + word_of_nat i)) \<longrightarrow> ph x = phys s x)"

lemma wrote_extend:
  assumes w: "wrote K p s va src n ph"
    and lin: "\<And>j. j < k \<Longrightarrow> target_phy K p s (va + word_of_nat (n + j)) = phy + word_of_nat j"
    and inj: "\<And>i j. i < n \<Longrightarrow> j < k \<Longrightarrow> target_phy K p s (va + word_of_nat i) \<noteq> phy + word_of_nat j"
    and k: "k \<le> 2 ^ 64"
  shows "wrote K p s va src (n + k)
    (mem_write ph phy (mem_read (umem s) (src + word_of_nat n) k))"
  unfolding wrote_def
proof (intro conjI allI impI)
  let ?ph = "mem_write ph phy (mem_read (umem s) (src + word_of_nat n) k)"
  fix i assume i: "i < n + k"
  show "?ph (target_phy K p s (va + word_of_nat i)) = umem s (src + word_of_nat i)"
  proof (cases "i < n")
    case True
    then have "?ph (target_phy K p s (va + word_of_nat i)) = ph (target_phy K p s (va + word_of_nat i))"
      by (intro mem_write_off) (simp add: inj)
    with w True show ?thesis by (simp add: wrote_def)
  next
    case False
    with i obtain j where j: "i = n + j" "j < k" by (metis add_less_cancel_left le_Suc_ex not_less)
    with k lin [OF j(2)] show ?thesis
      by (simp add: mem_write_at add.assoc del: of_nat_add) (simp add: add.assoc)
  qed
next
  fix x assume x: "\<forall>i < n + k. x \<noteq> target_phy K p s (va + word_of_nat i)"
  have "x \<noteq> phy + word_of_nat j" if "j < k" for j
    using x [rule_format, of "n + j"] that lin [OF that] by simp
  then have "mem_write ph phy (mem_read (umem s) (src + word_of_nat n) k) x = ph x"
    by (intro mem_write_off) simp
  also have "\<dots> = phys s x" using w x by (simp add: wrote_def)
  finally show "mem_write ph phy (mem_read (umem s) (src + word_of_nat n) k) x = phys s x" .
qed

lemma rwmem_write_loop_copies:
  assumes K: "kenv_lookup_ok K" "kenv_copy_ok K" and acc: "target_accessible K p s va sz"
    and wr: "\<forall>i < unat sz. target_writable K p s (va + word_of_nat i)"
    and inj: "inj_on (\<lambda>i. target_phy K p s (va + word_of_nat i)) {..<unat sz}"
  shows "fst (rwmem_write_loop K p va buf sz f 0 s) = sz \<and>
    only_phys s (snd (rwmem_write_loop K p va buf sz f 0 s)) \<and>
    wrote K p s va (buf + 17) (unat sz) (phys (snd (rwmem_write_loop K p va buf sz f 0 s)))"
proof -
  let ?Inv = "\<lambda>d s'. only_phys s s' \<and> phy_total K s' = phy_total K s \<and>
      wrote K p s va (buf + 17) (unat d) (phys s')"
  have "fst (rwmem_write_loop K p va buf sz f 0 s) = sz \<and>
      ?Inv sz (snd (rwmem_write_loop K p va buf sz f 0 s))"
  proof (rule wr.loop_completes)
    fix d :: u64 and s1
    assume d: "d < sz" and inv: "?Inv d s1"
    obtain phy pte where w: "get_proc_phy_addr K p (va + d) s = (phy, pte, s)" "phy \<noteq> 0"
      and rng: "phy + next_piece phy sz d \<le> phy_total K s"
      and lin: "\<And>j. j < unat (next_piece phy sz d) \<Longrightarrow>
        get_proc_phy_addr K p (va + d + word_of_nat j) s = (phy + word_of_nat j, pte, s)"
      and add: "unat (d + next_piece phy sz d) = unat d + unat (next_piece phy sz d)"
      using accessible_piece [OF K(1) acc d] by metis
    let ?n = "next_piece phy sz d"
    from inv have tot: "phy_total K s1 = phy_total K s" and op: "only_phys s s1"
      and wro: "wrote K p s va (buf + 17) (unat d) (phys s1)" by auto
    have um: "umem s1 = umem s" by (rule only_phys_fields(1) [OF op])
    have can: "is_pte_can_write K pte s1"
    proof -
      have "target_writable K p s (va + d)"
        using wr [rule_format, of "unat d"] d by (simp add: word_less_nat_alt)
      then show ?thesis using w only_phys_target(2) [OF op] by (simp add: target_writable_def)
    qed
    have w1: "get_proc_phy_addr K p (va + d) s1 = (phy, pte, s1)"
      using only_phys_target(1) [OF op, of K p "va + d"] w by simp
    let ?s2 = "s1\<lparr>phys := mem_write (phys s1) phy (mem_read (umem s1) (buf + 17 + d) (unat ?n)),
        g_phy_total := phy_total K s1\<rparr>"
    have rr: "write_ram_physical_addr K phy (buf + 17 + d) False ?n s1 = (?n, ?s2)"
      by (rule write_ram_whole [OF K(2)]) (simp add: rng tot)
    have st: "rwmem_write_step K p va buf sz f d s1 = (?n, True, ?s2)"
      by (simp add: rwmem_write_step_def w1 w(2) can Let_def rr)
    have lin': "target_phy K p s (va + word_of_nat (unat d + j)) = phy + word_of_nat j"
      if "j < unat ?n" for j
      using lin [OF that] by (simp add: target_phy_def add.assoc)
    have le: "unat d + unat ?n \<le> unat sz"
      using rd.add_piece(1) [OF d piece_bounds(1) [OF d, of phy]] add by (simp add: word_le_nat_alt)
    have inj': "target_phy K p s (va + word_of_nat i) \<noteq> phy + word_of_nat j"
      if "i < unat d" "j < unat ?n" for i j
    proof -
      have "i \<in> {..<unat sz}" "unat d + j \<in> {..<unat sz}" "i \<noteq> unat d + j"
        using that le by auto
      with inj have "target_phy K p s (va + word_of_nat i) \<noteq>
          target_phy K p s (va + word_of_nat (unat d + j))" by (auto simp del: of_nat_add dest: inj_onD)
      with lin' [OF that(2)] show ?thesis by simp
    qed
    have "unat ?n \<le> 2 ^ 64" using unat_bound [of ?n] by simp
    from wrote_extend [OF wro lin' inj' this]
    have "wrote K p s va (buf + 17) (unat (d + ?n)) (phys ?s2)" by (simp add: add um del: unat_le_sub)
    moreover have "only_phys s1 ?s2" by (cases s1) (auto simp: only_phys_def)
    then have "only_phys s ?s2" by (rule only_phys_trans [OF op])
    moreover have "phy_total K ?s2 = phy_total K s" using tot by simp
    ultimately show "\<exists>n s'. rwmem_write_step K p va buf sz f d s1 = (n, True, s') \<and> ?Inv (d + n) s'"
      using st by blast
  qed (simp_all add: wrote_def)
  then show ?thesis by blast
qed

section \<open>Properties of the device\<close>

lemma sint_small: "(w::u64) < 2 ^ 63 \<Longrightarrow> sint w = uint w"
  by (simp add: sint_uint signed_take_bit_int_eq_self_iff word_less_def order_trans [OF _ uint_ge_0])

lemma target_bytes_pid [simp]:
  "target_byte K p (get_pid q s) va = target_byte K p s va"
  "target_bytes K p (get_pid q s) va n = target_bytes K p s va n"
  "target_readable K p (get_pid q s) va = target_readable K p s va"
  "target_writable K p (get_pid q s) va = target_writable K p s va"
  "target_phy K p (get_pid q s) va = target_phy K p s va"
proof -
  have g: "get_proc_phy_addr K p va (get_pid q s) = (fst (get_proc_phy_addr K p va s),
      fst (snd (get_proc_phy_addr K p va s)), get_pid q s)" for va
    by (auto simp: get_proc_phy_addr_def get_task_proc_phy_addr_def get_mm_def mmput_def Let_def
        get_pid_def split_beta split: option.splits)
  have f: "phys (get_pid q s) = phys s" "phy_total K (get_pid q s) = phy_total K s"
    "ptab (get_pid q s) = ptab s"
    by (simp_all add: get_pid_def phy_total_def)
  show tb: "target_byte K p (get_pid q s) va = target_byte K p s va" for va
    by (simp add: target_byte_def g f split_beta)
  show "target_bytes K p (get_pid q s) va n = target_bytes K p s va n"
    by (simp add: target_bytes_def tb)
  show "target_readable K p (get_pid q s) va = target_readable K p s va"
    by (simp add: target_readable_def g f is_pte_can_read_def split_beta cong: option.case_cong)
  show "target_writable K p (get_pid q s) va = target_writable K p s va"
    by (simp add: target_writable_def g f is_pte_can_write_def split_beta)
  show "target_phy K p (get_pid q s) va = target_phy K p s va"
    by (simp add: target_phy_def g)
qed

lemma target_accessible_pid [simp]:
  "target_accessible K p (get_pid q s) va sz = target_accessible K p s va sz"
  by (simp add: target_accessible_def)

lemma rwmem_read_ok:
  assumes "kenv_lookup_ok K" "kenv_copy_ok K"
    and "find_get_pid K (hd_pid (request K buf s)) = Some p"
    and "hd_force (request K buf s) \<or>
      fst (check_proc_map_can_read K p (hd_addr (request K buf s)) sz (get_pid p s))"
    and "target_accessible K p s (hd_addr (request K buf s)) sz"
    and "\<forall>i < unat sz. target_readable K p s (hd_addr (request K buf s) + word_of_nat i)"
    and "sz < 2 ^ 63"
  shows "fst (rwmem_read K buf sz s) = uint sz \<and> umem (snd (rwmem_read K buf sz s)) =
      mem_write (umem s) buf (target_bytes K p s (hd_addr (request K buf s)) (unat sz))"
proof -
  let ?h = "request K buf s"
  have lp: "fst (rwmem_read_loop K p (hd_addr ?h) buf sz (hd_force ?h) 0 (get_pid p s)) = sz \<and>
      umem (snd (rwmem_read_loop K p (hd_addr ?h) buf sz (hd_force ?h) 0 (get_pid p s))) =
      mem_write (umem (get_pid p s)) buf (target_bytes K p (get_pid p s) (hd_addr ?h) (unat sz))"
    using assms(5,6) by (intro rwmem_read_loop_copies [OF assms(1,2)]) simp_all
  have u: "umem (get_pid q t) = umem t" "umem (put_pid q t) = umem t" for q t
    by (simp_all add: get_pid_def put_pid_def)
  have "fst (copy_from_user K buf 17 s) = 0"
    using assms(2) by (simp add: copy_from_user_def kenv_copy_ok_def Let_def)
  with assms(3,4) show ?thesis
  proof (cases rule: rwmem_read_cases [of K buf sz s])
    case (moved q r s1)
    with assms(3) have "q = p" by simp
    with moved lp have "r = sz" "umem s1 = mem_write (umem s) buf (target_bytes K p s (hd_addr ?h) (unat sz))"
      by (simp_all add: u)
    with moved(1) assms(7) show ?thesis by (simp add: u sint_small)
  qed auto
qed

text \<open>C1. A read of an accessible range of the target returns the whole size and puts exactly
  the target's bytes into the caller's buffer, in order, across any number of pages and
  whatever frames back them; the caller's memory outside the buffer is unchanged.\<close>

theorem rwmem_read_correct:
  assumes "kenv_lookup_ok K" "kenv_copy_ok K"
    and "find_get_pid K (hd_pid (request K buf s)) = Some p"
    and "hd_force (request K buf s) \<or>
      fst (check_proc_map_can_read K p (hd_addr (request K buf s)) sz (get_pid p s))"
    and "target_accessible K p s (hd_addr (request K buf s)) sz"
    and "\<forall>i < unat sz. target_readable K p s (hd_addr (request K buf s) + word_of_nat i)"
    and "sz < 2 ^ 63"
  shows "fst (rwmem_read K buf sz s) = uint sz \<and> umem (snd (rwmem_read K buf sz s)) =
      mem_write (umem s) buf (target_bytes K p s (hd_addr (request K buf s)) (unat sz))"
  by (rule rwmem_read_ok [OF assms])

definition demo_request :: "bool \<Rightarrow> u64 \<Rightarrow> kst" where
  "demo_request f va = demo_kst\<lparr>umem := mem_write (\<lambda>_. 0) 0x100 (build_header 7 va f)\<rparr>"

lemma demo_request_sel [simp]:
  "phys (demo_request f va) a = ucast a"
  "ptab (demo_request f va) q = (if q = 8 then 1 else if q = 0x1010 then 0x5003
     else if q = 0x1011 then 0x9003 else if q = 0x1020 then 0x7001 else 0)"
  "ptab demo_kst q = (if q = 8 then 1 else if q = 0x1010 then 0x5003
     else if q = 0x1011 then 0x9003 else if q = 0x1020 then 0x7001 else 0)"
  by (simp_all add: demo_request_def demo_kst_def)

lemma demo_header:
  "request demo_env 0x100 (demo_request f va) = \<lparr>hd_pid = 7, hd_addr = va, hd_force = f\<rparr>"
proof -
  have "mem_read (mem_write (\<lambda>_. 0) 0x100 (build_header 7 va f)) 0x100 17 = build_header 7 va f"
    using mem_read_write_same [of "build_header 7 va f"] by simp
  then show ?thesis
    by (simp add: request_def copy_from_user_def demo_request_def parse_build_header
        Let_def)
qed

text \<open>The demo page of an address, and what the walk finds there.\<close>

lemma demo_walk:
  "get_proc_phy_addr demo_env 3 va (demo_request f a) =
    (let pte = PAGE_SIZE + drop_bit 12 va; v = ptab demo_kst pte in
     if v AND 1 = 0 then (0, 0, demo_request f a)
     else (page_of v OR (va AND (PAGE_SIZE - 1)), pte, demo_request f a))"
  by (simp add: get_proc_phy_addr_def get_task_proc_phy_addr_def page_walk_def
      demo_request_def demo_kst_def get_mm_def mmput_def Let_def demo_mm_def fun_upd_idem)

lemma demo_walk_total:
  "get_proc_phy_addr demo_env 3 va ((demo_request f a)\<lparr>g_phy_total := n\<rparr>) =
    (let (phy, pte, s0) = get_proc_phy_addr demo_env 3 va (demo_request f a)
     in (phy, pte, (demo_request f a)\<lparr>g_phy_total := n\<rparr>))"
  by (simp add: get_proc_phy_addr_def get_task_proc_phy_addr_def split_beta get_mm_def mmput_def Let_def)

lemma demo_total: "phy_total demo_env (demo_request f a) = 0x200000000"
  by (simp add: phy_total_def demo_request_def demo_kst_def push_bit_eq_mult)

lemma less_four: "(i::nat) < 4 \<Longrightarrow> i = 0 \<or> i = 1 \<or> i = 2 \<or> i = 3"
  by auto

lemma demo_byte:
  assumes "va \<in> {0x10ffe, 0x10fff, 0x11000, 0x11001}"
  shows "target_byte demo_env 3 (demo_request f a) va =
      Some (if va = 0x10ffe then 0xfe else if va = 0x10fff then 0xff
        else if va = 0x11000 then 0 else 1)"
    "target_readable demo_env 3 (demo_request f a) va"
    "target_writable demo_env 3 (demo_request f a) va"
    "target_phy demo_env 3 (demo_request f a) va =
      (if va = 0x10ffe then 0x5ffe else if va = 0x10fff then 0x5fff
        else if va = 0x11000 then 0x9000 else 0x9001)"
  using assms
  by (auto simp: target_byte_def target_readable_def target_writable_def target_phy_def
      demo_walk demo_total page_of_def PAGE_SIZE_def
      is_pte_can_read_def is_pte_can_write_def Let_def)

lemma demo_check:
  "fst (check_proc_map_can_read demo_env 3 0x10ffe 4 (get_pid 3 (demo_request f a)))"
  "fst (check_proc_map_can_write demo_env 3 0x10ffe 4 (get_pid 3 (demo_request f a)))"
  by (simp_all add: check_proc_map_can_read_def check_proc_map_can_write_def
      demo_find_vma_def demo_mm_def demo_vmas_def VM_READ_def VM_WRITE_def Let_def)

theorem rwmem_read_correct_witness:
  "fst (rwmem_read demo_env 0x100 4 (demo_request False 0x10ffe)) = 4 \<and>
   mem_read (umem (snd (rwmem_read demo_env 0x100 4 (demo_request False 0x10ffe)))) 0x100 4 =
     [0xfe, 0xff, 0, 1]"
proof -
  let ?s = "demo_request False 0x10ffe"
  have tb: "target_bytes demo_env 3 ?s 0x10ffe 4 = [0xfe, 0xff, 0, 1]"
    by (simp add: target_bytes_def demo_byte upt_rec)
  have h: "find_get_pid demo_env (hd_pid (request demo_env 0x100 ?s)) = Some 3"
    "hd_addr (request demo_env 0x100 ?s) = 0x10ffe"
    by (simp_all add: demo_header)
  have "fst (rwmem_read demo_env 0x100 4 ?s) = uint (4::u64) \<and>
      umem (snd (rwmem_read demo_env 0x100 4 ?s)) =
      mem_write (umem ?s) 0x100 (target_bytes demo_env 3 ?s
        (hd_addr (request demo_env 0x100 ?s)) (unat (4::u64)))"
    by (rule rwmem_read_correct [OF demo_lookup_ok demo_copy_ok h(1)])
      (auto simp: h(2) demo_check target_accessible_def demo_byte dest!: less_four)
  with tb h(2) show ?thesis by simp
qed

lemma rwmem_write_ok:
  assumes "kenv_lookup_ok K" "kenv_copy_ok K"
    and "find_get_pid K (hd_pid (request K buf s)) = Some p"
    and "hd_force (request K buf s) \<or>
      fst (check_proc_map_can_write K p (hd_addr (request K buf s)) sz (get_pid p s))"
    and "target_accessible K p s (hd_addr (request K buf s)) sz"
    and "\<forall>i < unat sz. target_writable K p s (hd_addr (request K buf s) + word_of_nat i)"
    and "inj_on (\<lambda>i. target_phy K p s (hd_addr (request K buf s) + word_of_nat i)) {..<unat sz}"
    and "sz < 2 ^ 63"
  shows "fst (rwmem_write K buf sz s) = uint sz \<and>
    wrote K p s (hd_addr (request K buf s)) (buf + 17) (unat sz) (phys (snd (rwmem_write K buf sz s))) \<and>
    umem (snd (rwmem_write K buf sz s)) = umem s \<and> ptab (snd (rwmem_write K buf sz s)) = ptab s"
proof -
  let ?h = "request K buf s"
  have lp: "fst (rwmem_write_loop K p (hd_addr ?h) buf sz (hd_force ?h) 0 (get_pid p s)) = sz \<and>
      only_phys (get_pid p s)
        (snd (rwmem_write_loop K p (hd_addr ?h) buf sz (hd_force ?h) 0 (get_pid p s))) \<and>
      wrote K p (get_pid p s) (hd_addr ?h) (buf + 17) (unat sz)
        (phys (snd (rwmem_write_loop K p (hd_addr ?h) buf sz (hd_force ?h) 0 (get_pid p s))))"
    using assms(5-7) by (intro rwmem_write_loop_copies [OF assms(1,2)]) simp_all
  have u: "umem (get_pid q t) = umem t" "umem (put_pid q t) = umem t"
    "phys (get_pid q t) = phys t" "phys (put_pid q t) = phys t"
    "ptab (get_pid q t) = ptab t" "ptab (put_pid q t) = ptab t" for q t
    by (simp_all add: get_pid_def put_pid_def)
  have wp: "wrote K p (get_pid p s) va src n ph = wrote K p s va src n ph" for va src n ph
    by (simp add: wrote_def u)
  have "fst (copy_from_user K buf 17 s) = 0"
    using assms(2) by (simp add: copy_from_user_def kenv_copy_ok_def Let_def)
  with assms(3,4) show ?thesis
  proof (cases rule: rwmem_write_cases [of K buf sz s])
    case (moved q r s1)
    with assms(3) have q: "q = p" by simp
    with moved lp have r: "r = sz" and op: "only_phys (get_pid p s) s1"
      and w: "wrote K p s (hd_addr ?h) (buf + 17) (unat sz) (phys s1)"
      by (simp_all add: wp)
    from only_phys_fields [OF op] have "umem s1 = umem s" "ptab s1 = ptab s" by (simp_all add: u)
    with moved(1) assms(8) r w show ?thesis by (simp add: u sint_small)
  qed auto
qed

text \<open>C2. A write to a writable range of the target returns the whole size and stores the bytes
  that follow the header at the physical places the range translates to, changing no other
  byte of physical memory; the caller's memory and the page tables are unchanged.\<close>

theorem rwmem_write_correct:
  assumes "kenv_lookup_ok K" "kenv_copy_ok K"
    and "find_get_pid K (hd_pid (request K buf s)) = Some p"
    and "hd_force (request K buf s) \<or>
      fst (check_proc_map_can_write K p (hd_addr (request K buf s)) sz (get_pid p s))"
    and "target_accessible K p s (hd_addr (request K buf s)) sz"
    and "\<forall>i < unat sz. target_writable K p s (hd_addr (request K buf s) + word_of_nat i)"
    and "inj_on (\<lambda>i. target_phy K p s (hd_addr (request K buf s) + word_of_nat i)) {..<unat sz}"
    and "sz < 2 ^ 63"
  shows "fst (rwmem_write K buf sz s) = uint sz \<and>
    wrote K p s (hd_addr (request K buf s)) (buf + 17) (unat sz) (phys (snd (rwmem_write K buf sz s))) \<and>
    umem (snd (rwmem_write K buf sz s)) = umem s \<and> ptab (snd (rwmem_write K buf sz s)) = ptab s"
  by (rule rwmem_write_ok [OF assms])

theorem rwmem_write_correct_witness:
  "fst (rwmem_write demo_env 0x100 4 (demo_request False 0x10ffe)) = 4 \<and>
   wrote demo_env 3 (demo_request False 0x10ffe) 0x10ffe 0x111 4
     (phys (snd (rwmem_write demo_env 0x100 4 (demo_request False 0x10ffe))))"
proof -
  let ?s = "demo_request False 0x10ffe"
  have h: "find_get_pid demo_env (hd_pid (request demo_env 0x100 ?s)) = Some 3"
    "hd_addr (request demo_env 0x100 ?s) = 0x10ffe"
    by (simp_all add: demo_header)
  have "fst (rwmem_write demo_env 0x100 4 ?s) = uint (4::u64) \<and>
      wrote demo_env 3 ?s (hd_addr (request demo_env 0x100 ?s)) (0x100 + 17) (unat (4::u64))
        (phys (snd (rwmem_write demo_env 0x100 4 ?s))) \<and>
      umem (snd (rwmem_write demo_env 0x100 4 ?s)) = umem ?s \<and>
      ptab (snd (rwmem_write demo_env 0x100 4 ?s)) = ptab ?s"
    by (rule rwmem_write_correct [OF demo_lookup_ok demo_copy_ok h(1)])
      (auto simp: h(2) demo_check target_accessible_def demo_byte inj_on_def dest!: less_four)
  with h(2) show ?thesis by simp
qed

text \<open>C5. On every path of a read, error paths included, the driver gives back the references
  and locks it took and changes nothing but the caller's memory: the target's physical
  memory and page tables, and every reference count, are as before.\<close>

theorem rwmem_read_leaves_target:
  "phys (snd (rwmem_read K buf sz s)) = phys s \<and> ptab (snd (rwmem_read K buf sz s)) = ptab s \<and>
   pid_refs (snd (rwmem_read K buf sz s)) = pid_refs s \<and>
   mm_refs (snd (rwmem_read K buf sz s)) = mm_refs s \<and>
   mmap_readers (snd (rwmem_read K buf sz s)) = mmap_readers s"
  by (simp add: only_user_fields [OF rwmem_read_frame [of s K buf sz]])

text \<open>C6. A write, forced or not and whatever its outcome, leaves every page-table entry with
  the write permission it had (a forced write restores it after each piece), the caller's
  memory unchanged and every reference given back.\<close>

theorem rwmem_write_restores_permissions:
  assumes "kenv_pte_ok K"
  shows "(\<forall>q. pte_write K (ptab (snd (rwmem_write K buf sz s)) q) = pte_write K (ptab s q)) \<and>
    umem (snd (rwmem_write K buf sz s)) = umem s \<and>
    pid_refs (snd (rwmem_write K buf sz s)) = pid_refs s \<and>
    mm_refs (snd (rwmem_write K buf sz s)) = mm_refs s \<and>
    mmap_readers (snd (rwmem_write K buf sz s)) = mmap_readers s"
  using rwmem_write_same_perms [OF assms, of s buf sz] by (auto simp: same_perms_def)

theorem rwmem_write_restores_permissions_witness:
  "pte_write demo_env (ptab (snd (rwmem_write demo_env 0x100 4 (demo_request True 0x20000))) 0x1020)
     = pte_write demo_env 0x7001"
  using rwmem_write_restores_permissions [OF demo_pte_ok, of "0x100" 4 "demo_request True 0x20000"]
  by simp

lemma sint_bounds:
  assumes "(r::u64) \<le> sz" "sz < 2 ^ 63"
  shows "0 \<le> sint r" "sint r = uint r" "sint r \<le> uint sz"
proof -
  have "r < 2 ^ 63" using assms by (rule order_le_less_trans)
  then show "sint r = uint r" by (rule sint_small)
  then show "0 \<le> sint r" "sint r \<le> uint sz" using assms(1) by (simp_all add: word_le_def)
qed

lemma rwmem_read_step_break:
  assumes "rwmem_read_step K p va buf sz f d s1 = (n, False, s2)" "only_user s s1"
  shows "n = 0" "fst (get_proc_phy_addr K p (va + d) s) = 0 \<or> \<not> target_readable K p s (va + d)"
proof -
  have pt: "ptab s1 = ptab s" by (rule only_user_fields [OF assms(2)])
  have g: "get_proc_phy_addr K p (va + d) s1 = (fst (get_proc_phy_addr K p (va + d) s),
      fst (snd (get_proc_phy_addr K p (va + d) s)), s1)"
    by (auto simp: get_proc_phy_addr_def get_task_proc_phy_addr_def get_mm_def mmput_def pt Let_def
        split_beta split: option.splits)
  have c: "is_pte_can_read K pte s1 = is_pte_can_read K pte s" for pte
    by (simp add: is_pte_can_read_def pt cong: option.case_cong)
  from assms(1) show "n = 0"
    by (auto simp: rwmem_read_step_def Let_def split: prod.splits if_splits)
  from assms(1) show "fst (get_proc_phy_addr K p (va + d) s) = 0 \<or>
      \<not> target_readable K p s (va + d)"
    by (auto simp: rwmem_read_step_def g c target_readable_def Let_def split: prod.splits if_splits)
qed

text \<open>A read that is cut short stops at the first byte it cannot reach: where it returns
  fewer bytes than asked for, the target has no page at the next address or its entry is not
  readable. The result is otherwise an error number, or the size.\<close>

theorem rwmem_read_result:
  assumes "sz < 2 ^ 63" and "rwmem_read K buf sz s = (r, s')"
  shows "r = - EINVAL \<or> r = - EFAULT \<or> r = uint sz \<or>
    (0 \<le> r \<and> r < uint sz \<and>
      (\<exists>p. find_get_pid K (hd_pid (request K buf s)) = Some p \<and>
        (let va = hd_addr (request K buf s) + word_of_int r
         in fst (get_proc_phy_addr K p va (get_pid p s)) = 0 \<or>
           \<not> target_readable K p (get_pid p s) va)))"
proof (cases rule: rwmem_read_cases [of K buf sz s])
  case (moved p n s1)
  let ?va = "hd_addr (request K buf s)" and ?f = "hd_force (request K buf s)"
  let ?s = "get_pid p s"
  have nle: "n \<le> sz" using rd.loop_result_bounds [of 0 sz K p ?va buf ?f ?s] moved by simp
  have r: "r = sint n" using moved assms by simp
  show ?thesis
  proof (cases "n < sz")
    case True
    then have "\<exists>d' m s1 s2. 0 \<le> d' \<and> d' < sz \<and>
        rwmem_read_step K p ?va buf sz ?f d' s1 = (m, False, s2) \<and> only_user ?s s1 \<and>
        rwmem_read_loop K p ?va buf sz ?f 0 ?s = (d' + m, s2)"
      by (intro rd.loop_short) (auto simp: moved intro: only_user_trans rwmem_read_step_frame)
    then obtain d' m s1' s2 where st: "rwmem_read_step K p ?va buf sz ?f d' s1' = (m, False, s2)"
      "only_user ?s s1'" and "n = d' + m"
      using moved by auto
    with rwmem_read_step_break(1) [OF st] have "n = d'" by simp
    with rwmem_read_step_break(2) [OF st] have
      "fst (get_proc_phy_addr K p (?va + n) ?s) = 0 \<or> \<not> target_readable K p ?s (?va + n)" by simp
    moreover have "word_of_int (sint n) = n" by simp
    ultimately have "let va = ?va + word_of_int r in fst (get_proc_phy_addr K p va ?s) = 0 \<or>
        \<not> target_readable K p ?s va"
      by (simp only: r Let_def)
    moreover have "0 \<le> r" "r < uint sz"
      using sint_bounds [OF nle assms(1)] True by (simp_all add: r word_less_def)
    ultimately show ?thesis using moved(3) by blast
  next
    case False
    with nle have "n = sz" by simp
    then show ?thesis using sint_bounds(2) [OF nle assms(1)] by (simp add: r)
  qed
qed (use assms in auto)

theorem rwmem_read_result_witness:
  "\<exists>r s'. rwmem_read demo_env 0x100 4 (demo_request False 0x10ffe) = (r, s') \<and>
    (r = - EINVAL \<or> r = - EFAULT \<or> r = 4 \<or> (0 \<le> r \<and> r < 4))"
proof -
  obtain r s' where e: "rwmem_read demo_env 0x100 4 (demo_request False 0x10ffe) = (r, s')"
    by (metis surj_pair)
  have "(4::u64) < 2 ^ 63" by simp
  from rwmem_read_result [OF this e] e show ?thesis by auto
qed

lemma demo_uncopied_header:
  "hd_pid (request demo_env 0x100 ((demo_request False 0x10ffe)\<lparr>g_phy_total := 1\<rparr>)) = 7"
  "hd_addr (request demo_env 0x100 ((demo_request False 0x10ffe)\<lparr>g_phy_total := 1\<rparr>)) = 0x10ffe"
proof -
  have r: "request demo_env 0x100 ((demo_request False 0x10ffe)\<lparr>g_phy_total := 1\<rparr>) =
      request demo_env 0x100 (demo_request False 0x10ffe)"
    by (simp add: request_def copy_from_user_def)
  show "hd_pid (request demo_env 0x100 ((demo_request False 0x10ffe)\<lparr>g_phy_total := 1\<rparr>)) = 7"
    by (subst r, subst demo_header, rule rw_header.select_convs)
  show "hd_addr (request demo_env 0x100 ((demo_request False 0x10ffe)\<lparr>g_phy_total := 1\<rparr>)) = 0x10ffe"
    by (subst r, subst demo_header, rule rw_header.select_convs)
qed

lemma demo_uncopied_walk:
  assumes "va = 0x10ffe \<or> va = 0x10fff \<or> va = 0x11000 \<or> va = (0x11001::u64)"
  shows "let (phy, pte, s0) = get_proc_phy_addr demo_env 3 va
      ((demo_request False 0x10ffe)\<lparr>g_phy_total := 1\<rparr>)
    in phy = (if va = 0x10ffe then 0x5ffe else if va = 0x10fff then 0x5fff
        else if va = 0x11000 then 0x9000 else 0x9001) \<and> pte \<noteq> 0"
  using assms by (auto simp: demo_walk_total demo_walk page_of_def PAGE_SIZE_def Let_def)

text \<open>The driver does not look at what the physical copy reports: a page whose frame lies
  outside the accepted physical range is counted as read although nothing is copied, so a
  read that only meets such pages returns the whole size with the caller's memory untouched.\<close>

theorem rwmem_read_counts_uncopied:
  assumes "kenv_copy_ok K"
    and "find_get_pid K (hd_pid (request K buf s)) = Some p"
    and "hd_force (request K buf s) \<or>
      fst (check_proc_map_can_read K p (hd_addr (request K buf s)) sz (get_pid p s))"
    and out: "\<forall>d < sz. let (phy, pte, s0) = get_proc_phy_addr K p (hd_addr (request K buf s) + d) s
      in phy \<noteq> 0 \<and> is_pte_can_read K pte s \<and> \<not> phy + next_piece phy sz d \<le> phy_total K s"
    and "sz < 2 ^ 63"
  shows "fst (rwmem_read K buf sz s) = uint sz \<and> umem (snd (rwmem_read K buf sz s)) = umem s"
proof -
  let ?h = "request K buf s"
  let ?Inv = "\<lambda>d s'. only_user (get_pid p s) s' \<and> phy_total K s' = phy_total K s \<and> umem s' = umem s"
  have "fst (rwmem_read_loop K p (hd_addr ?h) buf sz (hd_force ?h) 0 (get_pid p s)) = sz \<and>
      ?Inv sz (snd (rwmem_read_loop K p (hd_addr ?h) buf sz (hd_force ?h) 0 (get_pid p s)))"
  proof (rule rd.loop_completes)
    show "?Inv 0 (get_pid p s)" by (simp add: get_pid_def)
    fix d :: u64 and s1
    assume d: "d < sz" and inv: "?Inv d s1"
    obtain phy pte where w: "get_proc_phy_addr K p (hd_addr ?h + d) s = (phy, pte, s)"
      by (metis get_proc_phy_addr_same prod_cases3)
    from out [rule_format, OF d] w have o: "phy \<noteq> 0" "is_pte_can_read K pte s"
      "\<not> phy + next_piece phy sz d \<le> phy_total K s" by (auto simp: Let_def)
    have pt: "ptab s1 = ptab s" using only_user_fields(2) [of "get_pid p s" s1] inv
      by (simp add: get_pid_def)
    have w1: "get_proc_phy_addr K p (hd_addr ?h + d) s1 = (phy, pte, s1)"
      using w by (auto simp: get_proc_phy_addr_def get_task_proc_phy_addr_def get_mm_def mmput_def
          pt Let_def split_beta split: option.splits)
    have c: "is_pte_can_read K pte s1"
      using o(2) by (simp add: is_pte_can_read_def pt split: if_splits cong: option.case_cong)
    let ?s2 = "s1\<lparr>g_phy_total := phy_total K s1\<rparr>"
    have "\<not> phy + next_piece phy sz d \<le> phy_total K s1" using o(3) inv by simp
    from ram_out_of_range(1) [OF this] have
      "rwmem_read_step K p (hd_addr ?h) buf sz (hd_force ?h) d s1 = (next_piece phy sz d, True, ?s2)"
      by (simp add: rwmem_read_step_def w1 o(1) c Let_def)
    moreover have "only_user (get_pid p s) ?s2"
      using inv by (blast intro: only_user_trans only_user_step)
    then have "?Inv (d + next_piece phy sz d) ?s2" using inv by simp
    ultimately show "\<exists>n s'. rwmem_read_step K p (hd_addr ?h) buf sz (hd_force ?h) d s1 =
        (n, True, s') \<and> ?Inv (d + n) s'" by blast
  qed simp
  note lp = this
  have "fst (copy_from_user K buf 17 s) = 0"
    using assms(1) by (simp add: copy_from_user_def kenv_copy_ok_def Let_def)
  with assms(2,3) show ?thesis
  proof (cases rule: rwmem_read_cases [of K buf sz s])
    case (moved q r s1)
    with assms(2) lp have "r = sz" "umem s1 = umem s" by auto
    with moved(1) assms(5) show ?thesis by (simp add: sint_small put_pid_def)
  qed auto
qed

theorem rwmem_read_counts_uncopied_witness:
  "fst (rwmem_read demo_env 0x100 4 ((demo_request False 0x10ffe)\<lparr>g_phy_total := 1\<rparr>)) = 4 \<and>
   umem (snd (rwmem_read demo_env 0x100 4 ((demo_request False 0x10ffe)\<lparr>g_phy_total := 1\<rparr>))) =
     umem (demo_request False 0x10ffe)"
proof -
  let ?s = "(demo_request False 0x10ffe)\<lparr>g_phy_total := 1\<rparr>"
  have cases4: "d = 0 \<or> d = 1 \<or> d = 2 \<or> d = 3" if "d < 4" for d :: u64
  proof -
    define k where "k = unat d"
    have d: "d = word_of_nat k" by (simp add: k_def)
    have "k < 4" using that by (simp add: word_less_nat_alt k_def)
    from less_four [OF this] show ?thesis unfolding d by auto
  qed
  have "fst (rwmem_read demo_env 0x100 4 ?s) = uint (4::u64) \<and>
      umem (snd (rwmem_read demo_env 0x100 4 ?s)) = umem ?s"
  proof (rule rwmem_read_counts_uncopied [OF demo_copy_ok])
    show "find_get_pid demo_env (hd_pid (request demo_env 0x100 ?s)) = Some 3"
      by (simp add: demo_uncopied_header)
    show "hd_force (request demo_env 0x100 ?s) \<or> fst (check_proc_map_can_read demo_env 3
        (hd_addr (request demo_env 0x100 ?s)) 4 (get_pid 3 ?s))"
      using demo_check(1) [of False "0x10ffe"]
      by (simp add: demo_uncopied_header check_proc_map_can_read_def Let_def)
    show "\<forall>d<4. let (phy, pte, s0) = get_proc_phy_addr demo_env 3
        (hd_addr (request demo_env 0x100 ?s) + d) ?s
      in phy \<noteq> 0 \<and> is_pte_can_read demo_env pte ?s \<and>
        \<not> phy + next_piece phy 4 d \<le> phy_total demo_env ?s"
    proof (intro allI impI)
      fix d :: u64 assume "d < 4"
      then have d: "d = 0 \<or> d = 1 \<or> d = 2 \<or> d = 3" by (rule cases4)
      let ?va = "0x10ffe + d"
      have va: "?va = 0x10ffe \<or> ?va = 0x10fff \<or> ?va = 0x11000 \<or> ?va = 0x11001"
        using d by auto
      show "let (phy, pte, s0) = get_proc_phy_addr demo_env 3
          (hd_addr (request demo_env 0x100 ?s) + d) ?s
        in phy \<noteq> 0 \<and> is_pte_can_read demo_env pte ?s \<and>
          \<not> phy + next_piece phy 4 d \<le> phy_total demo_env ?s"
        unfolding demo_uncopied_header
        using demo_uncopied_walk [OF va] d
        by (auto simp: is_pte_can_read_def phy_total_def next_piece_def size_inside_page_def
            PAGE_SIZE_def Let_def word_le_nat_alt split: prod.splits)
    qed
  qed simp
  then show ?thesis by simp
qed

end
