(* ===== verification/Rw_Bp.thy ===== *)
theory Rw_Bp
  imports Kernel_Env
begin

text \<open>
  Hardware breakpoints (\<^verbatim>\<open>rwMem/bp.c\<close>, \<^verbatim>\<open>rwMem/bp.h\<close>). A breakpoint is a file whose private
  data holds the perf event, the target task and the flags that stop and resume it. The
  target's part is the perf callback, the task work it queues (which blocks in the middle, so
  it is two definitions) and the single-step hook; the client's part is the file's
  operations. A definition returns \<open>None\<close> where the code dereferences freed or missing
  private data. The handlers are composed into a labelled step relation, each handler atomic,
  with \<open>release\<close> in two steps because it wakes the target before it frees the data.
\<close>

section \<open>Data\<close>

type_synonym u128 = "128 word"

record rwmem_bp_private_data =
  event :: "nat option"
  target_task :: "nat option"
  poll :: u32
  fasync :: "int list"
  continue_flag :: bool
  stopped_flag :: bool

record step_list_entry =
  se_pid :: u32
  se_file :: u64
  se_removed :: bool

text \<open>
  What the module touches of a task: \<open>user_regs\<close> (31 general registers, the stack pointer, the
  program counter and the processor state), the floating-point state, the single-step
  flags, the queued task works (by the file each carries) and the wait queue it sleeps on.
  \<open>bp_live\<close> are the tasks that exist; a breakpoint file holds a reference on its target.
\<close>

record user_task =
  t_pid :: u32
  t_regs :: "u64 list"
  t_vregs :: "u128 list"
  t_fpsr :: u32
  t_fpcr :: u32
  t_singlestep :: bool
  t_suspended_step :: u32
  t_work :: "u64 list"
  t_wait :: "u64 option"

record bpw =
  bk :: kst
  bp_files :: "u64 \<Rightarrow> rwmem_bp_private_data option"
  bp_open :: "u64 set"
  bp_live :: "nat set"
  bp_tasks :: "nat \<Rightarrow> user_task"
  step_list :: "step_list_entry list"
  bp_events :: "nat \<Rightarrow> (nat \<times> u64) option"
  sigio :: "u64 list"
  task_refs :: "nat \<Rightarrow> int"

text \<open>Parameters: the kernel, the size of its \<open>pt_regs\<close>, and \<open>fasync_helper\<close>.\<close>

record bpenv =
  b_k :: kenv
  sizeof_pt_regs :: nat
  fasync_helper :: "int \<Rightarrow> bool \<Rightarrow> int list \<Rightarrow> int \<times> int list"

definition EPOLLIN :: u32 where "EPOLLIN = 1"
definition DBG_HOOK_HANDLED :: int where "DBG_HOOK_HANDLED = 0"
definition DBG_HOOK_ERROR :: int where "DBG_HOOK_ERROR = 1"

definition RWMEM_BP_MAJOR_NUM :: u32 where "RWMEM_BP_MAJOR_NUM = 101"
definition IOCTL_BP_CONTINUE :: u32 where "IOCTL_BP_CONTINUE = IOC_IO RWMEM_BP_MAJOR_NUM 0"
definition IOCTL_BP_SET_REG :: u32 where "IOCTL_BP_SET_REG = IOW RWMEM_BP_MAJOR_NUM 1 16"
definition IOCTL_BP_SET_SIMD_REG :: u32 where
  "IOCTL_BP_SET_SIMD_REG = IOW RWMEM_BP_MAJOR_NUM 2 32"
definition IOCTL_BP_STEP :: u32 where "IOCTL_BP_STEP = IOC_IO RWMEM_BP_MAJOR_NUM 3"
definition IOCTL_BP_IS_STOPPED :: u32 where "IOCTL_BP_IS_STOPPED = IOC_IO RWMEM_BP_MAJOR_NUM 4"

section \<open>State updates\<close>

definition set_data :: "u64 \<Rightarrow> rwmem_bp_private_data \<Rightarrow> bpw \<Rightarrow> bpw" where
  "set_data f d w = w\<lparr>bp_files := (bp_files w)(f := Some d)\<rparr>"

definition set_task :: "nat \<Rightarrow> user_task \<Rightarrow> bpw \<Rightarrow> bpw" where
  "set_task t u w = w\<lparr>bp_tasks := (bp_tasks w)(t := u)\<rparr>"

section \<open>The target's side\<close>

text \<open>The file in the perf event's context: \<open>rwmem_ioctl\<close> replaces the top byte, the callback
  restores it.\<close>

definition tag_file :: "u64 \<Rightarrow> u64" where
  "tag_file file = file AND NOT (push_bit 56 (NOT 0xcb))"

definition untag_file :: "u64 \<Rightarrow> u64" where
  "untag_file ctx = ctx OR push_bit 56 0xff"

definition queue_work :: "bpenv \<Rightarrow> nat \<Rightarrow> u64 \<Rightarrow> bpw \<Rightarrow> bpw option" where
  "queue_work E t file w =
     (if kmalloc_ok (b_k E) 24 then
        (let u = bp_tasks w t in Some (set_task t (u\<lparr>t_work := t_work u @ [file]\<rparr>) w))
      else None)"

definition bp_callback :: "bpenv \<Rightarrow> nat \<Rightarrow> u64 \<Rightarrow> bpw \<Rightarrow> bpw option" where
  "bp_callback E current overflow_handler_context w =
     queue_work E current (untag_file overflow_handler_context) w"

text \<open>\<open>bp_callback_after\<close> up to and including the start of \<open>wait_event\<close>, and from its end.\<close>

definition bp_after_enter :: "nat \<Rightarrow> u64 \<Rightarrow> bpw \<Rightarrow> bpw option" where
  "bp_after_enter current file w =
     (case bp_files w file of
        None \<Rightarrow> None
      | Some d \<Rightarrow>
          (let u = bp_tasks w current;
               w1 = set_data file (d\<lparr>stopped_flag := True\<rparr>) w;
               w2 = (if fasync d = [] then w1 else w1\<lparr>sigio := sigio w1 @ [file]\<rparr>);
               w3 = set_data file (d\<lparr>stopped_flag := True, poll := EPOLLIN\<rparr>) w2
           in Some (set_task current (u\<lparr>t_work := remove1 file (t_work u), t_wait := Some file\<rparr>) w3)))"

definition bp_after_leave :: "nat \<Rightarrow> u64 \<Rightarrow> bpw \<Rightarrow> bpw option" where
  "bp_after_leave current file w =
     (case bp_files w file of
        None \<Rightarrow> None
      | Some d \<Rightarrow>
          if continue_flag d then
            (let d' = d\<lparr>poll := 0, continue_flag := False, stopped_flag := False\<rparr>;
                 u = bp_tasks w current
             in Some (set_task current (u\<lparr>t_wait := None\<rparr>) (set_data file d' w)))
          else Some w)"

text \<open>The first entry of the step list for a pid, and the list without it.\<close>

fun find_step :: "u32 \<Rightarrow> step_list_entry list \<Rightarrow> (step_list_entry \<times> step_list_entry list) option" where
  "find_step pid [] = None"
| "find_step pid (e # es) =
     (if se_pid e = pid then Some (e, es)
      else (case find_step pid es of None \<Rightarrow> None | Some (x, r) \<Rightarrow> Some (x, e # r)))"

definition rwmem_bp_step_handler :: "bpenv \<Rightarrow> nat \<Rightarrow> bpw \<Rightarrow> (int \<times> bpw) option" where
  "rwmem_bp_step_handler E current w =
     (case find_step (t_pid (bp_tasks w current)) (step_list w) of
        None \<Rightarrow> Some (DBG_HOOK_ERROR, w)
      | Some (entry, rest) \<Rightarrow>
          (let w1 = w\<lparr>step_list := rest\<rparr> in
           if se_removed entry then Some (DBG_HOOK_HANDLED, w1)
           else if se_file entry = 0 then Some (DBG_HOOK_ERROR, w1)
           else (case queue_work E current (se_file entry) w1 of
                   None \<Rightarrow> None
                 | Some w2 \<Rightarrow>
                     Some (DBG_HOOK_HANDLED,
                       set_task current ((bp_tasks w2 current)\<lparr>t_singlestep := False\<rparr>) w2))))"

section \<open>The client's side\<close>

definition rwmem_bp_fasync :: "bpenv \<Rightarrow> int \<Rightarrow> u64 \<Rightarrow> bool \<Rightarrow> bpw \<Rightarrow> (int \<times> bpw) option" where
  "rwmem_bp_fasync E fd filp on w =
     (case bp_files w filp of
        None \<Rightarrow> None
      | Some d \<Rightarrow>
          (case fasync_helper E fd on (fasync d) of
             (retval, fa) \<Rightarrow>
               let w' = set_data filp (d\<lparr>fasync := fa\<rparr>) w in
               if retval < 0 then Some (retval, w') else Some (0, w')))"

definition rwmem_bp_poll :: "u64 \<Rightarrow> bpw \<Rightarrow> (u32 \<times> bpw) option" where
  "rwmem_bp_poll file w =
     (case bp_files w file of
        None \<Rightarrow> None
      | Some d \<Rightarrow> Some (poll d, set_data file (d\<lparr>poll := 0\<rparr>) w))"

fun mark_removed :: "u64 \<Rightarrow> step_list_entry list \<Rightarrow> step_list_entry list" where
  "mark_removed filp [] = []"
| "mark_removed filp (e # es) =
     (if se_file e = filp then e\<lparr>se_removed := True\<rparr> # es else e # mark_removed filp es)"

text \<open>\<open>rwmem_bp_release\<close> up to the wake-up of the target, and the rest.\<close>

definition bp_release_wake :: "u64 \<Rightarrow> bpw \<Rightarrow> bpw option" where
  "bp_release_wake filp w =
     (case bp_files w filp of
        None \<Rightarrow> None
      | Some d \<Rightarrow>
          Some ((set_data filp (d\<lparr>continue_flag := True\<rparr>) w)\<lparr>bp_open := bp_open w - {filp}\<rparr>))"

definition bp_release_free :: "u64 \<Rightarrow> bpw \<Rightarrow> (int \<times> bpw) option" where
  "bp_release_free filp w =
     (case bp_files w filp of
        None \<Rightarrow> None
      | Some d \<Rightarrow>
          (let w1 = w\<lparr>step_list := mark_removed filp (step_list w)\<rparr>;
               w2 = (case event d of
                       Some e \<Rightarrow> w1\<lparr>bp_events := (bp_events w1)(e := None)\<rparr>
                     | None \<Rightarrow> w1);
               w3 = (case target_task d of
                       Some t \<Rightarrow> w2\<lparr>task_refs := (task_refs w2)(t := task_refs w2 t - 1)\<rparr>
                     | None \<Rightarrow> w2)
           in Some (0, w3\<lparr>bp_files := (bp_files w3)(filp := None)\<rparr>)))"

definition rwmem_bp_release :: "u64 \<Rightarrow> bpw \<Rightarrow> (int \<times> bpw) option" where
  "rwmem_bp_release filp w =
     (case bp_release_wake filp w of None \<Rightarrow> None | Some w1 \<Rightarrow> bp_release_free filp w1)"

text \<open>The bytes of \<open>user_regs\<close> (34 words) and of \<open>user_fpsimd_state\<close> (32 vector registers, two
  control words and two reserved words).\<close>

definition user_regs_bytes :: "user_task \<Rightarrow> byte list" where
  "user_regs_bytes u = concat (map u64_bytes (t_regs u))"

definition fpsimd_bytes :: "user_task \<Rightarrow> byte list" where
  "fpsimd_bytes u =
     concat (map (\<lambda>v. le_bytes 16 (unat v)) (t_vregs u)) @ u32_bytes (t_fpsr u) @
     u32_bytes (t_fpcr u) @ replicate 8 0"

definition copy_out :: "bpenv \<Rightarrow> u64 \<Rightarrow> byte list \<Rightarrow> bpw \<Rightarrow> bool \<times> bpw" where
  "copy_out E buf bs w =
     (case copy_to_user (b_k E) buf bs (bk w) of (left, k) \<Rightarrow> (left = 0, w\<lparr>bk := k\<rparr>))"

definition rwmem_bp_read :: "bpenv \<Rightarrow> u64 \<Rightarrow> u64 \<Rightarrow> u64 \<Rightarrow> bpw \<Rightarrow> (int \<times> bpw) option" where
  "rwmem_bp_read E filp buf sz w =
     (case bp_files w filp of
        None \<Rightarrow> None
      | Some data \<Rightarrow>
          if \<not> stopped_flag data then Some (- EINVAL, w)
          else (case target_task data of
            None \<Rightarrow> None
          | Some t \<Rightarrow>
              (let u = bp_tasks w t in
               if 272 + 528 \<le> sz then
                 (case copy_out E buf (user_regs_bytes u) w of (ok, w1) \<Rightarrow>
                  if \<not> ok then Some (- EFAULT, w1)
                  else (case copy_out E (buf + 272) (fpsimd_bytes u) w1 of (ok, w2) \<Rightarrow>
                        if \<not> ok then Some (- EFAULT, w2)
                        else Some (int (sizeof_pt_regs E) + 528, w2)))
               else if 272 \<le> sz then
                 (case copy_out E buf (user_regs_bytes u) w of (ok, w1) \<Rightarrow>
                  if \<not> ok then Some (- EFAULT, w1)
                  else Some (int (sizeof_pt_regs E), w1))
               else Some (- EINVAL, w))))"

text \<open>The commands of \<open>rwmem_bp_ioctl\<close>, one definition per \<open>case\<close>.\<close>

definition bp_continue :: "u64 \<Rightarrow> bpw \<Rightarrow> (int \<times> bpw) option" where
  "bp_continue filp w =
     (case bp_files w filp of
        None \<Rightarrow> None
      | Some data \<Rightarrow>
          if \<not> stopped_flag data then Some (- EINVAL, w)
          else Some (0, set_data filp (data\<lparr>continue_flag := True\<rparr>) w))"

definition bp_set_reg :: "bpenv \<Rightarrow> u64 \<Rightarrow> u64 \<Rightarrow> bpw \<Rightarrow> (int \<times> bpw) option" where
  "bp_set_reg E filp arg w =
     (case bp_files w filp of
        None \<Rightarrow> None
      | Some data \<Rightarrow>
          if \<not> stopped_flag data then Some (- EINVAL, w)
          else (case copy_from_user (b_k E) arg 16 (bk w) of (left, param) \<Rightarrow>
            if left \<noteq> 0 then Some (- EFAULT, w)
            else let pid = u64_of (get_bytes 0 8 param);
                     val = u64_of (get_bytes 8 8 param)
              in if pid \<ge> 34 then Some (- EINVAL, w)
              else (case target_task data of
                      None \<Rightarrow> None
                    | Some t \<Rightarrow>
                        (let u = bp_tasks w t
                         in Some (0, set_task t (u\<lparr>t_regs := (t_regs u)[unat pid := val]\<rparr>) w)))))"

definition bp_set_simd_reg :: "bpenv \<Rightarrow> u64 \<Rightarrow> u64 \<Rightarrow> bpw \<Rightarrow> (int \<times> bpw) option" where
  "bp_set_simd_reg E filp arg w =
     (case bp_files w filp of
        None \<Rightarrow> None
      | Some data \<Rightarrow>
          if \<not> stopped_flag data then Some (- EINVAL, w)
          else (case copy_from_user (b_k E) arg 32 (bk w) of (left, param) \<Rightarrow>
            if left \<noteq> 0 then Some (- EFAULT, w)
            else let pid = u64_of (get_bytes 0 8 param);
                     val = word_of_nat (le_nat (get_bytes 16 16 param)) :: u128
              in (case target_task data of
                    None \<Rightarrow> None
                  | Some t \<Rightarrow>
                      (let u = bp_tasks w t in
                       if pid < 32 then
                         Some (0, set_task t (u\<lparr>t_vregs := (t_vregs u)[unat pid := val]\<rparr>) w)
                       else if pid = 32 then Some (0, set_task t (u\<lparr>t_fpsr := ucast val\<rparr>) w)
                       else if pid = 33 then Some (0, set_task t (u\<lparr>t_fpcr := ucast val\<rparr>) w)
                       else Some (- EINVAL, w)))))"

definition bp_step_cmd :: "bpenv \<Rightarrow> u64 \<Rightarrow> bpw \<Rightarrow> (int \<times> bpw) option" where
  "bp_step_cmd E filp w =
     (case bp_files w filp of
        None \<Rightarrow> None
      | Some data \<Rightarrow>
          if \<not> stopped_flag data then Some (- EINVAL, w)
          else if \<not> kmalloc_ok (b_k E) 32 then None
          else (case target_task data of
            None \<Rightarrow> None
          | Some t \<Rightarrow>
              (let u = bp_tasks w t;
                   entry = \<lparr>se_pid = t_pid u, se_file = filp, se_removed = False\<rparr>;
                   w1 = w\<lparr>step_list := entry # step_list w\<rparr>;
                   u1 = (if t_singlestep u then u\<lparr>t_suspended_step := 1\<rparr>
                         else u\<lparr>t_singlestep := True\<rparr>);
                   w2 = set_task t u1 w1
               in Some (0, set_data filp (data\<lparr>continue_flag := True\<rparr>) w2))))"

definition bp_is_stopped :: "u64 \<Rightarrow> bpw \<Rightarrow> (int \<times> bpw) option" where
  "bp_is_stopped filp w =
     (case bp_files w filp of
        None \<Rightarrow> None
      | Some data \<Rightarrow> Some (if stopped_flag data then 1 else 0, w))"

definition rwmem_bp_ioctl :: "bpenv \<Rightarrow> u64 \<Rightarrow> u32 \<Rightarrow> u64 \<Rightarrow> bpw \<Rightarrow> (int \<times> bpw) option" where
  "rwmem_bp_ioctl E filp cmd arg w =
     (if cmd = IOCTL_BP_CONTINUE then bp_continue filp w
      else if cmd = IOCTL_BP_SET_REG then bp_set_reg E filp arg w
      else if cmd = IOCTL_BP_SET_SIMD_REG then bp_set_simd_reg E filp arg w
      else if cmd = IOCTL_BP_STEP then bp_step_cmd E filp w
      else if cmd = IOCTL_BP_IS_STOPPED then bp_is_stopped filp w
      else Some (- EINVAL, w))"

text \<open>The new file's private data; \<open>anon_inode_getfile\<close> is the kernel's.\<close>

definition create_rwmem_bp_file :: "u64 \<Rightarrow> bpw \<Rightarrow> bpw" where
  "create_rwmem_bp_file filp w =
     (set_data filp \<lparr>event = None, target_task = None, poll = 0, fasync = [],
        continue_flag = False, stopped_flag = False\<rparr> w)\<lparr>bp_open := bp_open w \<union> {filp}\<rparr>"

lemmas bp_target_defs = queue_work_def bp_callback_def bp_after_enter_def bp_after_leave_def
  rwmem_bp_step_handler_def
lemmas bp_ioctl_defs = bp_continue_def bp_set_reg_def bp_set_simd_reg_def bp_step_cmd_def
  bp_is_stopped_def
lemmas bp_file_defs = rwmem_bp_fasync_def rwmem_bp_poll_def rwmem_bp_read_def bp_ioctl_defs
  bp_release_wake_def bp_release_free_def

lemma bp_cmds_distinct [simp]:
  "IOCTL_BP_SET_REG \<noteq> IOCTL_BP_CONTINUE" "IOCTL_BP_SET_SIMD_REG \<noteq> IOCTL_BP_CONTINUE"
  "IOCTL_BP_SET_SIMD_REG \<noteq> IOCTL_BP_SET_REG" "IOCTL_BP_STEP \<noteq> IOCTL_BP_CONTINUE"
  "IOCTL_BP_STEP \<noteq> IOCTL_BP_SET_REG" "IOCTL_BP_STEP \<noteq> IOCTL_BP_SET_SIMD_REG"
  "IOCTL_BP_IS_STOPPED \<noteq> IOCTL_BP_CONTINUE" "IOCTL_BP_IS_STOPPED \<noteq> IOCTL_BP_SET_REG"
  "IOCTL_BP_IS_STOPPED \<noteq> IOCTL_BP_SET_SIMD_REG" "IOCTL_BP_IS_STOPPED \<noteq> IOCTL_BP_STEP"
  by (simp_all add: IOCTL_BP_CONTINUE_def IOCTL_BP_SET_REG_def IOCTL_BP_SET_SIMD_REG_def
      IOCTL_BP_STEP_def IOCTL_BP_IS_STOPPED_def RWMEM_BP_MAJOR_NUM_def ioc_defs push_bit_eq_mult)

section \<open>The tag of the event's context\<close>

lemma untag_tag: "untag_file (tag_file f) = f OR push_bit 56 0xff"
proof -
  have m: "NOT (push_bit 56 (NOT 0xcb)) OR push_bit 56 0xff = (- 1 :: u64)"
    by (simp add: push_bit_eq_mult)
  have "untag_file (tag_file f) =
      (f OR push_bit 56 0xff) AND (NOT (push_bit 56 (NOT 0xcb)) OR push_bit 56 0xff)"
    by (simp only: untag_file_def tag_file_def or.commute [of _ "push_bit 56 0xff"]
        bit.disj_conj_distrib)
  then show ?thesis by (simp only: m) simp
qed

lemma top_byte_ones: "f OR push_bit 56 0xff = f \<longleftrightarrow> drop_bit 56 (f :: u64) = 0xff"
proof -
  have ff: "(0xff :: u64) = mask 8" by (simp add: mask_eq_exp_minus_1)
  have "f OR push_bit 56 0xff = f \<longleftrightarrow> (\<forall>n < 8. bit f (56 + n))"
  proof
    assume e: "f OR push_bit 56 0xff = f"
    show "\<forall>n < 8. bit f (56 + n)"
    proof (intro allI impI)
      fix n :: nat assume "n < 8"
      then have "bit (f OR push_bit 56 0xff) (56 + n)" by (simp add: ff bit_simps)
      then show "bit f (56 + n)" by (simp only: e)
    qed
  next
    assume a: "\<forall>n < 8. bit f (56 + n)"
    show "f OR push_bit 56 0xff = f"
    proof (rule bit_word_eqI)
      fix n assume "n < LENGTH(64)"
      with a [rule_format, of "n - 56"] show "bit (f OR push_bit 56 0xff) n = bit f n"
        by (auto simp: ff bit_simps)
    qed
  qed
  also have "\<dots> \<longleftrightarrow> drop_bit 56 f = 0xff"
  proof
    assume a: "\<forall>n < 8. bit f (56 + n)"
    show "drop_bit 56 f = 0xff"
      unfolding ff
    proof (rule bit_word_eqI)
      fix n assume "n < LENGTH(64)"
      with a [rule_format, of n] show "bit (drop_bit 56 f) n = bit (mask 8 :: u64) n"
        using bit_imp_le_length [of f "56 + n"] by (auto simp: bit_simps)
    qed
  next
    assume e: "drop_bit 56 f = 0xff"
    show "\<forall>n < 8. bit f (56 + n)"
    proof (intro allI impI)
      fix n :: nat assume "n < 8"
      then have "bit (mask 8 :: u64) n" by (simp add: bit_simps)
      then show "bit f (56 + n)" by (simp add: bit_drop_bit_eq flip: e ff)
    qed
  qed
  finally show ?thesis .
qed

text \<open>The tag that \<open>rwmem_ioctl\<close> puts into the perf event's context is undone by the callback
  exactly for pointers whose top byte is 0xff.\<close>

theorem bp_context_roundtrip: "untag_file (tag_file f) = f \<longleftrightarrow> drop_bit 56 f = 0xff"
  using top_byte_ones [of f] by (simp only: untag_tag)

section \<open>The handlers composed\<close>

text \<open>
  \<open>Hit\<close> and \<open>Trap\<close> are exceptions of a running task, \<open>Enter\<close> and \<open>Leave\<close> the two parts of a
  task work, \<open>Run\<close> anything the target does to its own registers while it runs; the others
  are system calls of a client on an open file, \<open>Free\<close> the end of the release.
\<close>

datatype bp_act = Create u64 nat nat | Hit nat | Trap nat | Enter nat u64 | Leave nat u64
  | Run nat "u64 list" | PollF u64 | FasyncF u64 int bool | ReadF u64 u64 u64
  | IoctlF u64 u32 u64 | Close u64 | Free u64

text \<open>What \<open>rwmem_ioctl\<close> does for a new breakpoint once the kernel has made the file and the
  event: the file is not yet in use anywhere, and neither is the event.\<close>

definition fresh_file :: "u64 \<Rightarrow> bpw \<Rightarrow> bool" where
  "fresh_file f w \<longleftrightarrow> f \<noteq> 0 \<and> drop_bit 56 f = 0xff \<and> bp_files w f = None \<and>
     (\<forall>e \<in> set (step_list w). se_file e \<noteq> f) \<and>
     (\<forall>t. f \<notin> set (t_work (bp_tasks w t)) \<and> t_wait (bp_tasks w t) \<noteq> Some f)"

definition attach_bp :: "u64 \<Rightarrow> nat \<Rightarrow> nat \<Rightarrow> bpw \<Rightarrow> bpw" where
  "attach_bp f bp task w =
     (let w1 = w\<lparr>bp_events := (bp_events w)(bp := Some (task, tag_file f)),
                 task_refs := (task_refs w)(task := task_refs w task + 1)\<rparr>
      in w1\<lparr>bp_files := (bp_files w1)(f := map_option (\<lambda>d. d\<lparr>event := Some bp,
                 target_task := Some task\<rparr>) (bp_files w1 f))\<rparr>)"

inductive bp_step :: "bpenv \<Rightarrow> bp_act \<Rightarrow> bpw \<Rightarrow> bpw \<Rightarrow> bool" for E where
  Create: "fresh_file f w \<Longrightarrow> bp_events w e = None \<Longrightarrow> t \<in> bp_live w \<Longrightarrow>
    bp_step E (Create f e t) w (attach_bp f e t (create_rwmem_bp_file f w))"
| Hit: "bp_events w e = Some (t, ctx) \<Longrightarrow> t_wait (bp_tasks w t) = None \<Longrightarrow>
    bp_callback E t ctx w = Some w' \<Longrightarrow> bp_step E (Hit e) w w'"
| Trap: "t \<in> bp_live w \<Longrightarrow> t_wait (bp_tasks w t) = None \<Longrightarrow> t_singlestep (bp_tasks w t) \<Longrightarrow>
    rwmem_bp_step_handler E t w = Some (r, w') \<Longrightarrow> bp_step E (Trap t) w w'"
| Enter: "t_wait (bp_tasks w t) = None \<Longrightarrow> f \<in> set (t_work (bp_tasks w t)) \<Longrightarrow>
    bp_after_enter t f w = Some w' \<Longrightarrow> bp_step E (Enter t f) w w'"
| Leave: "t_wait (bp_tasks w t) = Some f \<Longrightarrow> bp_after_leave t f w = Some w' \<Longrightarrow>
    bp_step E (Leave t f) w w'"
| Run: "t_wait (bp_tasks w t) = None \<Longrightarrow> t_work (bp_tasks w t) = [] \<Longrightarrow> length regs = 34 \<Longrightarrow>
    bp_step E (Run t regs) w (set_task t ((bp_tasks w t)\<lparr>t_regs := regs\<rparr>) w)"
| PollF: "f \<in> bp_open w \<Longrightarrow> rwmem_bp_poll f w = Some (r, w') \<Longrightarrow> bp_step E (PollF f) w w'"
| FasyncF: "f \<in> bp_open w \<Longrightarrow> rwmem_bp_fasync E fd f on w = Some (r, w') \<Longrightarrow>
    bp_step E (FasyncF f fd on) w w'"
| ReadF: "f \<in> bp_open w \<Longrightarrow> rwmem_bp_read E f buf sz w = Some (r, w') \<Longrightarrow>
    bp_step E (ReadF f buf sz) w w'"
| IoctlF: "f \<in> bp_open w \<Longrightarrow> rwmem_bp_ioctl E f cmd arg w = Some (r, w') \<Longrightarrow>
    bp_step E (IoctlF f cmd arg) w w'"
| Close: "f \<in> bp_open w \<Longrightarrow> bp_release_wake f w = Some w' \<Longrightarrow> bp_step E (Close f) w w'"
| Free: "f \<notin> bp_open w \<Longrightarrow> bp_release_free f w = Some (r, w') \<Longrightarrow> bp_step E (Free f) w w'"

inductive_cases bp_stepE [elim]: "bp_step E a w w'"

text \<open>Before the first breakpoint: no files, events or step entries, and no task waits. The pids
  of existing tasks are distinct.\<close>

definition bp_init :: "bpw \<Rightarrow> bool" where
  "bp_init w \<longleftrightarrow> bp_files w = (\<lambda>_. None) \<and> bp_open w = {} \<and> step_list w = [] \<and>
     bp_events w = (\<lambda>_. None) \<and> inj_on (\<lambda>t. t_pid (bp_tasks w t)) (bp_live w) \<and>
     (\<forall>t. t_work (bp_tasks w t) = [] \<and> t_wait (bp_tasks w t) = None \<and>
        length (t_regs (bp_tasks w t)) = 34 \<and> length (t_vregs (bp_tasks w t)) = 32)"

inductive bp_reach :: "bpenv \<Rightarrow> bpw \<Rightarrow> bool" for E where
  init: "bp_init w \<Longrightarrow> bp_reach E w"
| step: "bp_reach E w \<Longrightarrow> bp_step E a w w' \<Longrightarrow> bp_reach E w'"

text \<open>
  The invariant. A live file's target is the only task that ever waits on it, and it waits
  exactly while the file says it is stopped; while the file is open it is told to continue
  only when it is stopped. Works, step entries and events that name a live file belong to
  its target.
\<close>

definition waits_match :: "bpw \<Rightarrow> bool" where
  "waits_match w \<longleftrightarrow> (\<forall>f d t. bp_files w f = Some d \<longrightarrow>
     (t_wait (bp_tasks w t) = Some f \<longleftrightarrow> stopped_flag d \<and> target_task d = Some t))"

definition files_ok :: "bpw \<Rightarrow> bool" where
  "files_ok w \<longleftrightarrow> (\<forall>f d. bp_files w f = Some d \<longrightarrow>
     drop_bit 56 f = 0xff \<and> (\<exists>t \<in> bp_live w. target_task d = Some t) \<and> event d \<noteq> None \<and>
     (f \<in> bp_open w \<longrightarrow> continue_flag d \<longrightarrow> stopped_flag d)) \<and>
     (\<forall>f \<in> bp_open w. bp_files w f \<noteq> None)"

definition works_ok :: "bpw \<Rightarrow> bool" where
  "works_ok w \<longleftrightarrow> (\<forall>f d t. bp_files w f = Some d \<longrightarrow> f \<in> set (t_work (bp_tasks w t)) \<longrightarrow>
     target_task d = Some t)"

definition steps_ok :: "bpw \<Rightarrow> bool" where
  "steps_ok w \<longleftrightarrow> inj_on (\<lambda>t. t_pid (bp_tasks w t)) (bp_live w) \<and>
     (\<forall>e \<in> set (step_list w). \<forall>d. bp_files w (se_file e) = Some d \<longrightarrow>
        (\<exists>t. target_task d = Some t \<and> se_pid e = t_pid (bp_tasks w t)))"

definition events_ok :: "bpw \<Rightarrow> bool" where
  "events_ok w \<longleftrightarrow> (\<forall>e t ctx. bp_events w e = Some (t, ctx) \<longrightarrow>
     (\<exists>f d. ctx = tag_file f \<and> bp_files w f = Some d \<and> target_task d = Some t \<and>
        event d = Some e))"

definition regs_ok :: "bpw \<Rightarrow> bool" where
  "regs_ok w \<longleftrightarrow> (\<forall>t. length (t_regs (bp_tasks w t)) = 34 \<and> length (t_vregs (bp_tasks w t)) = 32)"

definition bp_inv :: "bpw \<Rightarrow> bool" where
  "bp_inv w \<longleftrightarrow> waits_match w \<and> files_ok w \<and> works_ok w \<and> steps_ok w \<and> events_ok w \<and> regs_ok w"

lemmas bp_inv_defs = bp_inv_def waits_match_def files_ok_def works_ok_def steps_ok_def
  events_ok_def regs_ok_def

text \<open>Updates that keep the invariant: of the parts it does not mention, of a file's data
  that keep its target and its stopped flag, and of a task that keep its pid, its works and
  its wait.\<close>

lemma bp_inv_irrelevant [simp]:
  "bp_inv (w\<lparr>bk := k\<rparr>) = bp_inv w"
  "bp_inv (w\<lparr>sigio := l\<rparr>) = bp_inv w"
  "bp_inv (w\<lparr>task_refs := r\<rparr>) = bp_inv w"
  by (simp_all add: bp_inv_defs)

lemma bp_inv_set_data:
  assumes "bp_inv w" "bp_files w f = Some d"
    and "target_task d' = target_task d" "event d' = event d" "stopped_flag d' = stopped_flag d"
    and "f \<in> bp_open w \<longrightarrow> continue_flag d' \<longrightarrow> stopped_flag d"
  shows "bp_inv (set_data f d' w)"
proof -
  from assms(1) have i: "waits_match w" "files_ok w" "works_ok w" "steps_ok w" "events_ok w"
    "regs_ok w" by (simp_all add: bp_inv_def)
  have "waits_match (set_data f d' w)" using i(1) assms(2-5)
    by (simp add: waits_match_def set_data_def)
  moreover have "files_ok (set_data f d' w)" using i(2) assms(2-6)
    by (simp add: files_ok_def set_data_def)
  moreover have "works_ok (set_data f d' w)" using i(3) assms(2-5)
    by (simp add: works_ok_def set_data_def)
  moreover have "steps_ok (set_data f d' w)" using i(4) assms(2-5)
    by (simp add: steps_ok_def set_data_def)
  moreover have "events_ok (set_data f d' w)" using i(5) assms(2-5)
    by (fastforce simp: events_ok_def set_data_def)
  moreover have "regs_ok (set_data f d' w)" using i(6) by (simp add: regs_ok_def set_data_def)
  ultimately show ?thesis by (simp add: bp_inv_def)
qed

lemma bp_inv_set_task:
  assumes "bp_inv w"
    and "t_pid u = t_pid (bp_tasks w t)" "t_work u = t_work (bp_tasks w t)"
    and "t_wait u = t_wait (bp_tasks w t)" "length (t_regs u) = 34" "length (t_vregs u) = 32"
  shows "bp_inv (set_task t u w)"
proof -
  have e: "inj_on (\<lambda>x. t_pid (if x = t then u else bp_tasks w x)) = inj_on (\<lambda>x. t_pid (bp_tasks w x))"
    using assms(2) by (intro arg_cong [of _ _ inj_on]) auto
  have e': "t_pid (if x = t then u else bp_tasks w x) = t_pid (bp_tasks w x)"
    "t_work (if x = t then u else bp_tasks w x) = t_work (bp_tasks w x)"
    "t_wait (if x = t then u else bp_tasks w x) = t_wait (bp_tasks w x)" for x
    using assms(2-4) by auto
  show ?thesis using assms(1,5,6) unfolding bp_inv_defs set_task_def by (simp add: e' e)
qed

lemma bp_inv_steps:
  assumes "bp_inv w"
    and "\<forall>e \<in> set l. \<forall>d. bp_files w (se_file e) = Some d \<longrightarrow>
        (\<exists>t. target_task d = Some t \<and> se_pid e = t_pid (bp_tasks w t))"
  shows "bp_inv (w\<lparr>step_list := l\<rparr>)"
  using assms by (simp add: bp_inv_defs)

lemma bp_inv_work:
  assumes "bp_inv w" "\<forall>d. bp_files w f = Some d \<longrightarrow> target_task d = Some t"
  shows "bp_inv (set_task t ((bp_tasks w t)\<lparr>t_work := t_work (bp_tasks w t) @ [f]\<rparr>) w)"
proof -
  have e: "t_pid (if x = t then (bp_tasks w t)\<lparr>t_work := v\<rparr> else bp_tasks w x) = t_pid (bp_tasks w x)"
    "t_wait (if x = t then (bp_tasks w t)\<lparr>t_work := v\<rparr> else bp_tasks w x) = t_wait (bp_tasks w x)"
    "t_regs (if x = t then (bp_tasks w t)\<lparr>t_work := v\<rparr> else bp_tasks w x) = t_regs (bp_tasks w x)"
    "t_vregs (if x = t then (bp_tasks w t)\<lparr>t_work := v\<rparr> else bp_tasks w x) = t_vregs (bp_tasks w x)"
    for v x by auto
  show ?thesis using assms unfolding bp_inv_defs set_task_def by (simp add: e)
qed

lemma find_step_subset:
  "find_step pid l = Some (e, r) \<Longrightarrow> e \<in> set l \<and> se_pid e = pid \<and> set r \<subseteq> set l"
  by (induction pid l arbitrary: e r rule: find_step.induct) (auto split: if_splits option.splits)

lemma mark_removed_mem:
  "e \<in> set (mark_removed f l) \<Longrightarrow> \<exists>e' \<in> set l. se_file e = se_file e' \<and> se_pid e = se_pid e'"
  by (induction f l rule: mark_removed.induct) (auto split: if_splits)

lemma waits_match_upd:
  assumes m: "waits_match w" and "target_task d = Some t" "bp_files w f = Some d"
    and "target_task d' = Some t" "stopped_flag d' \<longleftrightarrow> t_wait u = Some f"
    and "t_wait u = None \<or> t_wait u = Some f"
    and "t_wait (bp_tasks w t) = None \<or> t_wait (bp_tasks w t) = Some f"
  shows "waits_match (set_task t u (set_data f d' w))"
  unfolding waits_match_def
proof (intro allI impI)
  fix g c x
  assume g: "bp_files (set_task t u (set_data f d' w)) g = Some c"
  show "(t_wait (bp_tasks (set_task t u (set_data f d' w)) x) = Some g) =
      (stopped_flag c \<and> target_task c = Some x)"
  proof (cases "g = f")
    case True
    with g have "c = d'" by (simp add: set_task_def set_data_def)
    moreover have "x \<noteq> t \<Longrightarrow> t_wait (bp_tasks w x) \<noteq> Some f"
      using m assms(2,3) by (auto simp: waits_match_def)
    ultimately show ?thesis using True assms by (auto simp: set_task_def set_data_def)
  next
    case False
    with g have "bp_files w g = Some c" by (simp add: set_task_def set_data_def)
    with m have "(t_wait (bp_tasks w x) = Some g) = (stopped_flag c \<and> target_task c = Some x)"
      by (simp add: waits_match_def)
    with False assms(6,7) show ?thesis by (auto simp: set_task_def set_data_def)
  qed
qed

lemma events_ok_upd:
  assumes "events_ok w" "bp_files w f = Some d"
    and "target_task d' = target_task d" "event d' = event d"
  shows "events_ok (set_task t u (set_data f d' w))"
  using assms by (fastforce simp: events_ok_def set_data_def set_task_def)

lemma bp_inv_Enter:
  assumes inv: "bp_inv w" and "t_wait (bp_tasks w t) = None" "f \<in> set (t_work (bp_tasks w t))"
    and "bp_after_enter t f w = Some w'"
  shows "bp_inv w'"
proof -
  from assms(4) obtain d where d: "bp_files w f = Some d"
    by (auto simp: bp_after_enter_def split: option.splits)
  have tg: "target_task d = Some t" using inv d assms(3) by (simp add: bp_inv_defs)
  let ?u = "(bp_tasks w t)\<lparr>t_work := remove1 f (t_work (bp_tasks w t)), t_wait := Some f\<rparr>"
  let ?w = "set_task t ?u (set_data f (d\<lparr>stopped_flag := True, poll := EPOLLIN\<rparr>) w)"
  have w': "w' = ?w \<or> w' = ?w\<lparr>sigio := sigio w @ [f]\<rparr>"
    using assms(4) by (auto simp: bp_after_enter_def d Let_def set_data_def set_task_def split: if_splits)
  have e: "t_pid (if x = t then ?u else bp_tasks w x) = t_pid (bp_tasks w x)"
    "t_regs (if x = t then ?u else bp_tasks w x) = t_regs (bp_tasks w x)"
    "t_vregs (if x = t then ?u else bp_tasks w x) = t_vregs (bp_tasks w x)"
    "t_wait (if x = t then ?u else bp_tasks w x) = (if x = t then Some f else t_wait (bp_tasks w x))"
    "g \<in> set (t_work (if x = t then ?u else bp_tasks w x)) \<Longrightarrow> g \<in> set (t_work (bp_tasks w x))"
    for x g by (auto split: if_splits intro: set_remove1_subset [THEN subsetD])
  from inv have i: "waits_match w" "files_ok w" "works_ok w" "steps_ok w" "events_ok w" "regs_ok w"
    by (simp_all add: bp_inv_def)
  have "waits_match ?w"
    by (rule waits_match_upd [OF i(1) tg d]) (use tg assms(2) in auto)
  moreover have "files_ok ?w" using i(2) d by (simp add: files_ok_def set_data_def set_task_def)
  moreover have "works_ok ?w" unfolding works_ok_def
  proof (intro allI impI)
    fix g c x
    assume g: "bp_files ?w g = Some c" "g \<in> set (t_work (bp_tasks ?w x))"
    then have "g \<in> set (t_work (bp_tasks w x))" using e(5) by (simp add: set_task_def set_data_def)
    moreover have "\<exists>c'. bp_files w g = Some c' \<and> target_task c' = target_task c"
      using g(1) d by (auto simp: set_task_def set_data_def split: if_splits)
    ultimately show "target_task c = Some x" using i(3) unfolding works_ok_def by metis
  qed
  moreover have "steps_ok ?w" using i(4) d
    by (simp add: steps_ok_def set_data_def set_task_def e)
  moreover have "events_ok ?w" by (rule events_ok_upd [OF i(5) d]) auto
  moreover have "regs_ok ?w" using i(6) by (simp add: regs_ok_def set_data_def set_task_def e)
  ultimately have "bp_inv ?w" by (simp add: bp_inv_def)
  with w' show ?thesis by auto
qed

lemma bp_inv_Leave:
  assumes inv: "bp_inv w" and "t_wait (bp_tasks w t) = Some f" "bp_after_leave t f w = Some w'"
  shows "bp_inv w'"
proof -
  from assms(3) obtain d where d: "bp_files w f = Some d"
    by (auto simp: bp_after_leave_def split: option.splits)
  have tg: "target_task d = Some t" using inv d assms(2) by (simp add: bp_inv_defs)
  let ?u = "(bp_tasks w t)\<lparr>t_wait := None\<rparr>"
  let ?w = "set_task t ?u (set_data f (d\<lparr>poll := 0, continue_flag := False, stopped_flag := False\<rparr>) w)"
  have e: "t_pid (if x = t then ?u else bp_tasks w x) = t_pid (bp_tasks w x)"
    "t_regs (if x = t then ?u else bp_tasks w x) = t_regs (bp_tasks w x)"
    "t_vregs (if x = t then ?u else bp_tasks w x) = t_vregs (bp_tasks w x)"
    "t_wait (if x = t then ?u else bp_tasks w x) = (if x = t then None else t_wait (bp_tasks w x))"
    "t_work (if x = t then ?u else bp_tasks w x) = t_work (bp_tasks w x)"
    for x by auto
  from inv have i: "waits_match w" "files_ok w" "works_ok w" "steps_ok w" "events_ok w" "regs_ok w"
    by (simp_all add: bp_inv_def)
  have "waits_match ?w"
    by (rule waits_match_upd [OF i(1) tg d]) (use tg assms(2) in auto)
  moreover have "files_ok ?w" using i(2) d by (simp add: files_ok_def set_data_def set_task_def)
  moreover have "works_ok ?w" using i(3) d
    by (simp add: works_ok_def set_data_def set_task_def e)
  moreover have "steps_ok ?w" using i(4) d
    by (simp add: steps_ok_def set_data_def set_task_def e)
  moreover have "events_ok ?w" by (rule events_ok_upd [OF i(5) d]) auto
  moreover have "regs_ok ?w" using i(6) by (simp add: regs_ok_def set_data_def set_task_def e)
  ultimately have "bp_inv ?w" by (simp add: bp_inv_def)
  with inv assms(3) show ?thesis by (auto simp: bp_after_leave_def d Let_def split: if_splits)
qed

lemma bp_inv_Create:
  assumes inv: "bp_inv w" and fr: "fresh_file f w" "bp_events w e = None" "t \<in> bp_live w"
  shows "bp_inv (attach_bp f e t (create_rwmem_bp_file f w))"
proof -
  let ?d = "\<lparr>event = Some e, target_task = Some t, poll = 0, fasync = [],
    continue_flag = False, stopped_flag = False\<rparr>"
  let ?w = "attach_bp f e t (create_rwmem_bp_file f w)"
  have sel: "bp_files ?w = (bp_files w)(f := Some ?d)" "bp_open ?w = bp_open w \<union> {f}"
    "bp_tasks ?w = bp_tasks w" "step_list ?w = step_list w" "bp_live ?w = bp_live w"
    "bp_events ?w = (bp_events w)(e := Some (t, tag_file f))"
    by (simp_all add: attach_bp_def create_rwmem_bp_file_def set_data_def Let_def)
  from fr have n: "bp_files w f = None" "drop_bit 56 f = 0xff"
    "\<And>x. x \<in> set (step_list w) \<Longrightarrow> se_file x \<noteq> f"
    "\<And>t. f \<notin> set (t_work (bp_tasks w t))" "\<And>t. t_wait (bp_tasks w t) \<noteq> Some f"
    by (auto simp: fresh_file_def)
  from inv have i: "waits_match w" "files_ok w" "works_ok w" "steps_ok w" "events_ok w" "regs_ok w"
    by (simp_all add: bp_inv_def)
  have "waits_match ?w" using i(1) n(5) by (simp add: waits_match_def sel)
  moreover have "files_ok ?w" using i(2) n fr(3) by (auto simp: files_ok_def sel)
  moreover have "works_ok ?w" using i(3) n(4) by (simp add: works_ok_def sel)
  moreover have "steps_ok ?w" using i(4) n(3) by (simp add: steps_ok_def sel)
  moreover have "events_ok ?w" unfolding events_ok_def sel
  proof (intro allI impI)
    fix e' t' ctx assume "((bp_events w)(e \<mapsto> (t, tag_file f))) e' = Some (t', ctx)"
    then consider "e' = e" "t' = t" "ctx = tag_file f" | "e' \<noteq> e" "bp_events w e' = Some (t', ctx)"
      by (auto split: if_splits)
    then show "\<exists>g d. ctx = tag_file g \<and> ((bp_files w)(f \<mapsto> ?d)) g = Some d \<and>
        target_task d = Some t' \<and> event d = Some e'"
    proof cases
      case 1
      then show ?thesis by (intro exI [of _ f] exI [of _ ?d]) simp
    next
      case 2
      then obtain g d where "ctx = tag_file g" "bp_files w g = Some d" "target_task d = Some t'"
        "event d = Some e'" using i(5) unfolding events_ok_def by blast
      with n(1) show ?thesis by (intro exI [of _ g] exI [of _ d]) auto
    qed
  qed
  moreover have "regs_ok ?w" using i(6) by (simp add: regs_ok_def sel)
  ultimately show ?thesis by (simp add: bp_inv_def)
qed

lemma bp_inv_Free:
  assumes inv: "bp_inv w" and "f \<notin> bp_open w" and "bp_release_free f w = Some (r, w')"
  shows "bp_inv w'"
proof -
  from assms(3) obtain d where d: "bp_files w f = Some d"
    by (auto simp: bp_release_free_def split: option.splits)
  from inv have i: "waits_match w" "files_ok w" "works_ok w" "steps_ok w" "events_ok w" "regs_ok w"
    by (simp_all add: bp_inv_def)
  from i(2) d obtain e t where et: "event d = Some e" "target_task d = Some t"
    unfolding files_ok_def by fastforce
  have sel: "bp_files w' = (bp_files w)(f := None)" "bp_open w' = bp_open w"
    "bp_tasks w' = bp_tasks w" "bp_live w' = bp_live w" "step_list w' = mark_removed f (step_list w)"
    "bp_events w' = (bp_events w)(e := None)"
    using assms(3) by (auto simp: bp_release_free_def d et Let_def)
  have "waits_match w'" using i(1) by (simp add: waits_match_def sel)
  moreover have "files_ok w'" using i(2) assms(2) by (auto simp: files_ok_def sel)
  moreover have "works_ok w'" using i(3) by (simp add: works_ok_def sel)
  moreover have "steps_ok w'" unfolding steps_ok_def sel
  proof (intro conjI ballI allI impI)
    show "inj_on (\<lambda>t. t_pid (bp_tasks w t)) (bp_live w)" using i(4) by (simp add: steps_ok_def)
    fix x c assume "x \<in> set (mark_removed f (step_list w))"
      and c: "((bp_files w)(f := None)) (se_file x) = Some c"
    then obtain x' where "x' \<in> set (step_list w)" "se_file x = se_file x'" "se_pid x = se_pid x'"
      by (blast dest: mark_removed_mem)
    with c i(4) show "\<exists>t. target_task c = Some t \<and> se_pid x = t_pid (bp_tasks w t)"
      by (auto simp: steps_ok_def split: if_splits)
  qed
  moreover have "events_ok w'" unfolding events_ok_def sel
  proof (intro allI impI)
    fix x t ctx assume "((bp_events w)(e := None)) x = Some (t, ctx)"
    then have x: "x \<noteq> e" "bp_events w x = Some (t, ctx)" by (auto split: if_splits)
    with i(5) obtain g c where g: "ctx = tag_file g" "bp_files w g = Some c"
      "target_task c = Some t" "event c = Some x" unfolding events_ok_def by blast
    with x(1) d et have "g \<noteq> f" by auto
    with g show "\<exists>g c. ctx = tag_file g \<and> ((bp_files w)(f := None)) g = Some c \<and>
        target_task c = Some t \<and> event c = Some x" by auto
  qed
  moreover have "regs_ok w'" using i(6) by (simp add: regs_ok_def sel)
  ultimately show ?thesis by (simp add: bp_inv_def)
qed

lemma bp_inv_queue_work:
  assumes "bp_inv w" "queue_work E t f w = Some w'"
    and "\<forall>d. bp_files w f = Some d \<longrightarrow> target_task d = Some t"
  shows "bp_inv w'"
  using bp_inv_work [OF assms(1,3)] assms(2)
  by (auto simp: queue_work_def Let_def split: if_splits)

lemma bp_inv_Hit:
  assumes inv: "bp_inv w" and "bp_events w e = Some (t, ctx)" "bp_callback E t ctx w = Some w'"
  shows "bp_inv w'"
proof -
  from inv assms(2) obtain f d where f: "ctx = tag_file f" "bp_files w f = Some d"
    "target_task d = Some t" unfolding bp_inv_def events_ok_def by blast
  from inv f(2) have "drop_bit 56 f = 0xff" by (simp add: bp_inv_def files_ok_def)
  then have "untag_file ctx = f" using top_byte_ones [of f] by (simp only: f(1) untag_tag)
  with assms(3) f show ?thesis
    unfolding bp_callback_def by (auto intro: bp_inv_queue_work [OF inv])
qed

lemma bp_inv_Trap:
  assumes inv: "bp_inv w" and "rwmem_bp_step_handler E t w = Some (r, w')" "t \<in> bp_live w"
  shows "bp_inv w'"
proof (cases "find_step (t_pid (bp_tasks w t)) (step_list w)")
  case None
  with assms(1,2) show ?thesis by (simp add: rwmem_bp_step_handler_def)
next
  case (Some er)
  then obtain e rest where fs: "find_step (t_pid (bp_tasks w t)) (step_list w) = Some (e, rest)"
    by (cases er) auto
  note m = find_step_subset [OF fs]
  have st: "steps_ok w" using inv by (simp add: bp_inv_def)
  let ?w1 = "w\<lparr>step_list := rest\<rparr>"
  have i1: "bp_inv ?w1"
    by (rule bp_inv_steps [OF inv]) (use m st in \<open>auto simp: steps_ok_def\<close>)
  have tg: "\<forall>d. bp_files ?w1 (se_file e) = Some d \<longrightarrow> target_task d = Some t"
  proof (intro allI impI)
    fix d assume "bp_files ?w1 (se_file e) = Some d"
    then have d: "bp_files w (se_file e) = Some d" by simp
    with st m obtain t' where t': "target_task d = Some t'"
      "t_pid (bp_tasks w t) = t_pid (bp_tasks w t')" unfolding steps_ok_def by fastforce
    moreover have "t' \<in> bp_live w"
      using inv d t'(1) unfolding bp_inv_def files_ok_def by fastforce
    moreover have "inj_on (\<lambda>t. t_pid (bp_tasks w t)) (bp_live w)" using st by (simp add: steps_ok_def)
    ultimately show "target_task d = Some t" using assms(3) by (auto dest: inj_onD)
  qed
  show ?thesis
  proof (cases "se_removed e \<or> se_file e = 0")
    case True
    with assms(2) i1 show ?thesis
      by (auto simp: rwmem_bp_step_handler_def fs Let_def split: if_splits)
  next
    case False
    with assms(2) obtain w2 where w2: "queue_work E t (se_file e) ?w1 = Some w2"
      "w' = set_task t ((bp_tasks w2 t)\<lparr>t_singlestep := False\<rparr>) w2"
      by (auto simp: rwmem_bp_step_handler_def fs Let_def split: if_splits option.splits)
    from bp_inv_queue_work [OF i1 w2(1) tg] have "bp_inv w2" .
    then show ?thesis unfolding w2(2)
      by (intro bp_inv_set_task) (auto simp: bp_inv_def regs_ok_def)
  qed
qed

lemma bp_inv_regs:
  assumes "bp_inv w"
  shows "bp_inv (set_task t ((bp_tasks w t)\<lparr>t_regs := (t_regs (bp_tasks w t))[i := v]\<rparr>) w)"
    "bp_inv (set_task t ((bp_tasks w t)\<lparr>t_vregs := (t_vregs (bp_tasks w t))[i := x]\<rparr>) w)"
    "bp_inv (set_task t ((bp_tasks w t)\<lparr>t_fpsr := y\<rparr>) w)"
    "bp_inv (set_task t ((bp_tasks w t)\<lparr>t_fpcr := y\<rparr>) w)"
  by (rule bp_inv_set_task [OF assms]; use assms in \<open>auto simp: bp_inv_def regs_ok_def\<close>)+

lemma bp_inv_set_reg:
  assumes "bp_inv w" "bp_set_reg E f arg w = Some (r, w')"
  shows "bp_inv w'"
  using assms bp_inv_regs(1) [OF assms(1)]
  by (auto simp: bp_set_reg_def Let_def split: option.splits if_splits prod.splits)

lemma bp_inv_set_simd_reg:
  assumes "bp_inv w" "bp_set_simd_reg E f arg w = Some (r, w')"
  shows "bp_inv w'"
  using assms bp_inv_regs(2-4) [OF assms(1)]
  by (auto simp: bp_set_simd_reg_def Let_def split: option.splits if_splits prod.splits)

lemma bp_inv_continue:
  assumes "bp_inv w" "bp_continue f w = Some (r, w')"
  shows "bp_inv w'"
  using assms
  by (auto simp: bp_continue_def split: option.splits if_splits intro: bp_inv_set_data)

lemma bp_inv_step_cmd:
  assumes inv: "bp_inv w" and "bp_step_cmd E f w = Some (r, w')"
  shows "bp_inv w'"
proof (cases "\<exists>d t. bp_files w f = Some d \<and> stopped_flag d \<and> target_task d = Some t")
  case False
  with assms show ?thesis by (auto simp: bp_step_cmd_def split: option.splits if_splits)
next
  case True
  then obtain d t where d: "bp_files w f = Some d" "stopped_flag d" "target_task d = Some t" by blast
  let ?u = "bp_tasks w t"
  let ?e = "\<lparr>se_pid = t_pid ?u, se_file = f, se_removed = False\<rparr>"
  let ?u1 = "if t_singlestep ?u then ?u\<lparr>t_suspended_step := 1\<rparr> else ?u\<lparr>t_singlestep := True\<rparr>"
  let ?w2 = "set_task t ?u1 (w\<lparr>step_list := ?e # step_list w\<rparr>)"
  have "bp_inv (w\<lparr>step_list := ?e # step_list w\<rparr>)"
    by (rule bp_inv_steps [OF inv]) (use inv d in \<open>auto simp: bp_inv_def steps_ok_def\<close>)
  then have "bp_inv ?w2"
    by (rule bp_inv_set_task) (use inv in \<open>auto simp: bp_inv_def regs_ok_def\<close>)
  then have "bp_inv (set_data f (d\<lparr>continue_flag := True\<rparr>) ?w2)"
    by (rule bp_inv_set_data) (use d in \<open>auto simp: set_task_def\<close>)
  with assms(2) d show ?thesis by (auto simp: bp_step_cmd_def Let_def split: if_splits)
qed

lemma bp_inv_Ioctl:
  assumes "bp_inv w" "rwmem_bp_ioctl E f cmd arg w = Some (r, w')"
  shows "bp_inv w'"
  using assms bp_inv_set_reg [OF assms(1)] bp_inv_set_simd_reg [OF assms(1)]
    bp_inv_continue [OF assms(1)] bp_inv_step_cmd [OF assms(1)]
  by (auto simp: rwmem_bp_ioctl_def bp_is_stopped_def split: if_splits option.splits)

lemma copy_out_irrelevant: "copy_out E a bs w = (ok, w') \<Longrightarrow> bp_inv w' = bp_inv w"
  by (auto simp: copy_out_def split: prod.splits)

lemma bp_inv_Read:
  assumes "bp_inv w" "rwmem_bp_read E f buf sz w = Some (r, w')"
  shows "bp_inv w'"
  using assms by (auto simp: rwmem_bp_read_def Let_def dest!: copy_out_irrelevant
      split: option.splits if_splits prod.splits)

lemma bp_inv_Close:
  assumes inv: "bp_inv w" and "bp_release_wake f w = Some w'"
  shows "bp_inv w'"
proof -
  from assms(2) obtain d where d: "bp_files w f = Some d"
    by (auto simp: bp_release_wake_def split: option.splits)
  let ?w0 = "w\<lparr>bp_open := bp_open w - {f}\<rparr>"
  have "bp_inv ?w0" using inv by (simp add: bp_inv_defs)
  then have "bp_inv (set_data f (d\<lparr>continue_flag := True\<rparr>) ?w0)"
    by (rule bp_inv_set_data) (use d in auto)
  moreover have "w' = set_data f (d\<lparr>continue_flag := True\<rparr>) ?w0"
    using assms(2) by (auto simp: bp_release_wake_def d set_data_def)
  ultimately show ?thesis by simp
qed

lemma bp_inv_step:
  assumes "bp_step E a w w'" "bp_inv w"
  shows "bp_inv w'"
  using assms(1)
proof cases
  case (PollF f r)
  then obtain d where d: "bp_files w f = Some d"
    by (auto simp: rwmem_bp_poll_def split: option.splits)
  have "bp_inv (set_data f (d\<lparr>poll := 0\<rparr>) w)"
    by (rule bp_inv_set_data [OF assms(2) d]) (use assms(2) d in \<open>auto simp: bp_inv_def files_ok_def\<close>)
  with PollF d show ?thesis by (auto simp: rwmem_bp_poll_def)
next
  case (FasyncF f fd on r)
  then obtain d where d: "bp_files w f = Some d"
    by (auto simp: rwmem_bp_fasync_def split: option.splits)
  have "bp_inv (set_data f (d\<lparr>fasync := fa\<rparr>) w)" for fa
    by (rule bp_inv_set_data [OF assms(2) d]) (use assms(2) d in \<open>auto simp: bp_inv_def files_ok_def\<close>)
  with FasyncF d show ?thesis
    by (auto simp: rwmem_bp_fasync_def Let_def split: prod.splits if_splits)
next
  case (Run t regs)
  have "length (t_vregs (bp_tasks w t)) = 32" using assms(2) by (simp add: bp_inv_def regs_ok_def)
  with Run assms(2) show ?thesis by (auto intro!: bp_inv_set_task)
qed (use assms(2) in \<open>blast intro: bp_inv_Create bp_inv_Hit bp_inv_Trap bp_inv_Enter bp_inv_Leave
    bp_inv_Read bp_inv_Ioctl bp_inv_Close bp_inv_Free\<close>)+

lemma bp_inv_init: "bp_init w \<Longrightarrow> bp_inv w"
  by (simp add: bp_init_def bp_inv_defs)

lemma bp_reach_inv: "bp_reach E w \<Longrightarrow> bp_inv w"
  by (induction rule: bp_reach.induct) (auto intro: bp_inv_init bp_inv_step)

section \<open>A concrete run for the witnesses\<close>

text \<open>Task 5 of pid 7 gets a breakpoint, hits it and stops.\<close>

definition demo_bpenv :: bpenv where
  "demo_bpenv = \<lparr>b_k = demo_env, sizeof_pt_regs = 336,
     fasync_helper = (\<lambda>fd on l. (1, if on then fd # l else remove1 fd l))\<rparr>"

definition demo_file :: u64 where "demo_file = 0xffffff8000001000"

definition demo_bp0 :: bpw where
  "demo_bp0 = \<lparr>bk = demo_kst\<lparr>umem := mem_write (\<lambda>_. 0) 0x200 (u64_bytes 3 @ u64_bytes 0x77)\<rparr>,
     bp_files = (\<lambda>_. None), bp_open = {}, bp_live = {5},
     bp_tasks = (\<lambda>_. \<lparr>t_pid = 7, t_regs = replicate 34 9, t_vregs = replicate 32 0, t_fpsr = 0,
       t_fpcr = 0, t_singlestep = False, t_suspended_step = 0, t_work = [], t_wait = None\<rparr>),
     step_list = [], bp_events = (\<lambda>_. None), sigio = [], task_refs = (\<lambda>_. 0)\<rparr>"

definition demo_bp1 :: bpw where
  "demo_bp1 = attach_bp demo_file 0 5 (create_rwmem_bp_file demo_file demo_bp0)"

definition demo_bp2 :: bpw where "demo_bp2 = the (bp_callback demo_bpenv 5 (tag_file demo_file) demo_bp1)"

definition demo_bp3 :: bpw where "demo_bp3 = the (bp_after_enter 5 demo_file demo_bp2)"

definition demo_data :: rwmem_bp_private_data where
  "demo_data = \<lparr>event = Some 0, target_task = Some 5, poll = EPOLLIN, fasync = [],
     continue_flag = False, stopped_flag = True\<rparr>"

lemmas demo_bp_defs = demo_bpenv_def demo_bp0_def demo_bp1_def attach_bp_def
  create_rwmem_bp_file_def set_data_def set_task_def Let_def

lemma demo_file_top: "drop_bit 56 demo_file = 0xff" "demo_file \<noteq> 0"
  by (simp_all add: demo_file_def drop_bit_eq_div)

lemma demo_untag [simp]: "untag_file (tag_file demo_file) = demo_file"
  using demo_file_top top_byte_ones [of demo_file] by (simp only: untag_tag)

lemma demo_bp2: "bp_callback demo_bpenv 5 (tag_file demo_file) demo_bp1 = Some demo_bp2"
  by (simp add: demo_bp2_def bp_callback_def queue_work_def demo_bp_defs)

lemma demo_bp3: "bp_after_enter 5 demo_file demo_bp2 = Some demo_bp3"
  by (simp add: demo_bp3_def demo_bp2_def bp_callback_def queue_work_def bp_after_enter_def
      demo_bp_defs)

lemma demo_bp3_sel:
  "bp_files demo_bp3 demo_file = Some demo_data" "t_wait (bp_tasks demo_bp3 5) = Some demo_file"
  "t_regs (bp_tasks demo_bp3 5) = replicate 34 9" "bp_open demo_bp3 = {demo_file}"
  "\<not> t_singlestep (bp_tasks demo_bp3 5)" "bk demo_bp3 = bk demo_bp0" "step_list demo_bp3 = []"
  "t_pid (bp_tasks demo_bp3 5) = 7"
  by (simp_all add: demo_bp3_def demo_bp2_def bp_callback_def queue_work_def bp_after_enter_def
      demo_bp_defs demo_data_def)

lemma demo_reach: "bp_reach demo_bpenv demo_bp3"
proof -
  have "bp_reach demo_bpenv demo_bp0"
    by (rule bp_reach.init) (simp add: bp_init_def demo_bp0_def)
  moreover have "bp_step demo_bpenv (Create demo_file 0 5) demo_bp0 demo_bp1"
    unfolding demo_bp1_def
    by (rule bp_step.Create) (simp_all add: fresh_file_def demo_bp0_def demo_file_top)
  moreover have "bp_step demo_bpenv (Hit 0) demo_bp1 demo_bp2"
    by (rule bp_step.Hit [OF _ _ demo_bp2]) (simp_all add: demo_bp_defs)
  moreover have "bp_step demo_bpenv (Enter 5 demo_file) demo_bp2 demo_bp3"
    by (rule bp_step.Enter [OF _ _ demo_bp3])
      (simp_all add: demo_bp2_def bp_callback_def queue_work_def demo_bp_defs)
  ultimately show ?thesis by (blast intro: bp_reach.step)
qed

section \<open>Properties\<close>



lemma copy_out_tasks: "copy_out E a bs w = (ok, w') \<Longrightarrow> bp_tasks w' = bp_tasks w"
  by (auto simp: copy_out_def split: prod.splits)

definition task_regs :: "user_task \<Rightarrow> u64 list \<times> u128 list \<times> u32 \<times> u32" where
  "task_regs u = (t_regs u, t_vregs u, t_fpsr u, t_fpcr u)"

text \<open>C23. While a breakpoint is stopped the registers the client sees are stable: no step of the
  system changes them except the two register-setting commands.\<close>

theorem bp_stopped_regs_stable:
  assumes "bp_reach E w" and "bp_step E a w w'"
    and "bp_files w f = Some d" "stopped_flag d" "target_task d = Some t"
    and "\<forall>g cmd arg. a = IoctlF g cmd arg \<longrightarrow>
      cmd \<noteq> IOCTL_BP_SET_REG \<and> cmd \<noteq> IOCTL_BP_SET_SIMD_REG"
  shows "task_regs (bp_tasks w' t) = task_regs (bp_tasks w t)"
proof -
  from bp_reach_inv [OF assms(1)] assms(3-5) have wt: "t_wait (bp_tasks w t) = Some f"
    by (simp add: bp_inv_def waits_match_def)
  show ?thesis using assms(2)
  proof cases
    case (Run t' regs)
    with wt have "t' \<noteq> t" by auto
    with Run show ?thesis by (simp add: set_task_def)
  next
    case (IoctlF g cmd arg r)
    with assms(6) show ?thesis
      by (auto simp: rwmem_bp_ioctl_def bp_continue_def bp_step_cmd_def bp_is_stopped_def
          task_regs_def set_data_def set_task_def Let_def split: if_splits option.splits)
  next
    case (ReadF g buf sz r)
    then have "bp_tasks w' = bp_tasks w"
      by (auto simp: rwmem_bp_read_def Let_def dest!: copy_out_tasks
          split: option.splits if_splits prod.splits)
    then show ?thesis by simp
  next
    case (Trap t' r)
    then show ?thesis
      by (auto simp: rwmem_bp_step_handler_def queue_work_def set_task_def task_regs_def Let_def
          split: option.splits if_splits prod.splits)
  next
    case (Enter t' g)
    then show ?thesis
      by (auto simp: bp_after_enter_def set_task_def set_data_def task_regs_def Let_def
          split: option.splits if_splits)
  next
    case (Leave t' g)
    then show ?thesis
      by (auto simp: bp_after_leave_def set_task_def set_data_def task_regs_def Let_def
          split: option.splits if_splits)
  next
    case (Hit e t' ctx)
    then show ?thesis
      by (auto simp: bp_callback_def queue_work_def set_task_def task_regs_def Let_def
          split: if_splits)
  next
    case (Free g r)
    then show ?thesis
      by (auto simp: bp_release_free_def Let_def split: option.splits)
  qed (auto simp: attach_bp_def create_rwmem_bp_file_def set_data_def Let_def rwmem_bp_poll_def
      rwmem_bp_fasync_def bp_release_wake_def split: option.splits prod.splits if_splits)
qed

theorem bp_stopped_regs_stable_witness:
  "\<exists>w'. bp_step demo_bpenv (PollF demo_file) demo_bp3 w' \<and>
    task_regs (bp_tasks w' 5) = task_regs (bp_tasks demo_bp3 5)"
proof -
  have "rwmem_bp_poll demo_file demo_bp3 =
      Some (EPOLLIN, set_data demo_file (demo_data\<lparr>poll := 0\<rparr>) demo_bp3)"
    by (simp add: rwmem_bp_poll_def demo_bp3_sel) (simp add: demo_data_def)
  then have st: "bp_step demo_bpenv (PollF demo_file) demo_bp3
      (set_data demo_file (demo_data\<lparr>poll := 0\<rparr>) demo_bp3)"
    by (intro bp_step.PollF) (simp_all add: demo_bp3_sel)
  from bp_stopped_regs_stable [OF demo_reach st demo_bp3_sel(1), of 5] st
  show ?thesis by (auto simp: demo_data_def)
qed

text \<open>C24. Continuing a stopped breakpoint works: the command succeeds, the target leaves its wait
  with its registers unchanged, and the file is neither stopped nor told to continue, so
  that the next hit stops again.\<close>

theorem bp_continue_resumes:
  assumes "bp_reach E w" and "bp_files w f = Some d" "stopped_flag d" "target_task d = Some t"
  shows "\<exists>w1 w2. rwmem_bp_ioctl E f IOCTL_BP_CONTINUE arg w = Some (0, w1) \<and>
    t_wait (bp_tasks w1 t) = Some f \<and> bp_after_leave t f w1 = Some w2 \<and>
    t_wait (bp_tasks w2 t) = None \<and> task_regs (bp_tasks w2 t) = task_regs (bp_tasks w t) \<and>
    bp_files w2 f = Some (d\<lparr>poll := 0, continue_flag := False, stopped_flag := False\<rparr>)"
proof -
  from bp_reach_inv [OF assms(1)] assms(2-4) have wt: "t_wait (bp_tasks w t) = Some f"
    by (simp add: bp_inv_def waits_match_def)
  show ?thesis using assms(2-4) wt
    by (simp add: rwmem_bp_ioctl_def bp_continue_def bp_after_leave_def set_data_def set_task_def
        task_regs_def Let_def)
qed

theorem bp_continue_resumes_witness:
  "\<exists>w1 w2. rwmem_bp_ioctl demo_bpenv demo_file IOCTL_BP_CONTINUE 0 demo_bp3 = Some (0, w1) \<and>
    bp_after_leave 5 demo_file w1 = Some w2 \<and> t_wait (bp_tasks w2 5) = None"
  using bp_continue_resumes [OF demo_reach demo_bp3_sel(1), of 5 0]
  by (auto simp: demo_data_def)

text \<open>C27. A breakpoint that is not stopped refuses every command that needs a stopped target, and
  refuses to show registers, with EINVAL and no effect.\<close>

theorem bp_not_stopped_refused:
  assumes "bp_files w f = Some d" "\<not> stopped_flag d"
    and "cmd \<in> {IOCTL_BP_CONTINUE, IOCTL_BP_SET_REG, IOCTL_BP_SET_SIMD_REG, IOCTL_BP_STEP}"
  shows "rwmem_bp_ioctl E f cmd arg w = Some (- EINVAL, w) \<and>
    rwmem_bp_read E f buf sz w = Some (- EINVAL, w)"
  using assms by (auto simp: rwmem_bp_ioctl_def bp_ioctl_defs rwmem_bp_read_def)

theorem bp_not_stopped_refused_witness:
  "rwmem_bp_ioctl demo_bpenv demo_file IOCTL_BP_STEP 0 demo_bp1 = Some (- EINVAL, demo_bp1) \<and>
    rwmem_bp_read demo_bpenv demo_file 0 800 demo_bp1 = Some (- EINVAL, demo_bp1)"
  by (rule bp_not_stopped_refused [where d = "demo_data\<lparr>stopped_flag := False, poll := 0\<rparr>"])
    (simp_all add: demo_bp_defs demo_data_def)

lemma length_concat_u64: "length (concat (map u64_bytes l)) = 8 * length l"
  by (induction l) simp_all

text \<open>Setting a register of a stopped target and reading the registers back shows the new value
  in its place and every other register as it was.\<close>

theorem bp_set_reg_then_read:
  assumes "bp_reach E w" and "bp_files w f = Some d" "stopped_flag d" "target_task d = Some t"
    and "kenv_copy_ok (b_k E)"
    and "mem_read (umem (bk w)) arg 16 = u64_bytes r @ u64_bytes v" "r < 34"
    and "272 \<le> sz" "sz < 800"
  shows "\<exists>w1 w2. rwmem_bp_ioctl E f IOCTL_BP_SET_REG arg w = Some (0, w1) \<and>
    rwmem_bp_read E f buf sz w1 = Some (int (sizeof_pt_regs E), w2) \<and>
    mem_read (umem (bk w2)) buf 272 =
      concat (map u64_bytes ((t_regs (bp_tasks w t))[unat r := v]))"
proof -
  from bp_reach_inv [OF assms(1)] have l: "length (t_regs (bp_tasks w t)) = 34"
    by (simp add: bp_inv_def regs_ok_def)
  let ?u = "(bp_tasks w t)\<lparr>t_regs := (t_regs (bp_tasks w t))[unat r := v]\<rparr>"
  let ?w1 = "set_task t ?u w"
  have "copy_from_user (b_k E) arg 16 (bk w) = (0, u64_bytes r @ u64_bytes v)"
    using assms(5,6) by (simp add: copy_from_user_def kenv_copy_ok_def)
  then have 1: "rwmem_bp_ioctl E f IOCTL_BP_SET_REG arg w = Some (0, ?w1)"
    using assms(2-4,7)
    by (simp add: rwmem_bp_ioctl_def bp_set_reg_def get_bytes_def Let_def linorder_not_less [symmetric])
  have len: "length (user_regs_bytes ?u) = 272" by (simp add: user_regs_bytes_def length_concat_u64 l)
  let ?w2 = "?w1\<lparr>bk := (bk w)\<lparr>umem := mem_write (umem (bk w)) buf (user_regs_bytes ?u)\<rparr>\<rparr>"
  have co: "copy_out E buf (user_regs_bytes ?u) ?w1 = (True, ?w2)"
    using assms(5) by (simp add: copy_out_def copy_to_user_def kenv_copy_ok_def set_task_def)
  have nsz: "\<not> 800 \<le> sz" using assms(9) by simp
  have "rwmem_bp_read E f buf sz ?w1 = Some (int (sizeof_pt_regs E), ?w2)"
    using assms(2-4,8) nsz co by (simp add: rwmem_bp_read_def set_task_def Let_def)
  moreover have "mem_read (umem (bk ?w2)) buf 272 = user_regs_bytes ?u"
    using len by simp
  ultimately show ?thesis using 1 by (simp add: user_regs_bytes_def)
qed

theorem bp_set_reg_then_read_witness:
  "\<exists>w1 w2. rwmem_bp_ioctl demo_bpenv demo_file IOCTL_BP_SET_REG 0x200 demo_bp3 = Some (0, w1) \<and>
    rwmem_bp_read demo_bpenv demo_file 0x400 272 w1 = Some (336, w2) \<and>
    mem_read (umem (bk w2)) 0x400 272 = concat (map u64_bytes ((replicate 34 9)[3 := 0x77]))"
proof -
  have "mem_read (umem (bk demo_bp3)) 0x200 16 = u64_bytes 3 @ u64_bytes 0x77"
    by (simp add: demo_bp3_sel demo_bp0_def)
  from bp_set_reg_then_read [OF demo_reach demo_bp3_sel(1) _ _ _ this, of 5 272 "0x400"]
  show ?thesis by (simp add: demo_data_def demo_bp3_sel demo_bpenv_def demo_copy_ok)
qed



text \<open>A step whose file was closed meanwhile is dropped without turning single step off; the
  target's next trap then finds no entry and the hook reports an error, which the kernel
  answers with a trap signal to the target.\<close>

theorem bp_removed_step_keeps_stepping:
  assumes "find_step (t_pid (bp_tasks w t)) (step_list w) = Some (e, rest)" "se_removed e"
    and "find_step (t_pid (bp_tasks w t)) rest = None" "t_singlestep (bp_tasks w t)"
  shows "\<exists>w'. rwmem_bp_step_handler E t w = Some (DBG_HOOK_HANDLED, w') \<and>
    t_singlestep (bp_tasks w' t) \<and>
    rwmem_bp_step_handler E t w' = Some (DBG_HOOK_ERROR, w')"
  using assms by (simp add: rwmem_bp_step_handler_def Let_def)

theorem bp_removed_step_keeps_stepping_witness:
  "\<exists>w w'. rwmem_bp_step_handler demo_bpenv 5 w = Some (DBG_HOOK_HANDLED, w') \<and>
    t_singlestep (bp_tasks w' 5) \<and>
    rwmem_bp_step_handler demo_bpenv 5 w' = Some (DBG_HOOK_ERROR, w')"
proof -
  let ?e = "\<lparr>se_pid = 7, se_file = demo_file, se_removed = True\<rparr>"
  let ?w = "set_task 5 ((bp_tasks demo_bp0 5)\<lparr>t_singlestep := True\<rparr>)
    (demo_bp0\<lparr>step_list := [?e]\<rparr>)"
  have "find_step (t_pid (bp_tasks ?w 5)) (step_list ?w) = Some (?e, [])"
    by (simp add: demo_bp0_def set_task_def)
  from bp_removed_step_keeps_stepping [OF this, of demo_bpenv] show ?thesis
    by (auto simp: demo_bp0_def set_task_def)
qed

lemma bp_release_free_after:
  assumes "bp_release_free f w = Some (r, w')"
  shows "bp_tasks w' = bp_tasks w" "bp_files w' f = None"
  using assms by (auto simp: bp_release_free_def Let_def split: option.splits)

text \<open>C30. Closing a stopped breakpoint can free its data under the target: from the initial state a
  state is reachable in which the target still sleeps on the file's wait queue and the data
  is gone, so that its next instruction reads freed memory.\<close>

theorem bp_release_frees_under_waiter:
  "\<exists>w t f. bp_reach demo_bpenv w \<and> t_wait (bp_tasks w t) = Some f \<and> bp_files w f = None \<and>
    bp_after_leave t f w = None"
proof -
  obtain w1 where w1: "bp_release_wake demo_file demo_bp3 = Some w1"
    "w1 = (set_data demo_file (demo_data\<lparr>continue_flag := True\<rparr>) demo_bp3)\<lparr>bp_open := {}\<rparr>"
    by (simp add: bp_release_wake_def demo_bp3_sel)
  have "bp_step demo_bpenv (Close demo_file) demo_bp3 w1"
    by (rule bp_step.Close [OF _ w1(1)]) (simp add: demo_bp3_sel)
  with demo_reach have r1: "bp_reach demo_bpenv w1" by (rule bp_reach.step)
  obtain w2 where w2: "bp_release_free demo_file w1 = Some (0, w2)"
    by (simp add: bp_release_free_def w1(2) set_data_def Let_def)
  have "bp_step demo_bpenv (Free demo_file) w1 w2"
    by (rule bp_step.Free [OF _ w2]) (simp add: w1(2))
  with r1 have r2: "bp_reach demo_bpenv w2" by (rule bp_reach.step)
  have "t_wait (bp_tasks w2 5) = Some demo_file" "bp_files w2 demo_file = None"
    using bp_release_free_after [OF w2] by (simp_all add: w1(2) set_data_def demo_bp3_sel)
  with r2 show ?thesis
    by (intro exI [of _ w2] exI [of _ 5] exI [of _ demo_file]) (simp add: bp_after_leave_def)
qed

end
