(* ===== verification/Rw_Ioctl.thy ===== *)
theory Rw_Ioctl
  imports Rw_Dev Rw_Bp
begin

text \<open>
  The character device's commands (\<open>rwmem_ioctl\<close> in \<^verbatim>\<open>rwMem/sys.c\<close>), one definition per
  \<open>case\<close>: the number of mappings, their serialised list, the bitmap of resident pages, and the
  creation of a hardware breakpoint. The state is the breakpoints' world \<open>bpw\<close>, which
  contains the kernel state \<open>kst\<close>.
\<close>

section \<open>Parameters and command numbers\<close>

text \<open>What the kernel answers when a breakpoint is created: a file descriptor or an error, a file
  or an error, a perf event or an error; and the debug feature register.\<close>

record ioenv = bpenv +
  get_unused_fd :: int
  anon_inode_getfile :: "int + u64"
  perf_create :: "u64 \<Rightarrow> byte \<Rightarrow> byte \<Rightarrow> nat \<Rightarrow> int + nat"
  id_aa64dfr0 :: u64

definition RWMEM_MAJOR_NUM :: u32 where "RWMEM_MAJOR_NUM = 100"
definition IOCTL_GET_PROCESS_MAPS_COUNT :: u32 where
  "IOCTL_GET_PROCESS_MAPS_COUNT = IOW RWMEM_MAJOR_NUM 0 8"
definition IOCTL_GET_PROCESS_MAPS_LIST :: u32 where
  "IOCTL_GET_PROCESS_MAPS_LIST = IOWR RWMEM_MAJOR_NUM 1 8"
definition IOCTL_CHECK_PROCESS_ADDR_PHY :: u32 where
  "IOCTL_CHECK_PROCESS_ADDR_PHY = IOWR RWMEM_MAJOR_NUM 2 8"
definition IOCTL_ADD_BP :: u32 where "IOCTL_ADD_BP = IOWR RWMEM_MAJOR_NUM 3 8"
definition IOCTL_GET_NUM_BRPS :: u32 where "IOCTL_GET_NUM_BRPS = IOC_IO RWMEM_MAJOR_NUM 4"
definition IOCTL_GET_NUM_WRPS :: u32 where "IOCTL_GET_NUM_WRPS = IOC_IO RWMEM_MAJOR_NUM 5"

lemmas rwmem_cmd_defs = RWMEM_MAJOR_NUM_def IOCTL_GET_PROCESS_MAPS_COUNT_def
  IOCTL_GET_PROCESS_MAPS_LIST_def IOCTL_CHECK_PROCESS_ADDR_PHY_def IOCTL_ADD_BP_def
  IOCTL_GET_NUM_BRPS_def IOCTL_GET_NUM_WRPS_def ioc_defs

lemma rwmem_cmd_values:
  "IOCTL_GET_PROCESS_MAPS_COUNT = 0x40086400" "IOCTL_GET_PROCESS_MAPS_LIST = 0xC0086401"
  "IOCTL_CHECK_PROCESS_ADDR_PHY = 0xC0086402" "IOCTL_ADD_BP = 0xC0086403"
  "IOCTL_GET_NUM_BRPS = 0x6404" "IOCTL_GET_NUM_WRPS = 0x6405"
  by (simp_all add: rwmem_cmd_defs push_bit_eq_mult)

section \<open>The mapping list\<close>

definition ioctl_maps_count :: "kenv \<Rightarrow> u64 \<Rightarrow> kst \<Rightarrow> int \<times> kst" where
  "ioctl_maps_count K arg s =
     (case find_get_pid K (ucast arg) of
        None \<Rightarrow> (- EINVAL, s)
      | Some p \<Rightarrow>
          (case get_proc_map_count K p (get_pid p s) of
             (res, s1) \<Rightarrow> (sint res, put_pid p s1)))"

definition ioctl_maps_list :: "kenv \<Rightarrow> u64 \<Rightarrow> kst \<Rightarrow> (int \<times> kst) option" where
  "ioctl_maps_list K arg s =
     (case copy_from_user K arg 24 s of (left, buf) \<Rightarrow>
      if left \<noteq> 0 then Some (- EINVAL, s)
      else let pid = ucast (u64_of (get_bytes 0 8 buf));
               name_len = u64_of (get_bytes 8 8 buf);
               buf_size = u64_of (get_bytes 16 8 buf)
        in (case find_get_pid K pid of
              None \<Rightarrow> Some (- EINVAL, s)
            | Some p \<Rightarrow>
                (case get_proc_maps_list K p name_len (arg + 8) (buf_size - 8) False (get_pid p s) of
                   None \<Rightarrow> None
                 | Some (res, have_pass, s1) \<Rightarrow>
                     (case copy_to_user K arg (u64_bytes (word_of_int res)) (put_pid p s1) of
                        (left', s2) \<Rightarrow>
                          if left' \<noteq> 0 then Some (- EFAULT, s2)
                          else Some (if have_pass then 1 else 0, s2)))))"

section \<open>The bitmap of resident pages\<close>

definition MAX_MALLOC_SIZE :: nat where "MAX_MALLOC_SIZE = 1024"

text \<open>One page: its bit in the kernel's buffer.\<close>

definition check_phy_page ::
    "kenv \<Rightarrow> nat \<Rightarrow> u64 \<Rightarrow> nat \<Rightarrow> byte list \<Rightarrow> kst \<Rightarrow> byte list \<times> kst" where
  "check_phy_page K task proc_virt_addr i retBuf s =
     (case get_task_proc_phy_addr K (Some task) proc_virt_addr s of (ret, pte, s1) \<Rightarrow>
        (if ret \<noteq> 0 \<and> is_pte_can_read K pte s1
         then retBuf[i div 8 := retBuf ! (i div 8) OR push_bit (i mod 8) 1] else retBuf, s1))"

text \<open>The loop over the pages; \<open>False\<close> is the return when the buffer cannot be copied out.\<close>

partial_function (option) check_phy_loop ::
    "kenv \<Rightarrow> nat \<Rightarrow> u64 \<Rightarrow> nat \<Rightarrow> u64 \<Rightarrow> nat \<Rightarrow> byte list \<Rightarrow> u64 \<Rightarrow> kst \<Rightarrow>
      (bool \<times> nat \<times> byte list \<times> u64 \<times> kst) option" where
  "check_phy_loop K task vend bufLen proc_virt_addr i retBuf arg s =
     (if proc_virt_addr < vend then
        (case check_phy_page K task proc_virt_addr i retBuf s of (retBuf1, s1) \<Rightarrow>
         if i + 1 = MAX_MALLOC_SIZE * 8 then
           (case copy_to_user K arg (take bufLen retBuf1) s1 of (left, s2) \<Rightarrow>
            if left \<noteq> 0 then Some (False, i + 1, retBuf1, arg, s2)
            else check_phy_loop K task vend bufLen (proc_virt_addr + PAGE_SIZE) 0
                   (replicate bufLen 0) (arg + word_of_nat MAX_MALLOC_SIZE) s2)
         else check_phy_loop K task vend bufLen (proc_virt_addr + PAGE_SIZE) (i + 1) retBuf1 arg s1)
      else Some (True, i, retBuf, arg, s))"

definition ioctl_check_phy :: "kenv \<Rightarrow> u64 \<Rightarrow> kst \<Rightarrow> (int \<times> kst) option" where
  "ioctl_check_phy K arg s =
     (case copy_from_user K arg 24 s of (left, buf) \<Rightarrow>
      if left \<noteq> 0 then Some (- EFAULT, s)
      else let pid = u32_of (get_bytes 0 4 buf);
               vstart = u64_of (get_bytes 8 8 buf);
               vend = u64_of (get_bytes 16 8 buf)
      in if (vstart OR vend) AND (PAGE_SIZE - 1) \<noteq> 0 then Some (- EINVAL, s)
      else if vstart \<ge> vend then Some (- EINVAL, s)
      else (case find_get_pid K pid of
        None \<Rightarrow> Some (- EINVAL, s)
      | Some p \<Rightarrow>
          (let s1 = get_pid p s in
           case pid_task K p of
             None \<Rightarrow> Some (- EINVAL, put_pid p s1)
           | Some task \<Rightarrow>
               (let pages = (vend - vstart) div PAGE_SIZE;
                    bufLen0 = unat ((pages + 7) div 8);
                    bufLen = (if bufLen0 > MAX_MALLOC_SIZE then MAX_MALLOC_SIZE else bufLen0)
                in if \<not> kmalloc_ok K (word_of_nat bufLen) then Some (- ENOMEM, put_pid p s1)
                else (case check_phy_loop K task vend bufLen vstart 0 (replicate bufLen 0) arg s1 of
                  None \<Rightarrow> None
                | Some (ok, i, retBuf, arg', s2) \<Rightarrow>
                    (let s3 = put_pid p s2 in
                     if \<not> ok then Some (- EFAULT, s3)
                     else if i = 0 then Some (sint pages, s3)
                     else (case copy_to_user K arg' (take ((i + 7) div 8) retBuf) s3 of (left', s4) \<Rightarrow>
                           if left' \<noteq> 0 then Some (- EFAULT, s4) else Some (sint pages, s4))))))))"

section \<open>Adding a breakpoint\<close>

definition get_task :: "nat \<Rightarrow> bpw \<Rightarrow> bpw" where
  "get_task t w = w\<lparr>task_refs := (task_refs w)(t := task_refs w t + 1)\<rparr>"

definition put_task :: "nat \<Rightarrow> bpw \<Rightarrow> bpw" where
  "put_task t w = w\<lparr>task_refs := (task_refs w)(t := task_refs w t - 1)\<rparr>"

definition ioctl_add_bp :: "ioenv \<Rightarrow> u64 \<Rightarrow> bpw \<Rightarrow> (int \<times> bpw) option" where
  "ioctl_add_bp E arg w =
     (case copy_from_user (b_k E) arg 16 (bk w) of (left, buf) \<Rightarrow>
      if left \<noteq> 0 then Some (- EFAULT, w)
      else let pid = u32_of (get_bytes 0 4 buf);
               typ = buf ! 4; len = buf ! 5;
               virt_addr = u64_of (get_bytes 8 8 buf)
      in if typ > 4 then Some (- EINVAL, w)
      else if len \<noteq> 1 \<and> len \<noteq> 2 \<and> len \<noteq> 4 \<and> len \<noteq> 8 then Some (- EINVAL, w)
      else (case find_get_pid (b_k E) pid of
        None \<Rightarrow> Some (- EINVAL, w)
      | Some p \<Rightarrow>
          (let w1 = w\<lparr>bk := put_pid p (get_pid p (bk w))\<rparr> in
           case pid_task (b_k E) p of
             None \<Rightarrow> Some (- EINVAL, w1)
           | Some task \<Rightarrow>
               (let w2 = get_task task w1 in
                if get_unused_fd E < 0 then Some (get_unused_fd E, put_task task w2)
                else (case anon_inode_getfile E of
                  Inl err \<Rightarrow> Some (err, put_task task w2)
                | Inr filp \<Rightarrow>
                    (let w3 = create_rwmem_bp_file filp w2 in
                     case perf_create E virt_addr len typ task of
                       Inl err \<Rightarrow>
                         (case rwmem_bp_release filp (put_task task w3) of
                            None \<Rightarrow> None
                          | Some (_, w4) \<Rightarrow> Some (err, w4))
                     | Inr bp \<Rightarrow>
                         (let w4 = w3\<lparr>bp_events := (bp_events w3)(bp := Some (task, tag_file filp))\<rparr>
                          in case bp_files w4 filp of
                               None \<Rightarrow> None
                             | Some d \<Rightarrow> Some (get_unused_fd E,
                                 set_data filp (d\<lparr>event := Some bp, target_task := Some task\<rparr>) w4))))))))"

definition ioctl_num_brps :: "ioenv \<Rightarrow> int" where
  "ioctl_num_brps E = sint ((drop_bit 12 (id_aa64dfr0 E) AND 0xf) + 1)"

definition ioctl_num_wrps :: "ioenv \<Rightarrow> int" where
  "ioctl_num_wrps E = sint ((drop_bit 20 (id_aa64dfr0 E) AND 0xf) + 1)"

text \<open>The dispatcher.\<close>

definition on_kst :: "(kst \<Rightarrow> (int \<times> kst) option) \<Rightarrow> bpw \<Rightarrow> (int \<times> bpw) option" where
  "on_kst f w = (case f (bk w) of None \<Rightarrow> None | Some (r, k) \<Rightarrow> Some (r, w\<lparr>bk := k\<rparr>))"

definition rwmem_ioctl :: "ioenv \<Rightarrow> u32 \<Rightarrow> u64 \<Rightarrow> bpw \<Rightarrow> (int \<times> bpw) option" where
  "rwmem_ioctl E cmd arg w =
     (if cmd = IOCTL_GET_PROCESS_MAPS_COUNT then on_kst (\<lambda>s. Some (ioctl_maps_count (b_k E) arg s)) w
      else if cmd = IOCTL_GET_PROCESS_MAPS_LIST then on_kst (ioctl_maps_list (b_k E) arg) w
      else if cmd = IOCTL_CHECK_PROCESS_ADDR_PHY then on_kst (ioctl_check_phy (b_k E) arg) w
      else if cmd = IOCTL_ADD_BP then ioctl_add_bp E arg w
      else if cmd = IOCTL_GET_NUM_BRPS then Some (ioctl_num_brps E, w)
      else if cmd = IOCTL_GET_NUM_WRPS then Some (ioctl_num_wrps E, w)
      else Some (- EINVAL, w))"

section \<open>Bitmaps\<close>

text \<open>The specification of a bitmap: bit \<open>k mod 8\<close> of byte \<open>k div 8\<close> is \<open>f k\<close>.\<close>

definition pack_bit :: "(nat \<Rightarrow> bool) \<Rightarrow> nat \<Rightarrow> byte" where
  "pack_bit f j = horner_sum of_bool 2 (map (\<lambda>m. f (8 * j + m)) [0..<8])"

definition bitmap :: "(nat \<Rightarrow> bool) \<Rightarrow> nat \<Rightarrow> byte list" where
  "bitmap f n = map (pack_bit f) [0..<n]"

lemma bit_pack_bit: "bit (pack_bit f j) m \<longleftrightarrow> m < 8 \<and> f (8 * j + m)"
  by (auto simp: pack_bit_def bit_horner_sum_bit_iff)

lemma length_bitmap [simp]: "length (bitmap f n) = n"
  by (simp add: bitmap_def)

lemma nth_bitmap [simp]: "j < n \<Longrightarrow> bitmap f n ! j = pack_bit f j"
  by (simp add: bitmap_def)

lemma bitmap_bit: "k < 8 * n \<Longrightarrow> bit (bitmap f n ! (k div 8)) (k mod 8) \<longleftrightarrow> f k"
  by (subst nth_bitmap) (auto simp: bit_pack_bit)

lemma pack_bit_cong: "(\<And>m. m < 8 \<Longrightarrow> f (8 * j + m) = g (8 * i + m)) \<Longrightarrow> pack_bit f j = pack_bit g i"
  by (rule bit_word_eqI) (auto simp: bit_pack_bit)

lemma bitmap_cong: "(\<And>k. k < 8 * n \<Longrightarrow> f k = g k) \<Longrightarrow> bitmap f n = bitmap g n"
  by (auto simp: bitmap_def intro!: pack_bit_cong)

lemma bitmap_append: "bitmap f (n + m) = bitmap f n @ bitmap (\<lambda>k. f (8 * n + k)) m"
  by (rule nth_equalityI) (auto simp: nth_append algebra_simps not_less intro!: pack_bit_cong)

lemma take_bitmap: "m \<le> n \<Longrightarrow> take m (bitmap f n) = bitmap f m"
  by (simp add: bitmap_def take_map)

lemma bitmap_False: "bitmap (\<lambda>_. False) n = replicate n 0"
  by (rule nth_equalityI) (auto intro!: bit_word_eqI simp: bit_pack_bit)

lemma bitmap_set:
  assumes "i < 8 * n"
  shows "(bitmap f n)[i div 8 := bitmap f n ! (i div 8) OR push_bit (i mod 8) 1] = bitmap (f(i := True)) n"
proof (rule nth_equalityI)
  fix j assume "j < length ((bitmap f n)[i div 8 := bitmap f n ! (i div 8) OR push_bit (i mod 8) 1])"
  then have j: "j < n" by simp
  have k: "i div 8 < n" using assms by simp
  have "8 * j + m = i \<longleftrightarrow> j = i div 8 \<and> m = i mod 8" if "m < 8" for m using that by auto
  then show "(bitmap f n)[i div 8 := bitmap f n ! (i div 8) OR push_bit (i mod 8) 1] ! j =
      bitmap (f(i := True)) n ! j"
    using j k by (intro bit_word_eqI) (auto simp: nth_list_update bit_pack_bit bit_simps)
qed simp

section \<open>The loop fills the bitmap\<close>

definition resident :: "kenv \<Rightarrow> nat \<Rightarrow> kst \<Rightarrow> u64 \<Rightarrow> bool" where
  "resident K task s va =
     (case get_task_proc_phy_addr K (Some task) va s of (phy, pte, _) \<Rightarrow>
        phy \<noteq> 0 \<and> is_pte_can_read K pte s)"

lemma check_phy_page_resident:
  "check_phy_page K task va i buf s =
     (if resident K task s va then buf[i div 8 := buf ! (i div 8) OR push_bit (i mod 8) 1] else buf, s)"
proof (cases "get_task_proc_phy_addr K (Some task) va s")
  case (fields ret pte s1)
  with get_task_proc_phy_addr_state [of K "Some task" va s] have "s1 = s" by simp
  with fields show ?thesis by (simp add: check_phy_page_def resident_def)
qed

lemma resident_irrelevant [simp]:
  "resident K task (s\<lparr>umem := m\<rparr>) va = resident K task s va"
  "resident K task (get_pid p s) va = resident K task s va"
  by (auto simp: resident_def get_task_proc_phy_addr_def get_mm_def mmput_def get_pid_def
      is_pte_can_read_def Let_def split: option.splits prod.splits)

lemma copy_to_user_all:
  "kenv_copy_ok K \<Longrightarrow> copy_to_user K a bs s = (0, s\<lparr>umem := mem_write (umem s) a bs\<rparr>)"
  by (simp add: copy_to_user_def kenv_copy_ok_def Let_def)

lemma copy_to_user_umem: "kenv_copy_ok K \<Longrightarrow>
    copy_to_user K a bs (s\<lparr>umem := m\<rparr>) = (0, s\<lparr>umem := mem_write m a bs\<rparr>)"
  by (simp add: copy_to_user_all)

lemma bitmap_fill:
  assumes "i < 8 * L"
  shows "(if R (b + i) then (bitmap (\<lambda>k. k < i \<and> R (b + k)) L)
      [i div 8 := bitmap (\<lambda>k. k < i \<and> R (b + k)) L ! (i div 8) OR push_bit (i mod 8) 1]
      else bitmap (\<lambda>k. k < i \<and> R (b + k)) L) = bitmap (\<lambda>k. k < Suc i \<and> R (b + k)) L"
proof (cases "R (b + i)")
  case True
  have "(\<lambda>k. k < i \<and> R (b + k))(i := True) = (\<lambda>k. k < Suc i \<and> R (b + k))"
    using True by (auto simp: less_Suc_eq fun_eq_iff)
  then show ?thesis using True bitmap_set [OF assms, of "\<lambda>k. k < i \<and> R (b + k)"] by simp
next
  case False
  then show ?thesis by (auto intro!: bitmap_cong simp: less_Suc_eq)
qed

text \<open>\<open>c\<close> blocks of 8192 pages are done and \<open>i\<close> pages of the next one; \<open>N\<close> pages in all.\<close>

lemma check_phy_loop_bitmap:
  fixes R :: "nat \<Rightarrow> bool"
  assumes K: "kenv_copy_ok K" and fit: "unat vstart + 4096 * N < 2 ^ 64"
    and L: "L = min 1024 ((N + 7) div 8)"
    and "8192 * c + i + r = N" "i < 8192"
    and "\<And>k. resident K task s (vstart + word_of_nat (4096 * k)) = R k"
  shows "check_phy_loop K task (vstart + word_of_nat (4096 * N)) L
      (vstart + word_of_nat (4096 * (8192 * c + i))) i
      (bitmap (\<lambda>k. k < i \<and> R (8192 * c + k)) L) arg s =
    Some (True, N mod 8192, bitmap (\<lambda>k. k < N mod 8192 \<and> R (8192 * (N div 8192) + k)) L,
      arg + word_of_nat (1024 * (N div 8192 - c)),
      s\<lparr>umem := mem_write (umem s) arg (bitmap (\<lambda>k. R (8192 * c + k)) (1024 * (N div 8192 - c)))\<rparr>)"
  using assms(4-6)
proof (induction r arbitrary: c i arg s)
  case 0
  then have "N div 8192 = c" "N mod 8192 = i" by auto
  with 0 show ?case
    by (subst check_phy_loop.simps) (auto simp: bitmap_def)
next
  case (Suc r)
  let ?n = "8192 * c + i"
  let ?va = "vstart + word_of_nat (4096 * ?n)"
  have un: "unat (vstart + word_of_nat (4096 * m)) = unat vstart + 4096 * m" if "m \<le> N" for m
    by (rule unat_add_of_nat) (use fit that in linarith)
  have lt: "?va < vstart + word_of_nat (4096 * N)"
    unfolding word_less_nat_alt using Suc.prems(1) by (subst (1 2) un) auto
  have iL: "i < 8 * L" using Suc.prems by (auto simp: L)
  have nx: "?va + PAGE_SIZE = vstart + word_of_nat (4096 * Suc ?n)"
    by (simp add: PAGE_SIZE_def add.assoc)
  have pg: "check_phy_page K task ?va i (bitmap (\<lambda>k. k < i \<and> R (8192 * c + k)) L) s =
      (bitmap (\<lambda>k. k < Suc i \<and> R (8192 * c + k)) L, s)"
    unfolding check_phy_page_resident Suc.prems(3) using bitmap_fill [OF iL, of R "8192 * c"] by simp
  show ?case
  proof (cases "Suc i = 8192")
    case False
    with Suc.prems have i: "8192 * c + Suc i + r = N" "Suc i < 8192"
      "Suc i \<noteq> MAX_MALLOC_SIZE * 8" "Suc ?n = 8192 * c + Suc i"
      by (simp_all add: MAX_MALLOC_SIZE_def)
    show ?thesis
      by (subst check_phy_loop.simps)
        (simp only: lt pg nx i(3,4) if_True if_False prod.case Suc_eq_plus1 [symmetric]
          Suc.IH [OF i(1,2) Suc.prems(3)])
  next
    case True
    then have cN: "Suc c \<le> N div 8192" and L1: "L = 1024"
      using Suc.prems(1) by (auto simp: L less_eq_div_iff_mult_less_eq)
    let ?B = "bitmap (\<lambda>k. R (8192 * c + k)) 1024"
    have full: "bitmap (\<lambda>k. k < Suc i \<and> R (8192 * c + k)) L = ?B"
      unfolding L1 True by (rule bitmap_cong) simp
    let ?s1 = "s\<lparr>umem := mem_write (umem s) arg ?B\<rparr>"
    let ?m = "1024 * (N div 8192 - Suc c)"
    have IH: "check_phy_loop K task (vstart + word_of_nat (4096 * N)) L
        (vstart + word_of_nat (4096 * (8192 * Suc c + 0))) 0 (replicate L 0) (arg + 1024) ?s1 =
      Some (True, N mod 8192, bitmap (\<lambda>k. k < N mod 8192 \<and> R (8192 * (N div 8192) + k)) L,
        arg + 1024 + word_of_nat ?m,
        ?s1\<lparr>umem := mem_write (umem ?s1) (arg + 1024) (bitmap (\<lambda>k. R (8192 * Suc c + k)) ?m)\<rparr>)"
      using Suc.IH [of "Suc c" 0 ?s1 "arg + 1024"] Suc.prems True by (simp add: bitmap_False)
    have split: "1024 * (N div 8192 - c) = 1024 + ?m" using cN by simp
    have "4096 * N < 2 ^ 64" using fit by simp
    then have "N < 2 ^ 52" by simp
    then have "N div 8192 < 2 ^ 52" using div_le_dividend [of N 8192] by linarith
    then have small: "1024 + ?m \<le> 2 ^ 64" by simp
    have mw: "mem_write (mem_write (umem s) arg ?B) (arg + 1024) (bitmap (\<lambda>k. R (8192 * Suc c + k)) ?m) =
        mem_write (umem s) arg (bitmap (\<lambda>k. R (8192 * c + k)) (1024 + ?m))"
      using mem_write_append [of ?B "bitmap (\<lambda>k. R (8192 * Suc c + k)) ?m" "umem s" arg] small
      by (simp add: bitmap_append ac_simps)
    have e: "i + 1 = MAX_MALLOC_SIZE * 8" "Suc ?n = 8192 * Suc c + 0" "word_of_nat MAX_MALLOC_SIZE = (1024 :: u64)"
      using True by (simp_all add: MAX_MALLOC_SIZE_def)
    have "check_phy_loop K task (vstart + word_of_nat (4096 * N)) L ?va i
        (bitmap (\<lambda>k. k < i \<and> R (8192 * c + k)) L) arg s =
      check_phy_loop K task (vstart + word_of_nat (4096 * N)) L
        (vstart + word_of_nat (4096 * (8192 * Suc c + 0))) 0 (replicate L 0) (arg + 1024) ?s1"
      by (subst check_phy_loop.simps)
        (simp only: lt pg [unfolded L1] nx e if_True if_False prod.case full [unfolded L1]
          copy_to_user_all [OF K] take_bitmap [OF order_refl] L1 simp_thms)
    moreover have "?s1\<lparr>umem := mem_write (umem ?s1) (arg + 1024)
          (bitmap (\<lambda>k. R (8192 * Suc c + k)) ?m)\<rparr> =
        s\<lparr>umem := mem_write (umem s) arg (bitmap (\<lambda>k. R (8192 * c + k)) (1024 + ?m))\<rparr>"
      by (simp add: mw del: mult_Suc_right)
    moreover have "arg + 1024 + word_of_nat ?m = arg + word_of_nat (1024 + ?m)" by simp
    ultimately show ?thesis using IH by (simp only: split)
  qed
qed

lemma page_aligned_mod:
  assumes "w AND (PAGE_SIZE - 1) = 0"
  shows "4096 dvd unat w"
proof -
  have "take_bit 12 w = 0" using assms by (simp add: take_bit_eq_mask PAGE_SIZE_def mask_eq_exp_minus_1)
  then have "take_bit 12 (unat w) = 0" by (metis unsigned_take_bit_eq unsigned_0)
  then show ?thesis by (simp add: take_bit_eq_mod mod_eq_0_iff_dvd)
qed

lemma page_count:
  assumes "vstart AND (PAGE_SIZE - 1) = 0" "vend AND (PAGE_SIZE - 1) = 0" "vstart < vend"
  shows "unat vend = unat vstart + 4096 * unat ((vend - vstart) div PAGE_SIZE)"
    "0 < unat ((vend - vstart) div PAGE_SIZE)" "unat ((vend - vstart) div PAGE_SIZE) < 2 ^ 52"
    "vend = vstart + word_of_nat (4096 * unat ((vend - vstart) div PAGE_SIZE))"
proof -
  have lt: "unat vstart < unat vend" using assms(3) by (simp add: word_less_nat_alt)
  have sub: "unat (vend - vstart) = unat vend - unat vstart"
    by (rule unat_le_sub) (use assms(3) in simp)
  have dv: "4096 dvd unat vend - unat vstart"
    using page_aligned_mod [OF assms(1)] page_aligned_mod [OF assms(2)] by (rule dvd_diff_nat [rotated])
  have q: "unat ((vend - vstart) div PAGE_SIZE) = (unat vend - unat vstart) div 4096"
    by (simp add: unat_div_distrib sub PAGE_SIZE_def)
  then have m: "4096 * unat ((vend - vstart) div PAGE_SIZE) = unat vend - unat vstart"
    using dv by simp
  with lt show e: "unat vend = unat vstart + 4096 * unat ((vend - vstart) div PAGE_SIZE)" by simp
  from m lt show "0 < unat ((vend - vstart) div PAGE_SIZE)" by (cases "unat ((vend - vstart) div PAGE_SIZE)") auto
  show "unat ((vend - vstart) div PAGE_SIZE) < 2 ^ 52" using m unat_bound [of vend] by simp
  have "unat vend < 2 ^ 64" using unat_bound [of vend] by simp
  with e show "vend = vstart + word_of_nat (4096 * unat ((vend - vstart) div PAGE_SIZE))"
    by (metis unat_add_of_nat word_unat_eq_iff)
qed

lemma bitmap_tail:
  assumes "N mod 8192 \<noteq> 0" "(N mod 8192 + 7) div 8 \<le> L"
  shows "bitmap R (1024 * (N div 8192)) @
      take ((N mod 8192 + 7) div 8) (bitmap (\<lambda>k. k < N mod 8192 \<and> R (8192 * (N div 8192) + k)) L) =
    bitmap (\<lambda>k. k < N \<and> R k) ((N + 7) div 8)"
proof -
  have N: "N = 8192 * (N div 8192) + N mod 8192" by simp
  have n8: "(N + 7) div 8 = 1024 * (N div 8192) + (N mod 8192 + 7) div 8"
  proof -
    have "N + 7 = (N mod 8192 + 7) + (1024 * (N div 8192)) * 8" by simp
    then show ?thesis by (metis add.commute div_mult_self1 zero_neq_numeral)
  qed
  have 1: "bitmap (\<lambda>k. k < N \<and> R k) (1024 * (N div 8192)) = bitmap R (1024 * (N div 8192))"
    by (rule bitmap_cong) (use N in auto)
  have 2: "8 * (1024 * (N div 8192)) + k < N \<longleftrightarrow> k < N mod 8192" for k using N by linarith
  show ?thesis
    unfolding n8 bitmap_append take_bitmap [OF assms(2)] 1 2 by (simp add: mult.assoc)
qed

lemma umem_get_pid: "umem (get_pid p s) = umem s"
  by (simp add: get_pid_def)

lemma ioctl_check_phy_ok:
  assumes K: "kenv_copy_ok K"
    and req: "mem_read (umem s) arg 24 = u32_bytes pid @ pad @ u64_bytes vstart @ u64_bytes vend"
      "length pad = 4"
    and al: "vstart AND (PAGE_SIZE - 1) = 0" "vend AND (PAGE_SIZE - 1) = 0" "vstart < vend"
    and "find_get_pid K pid = Some p" "pid_task K p = Some task"
    and N: "N = unat ((vend - vstart) div PAGE_SIZE)"
  shows "ioctl_check_phy K arg s = Some (int N, s\<lparr>umem := mem_write (umem s) arg
    (bitmap (\<lambda>k. k < N \<and> resident K task s (vstart + word_of_nat (4096 * k))) ((N + 7) div 8))\<rparr>)"
proof -
  let ?R = "\<lambda>k. resident K task s (vstart + word_of_nat (4096 * k))"
  let ?pages = "(vend - vstart) div PAGE_SIZE"
  note pc = page_count [OF al, folded N]
  let ?L = "min 1024 ((N + 7) div 8)"
  have cfu: "copy_from_user K arg 24 s = (0, u32_bytes pid @ pad @ u64_bytes vstart @ u64_bytes vend)"
    using K req by (simp add: copy_from_user_def kenv_copy_ok_def)
  have low: "(vstart OR vend) AND (PAGE_SIZE - 1) = 0"
    using al by (simp add: bit.conj_disj_distrib2)
  have up: "unat (?pages + 7) = N + 7"
    using unat_add_of_nat [of ?pages 7] pc(3) by (simp add: N)
  have L0: "unat ((?pages + 7) div 8) = (N + 7) div 8" by (simp add: unat_div_distrib up)
  have L: "(if unat ((?pages + 7) div 8) > MAX_MALLOC_SIZE then MAX_MALLOC_SIZE
      else unat ((?pages + 7) div 8)) = ?L"
    by (simp add: L0 MAX_MALLOC_SIZE_def min_def)
  have sp: "sint ?pages = int N"
  proof -
    have "?pages < 2 ^ 63" using pc(3) by (simp add: word_less_nat_alt flip: N)
    then show ?thesis by (simp add: sint_small N)
  qed
  let ?M = "1024 * (N div 8192)"
  let ?s2 = "(get_pid p s)\<lparr>umem := mem_write (umem s) arg (bitmap ?R ?M)\<rparr>"
  have loop: "check_phy_loop K task vend ?L vstart 0 (replicate ?L 0) arg (get_pid p s) =
      Some (True, N mod 8192, bitmap (\<lambda>k. k < N mod 8192 \<and> ?R (8192 * (N div 8192) + k)) ?L,
        arg + word_of_nat ?M, ?s2)"
    using check_phy_loop_bitmap [OF K _ refl, of vstart N 0 0 N task "get_pid p s" ?R arg]
      pc unat_bound [of vend] by (simp add: bitmap_False umem_get_pid)
  have ps: "put_pid p ?s2 = s\<lparr>umem := mem_write (umem s) arg (bitmap ?R ?M)\<rparr>"
    by (simp add: get_pid_def put_pid_def)
  have start: "ioctl_check_phy K arg s =
    (let s3 = s\<lparr>umem := mem_write (umem s) arg (bitmap ?R ?M)\<rparr> in
     if N mod 8192 = 0 then Some (int N, s3)
     else (case copy_to_user K (arg + word_of_nat ?M) (take ((N mod 8192 + 7) div 8)
          (bitmap (\<lambda>k. k < N mod 8192 \<and> ?R (8192 * (N div 8192) + k)) ?L)) s3 of
        (left', s4) \<Rightarrow> if left' \<noteq> 0 then Some (- EFAULT, s4) else Some (int N, s4)))"
  proof -
    have g: "u32_of (get_bytes 0 4 (u32_bytes pid @ pad @ u64_bytes vstart @ u64_bytes vend)) = pid"
      "u64_of (get_bytes 8 8 (u32_bytes pid @ pad @ u64_bytes vstart @ u64_bytes vend)) = vstart"
      "u64_of (get_bytes 16 8 (u32_bytes pid @ pad @ u64_bytes vstart @ u64_bytes vend)) = vend"
      using req(2) by (simp_all add: get_bytes_def)
    have km: "kmalloc_ok K n" for n using K by (simp add: kenv_copy_ok_def)
    have nge: "\<not> vstart \<ge> vend" using al(3) by simp
    show ?thesis
      unfolding ioctl_check_phy_def
      by (simp only: cfu prod.case g low nge assms(7,8) option.case L km loop Let_def sp ps
          if_False if_True simp_thms)
  qed
  show ?thesis
  proof (cases "N mod 8192 = 0")
    case True
    then have "(N + 7) div 8 = ?M" by (auto simp: mod_eq_0_iff_dvd elim!: dvdE)
    moreover have "bitmap ?R ?M = bitmap (\<lambda>k. k < N \<and> ?R k) ?M"
      by (rule bitmap_cong) (use True in auto)
    ultimately show ?thesis using start True by simp
  next
    case False
    have le: "(N mod 8192 + 7) div 8 \<le> ?L"
    proof -
      have "N mod 8192 < 8192" by simp
      then have "(N mod 8192 + 7) div 8 \<le> 1024" by linarith
      moreover have "(N mod 8192 + 7) div 8 \<le> (N + 7) div 8" by (intro div_le_mono) simp
      ultimately show ?thesis by simp
    qed
    have small: "length (bitmap ?R ?M) + length (take ((N mod 8192 + 7) div 8)
        (bitmap (\<lambda>k. k < N mod 8192 \<and> ?R (8192 * (N div 8192) + k)) ?L)) \<le> 2 ^ 64"
    proof -
      have "?M \<le> N" by simp
      with pc(3) show ?thesis by simp
    qed
    have mw: "mem_write (mem_write (umem s) arg (bitmap ?R ?M)) (arg + word_of_nat ?M)
        (take ((N mod 8192 + 7) div 8)
          (bitmap (\<lambda>k. k < N mod 8192 \<and> ?R (8192 * (N div 8192) + k)) ?L)) =
      mem_write (umem s) arg (bitmap (\<lambda>k. k < N \<and> ?R k) ((N + 7) div 8))"
      using mem_write_append [OF small, of "umem s" arg] bitmap_tail [OF False le, of ?R]
      by (simp only: length_bitmap)
    show ?thesis
      by (simp only: start Let_def False if_False prod.case simp_thms copy_to_user_umem [OF K] mw)
  qed
qed

text \<open>C20. The residency command answers with the number of pages of the range and writes to the
  caller, over the request, a bitmap with bit \<open>k mod 8\<close> of byte \<open>k div 8\<close> set exactly for
  the pages \<open>k\<close> that are mapped and readable; nothing else changes, whatever the number of
  8192-page blocks.\<close>

theorem ioctl_check_phy_bitmap:
  assumes K: "kenv_copy_ok K"
    and req: "mem_read (umem s) arg 24 = u32_bytes pid @ pad @ u64_bytes vstart @ u64_bytes vend"
      "length pad = 4"
    and al: "vstart AND (PAGE_SIZE - 1) = 0" "vend AND (PAGE_SIZE - 1) = 0" "vstart < vend"
    and "find_get_pid K pid = Some p" "pid_task K p = Some task"
    and N: "N = unat ((vend - vstart) div PAGE_SIZE)"
  shows "ioctl_check_phy K arg s = Some (int N, s\<lparr>umem := mem_write (umem s) arg
    (bitmap (\<lambda>k. k < N \<and> resident K task s (vstart + word_of_nat (4096 * k))) ((N + 7) div 8))\<rparr>)"
  by (rule ioctl_check_phy_ok [OF assms])

definition demo_check_state :: kst where
  "demo_check_state = demo_kst\<lparr>umem := mem_write (\<lambda>_. 0) 0x100
     (u32_bytes 7 @ replicate 4 0 @ u64_bytes 0x10000 @ u64_bytes 0x13000)\<rparr>"

lemma demo_resident:
  "k < 3 \<Longrightarrow> resident demo_env 5 demo_check_state (0x10000 + word_of_nat (4096 * k)) \<longleftrightarrow> k < 2"
proof -
  assume "k < 3"
  then consider "k = 0" | "k = 1" | "k = 2" by linarith
  then show ?thesis
    by cases (simp_all add: resident_def get_task_proc_phy_addr_def page_walk_def demo_mm_def
        demo_check_state_def demo_kst_def PAGE_SIZE_def page_of_def is_pte_can_read_def get_mm_def
        Let_def drop_bit_eq_div)
qed

theorem ioctl_check_phy_bitmap_witness:
  "ioctl_check_phy demo_env 0x100 demo_check_state =
    Some (3, demo_check_state\<lparr>umem := mem_write (umem demo_check_state) 0x100 [3]\<rparr>)"
proof -
  have req: "mem_read (umem demo_check_state) 0x100 24 =
      u32_bytes 7 @ replicate 4 0 @ u64_bytes 0x10000 @ u64_bytes 0x13000"
    by (simp add: demo_check_state_def)
  have N: "3 = unat ((0x13000 - 0x10000) div PAGE_SIZE)" by (simp add: PAGE_SIZE_def)
  have e: "(\<lambda>k. k < 3 \<and> resident demo_env 5 demo_check_state (0x10000 + word_of_nat (4096 * k))) =
      (\<lambda>k. k < 2)"
    using demo_resident by fastforce
  have "bitmap (\<lambda>k. k < 2) ((3 + 7) div 8) = [3]"
    by (simp add: bitmap_def pack_bit_def upt_rec)
  with ioctl_check_phy_bitmap [OF demo_copy_ok req _ _ _ _ _ _ N, of 3 5] show ?thesis
    by (simp only: e) (simp add: PAGE_SIZE_def)
qed

section \<open>The mapping list as the caller sees it\<close>

lemma ioctl_maps_list_ok:
  assumes K: "kenv_copy_ok K"
    and req: "mem_read (umem s) arg 24 = u64_bytes pid @ u64_bytes plen @ u64_bytes buf_size"
    and tgt: "find_get_pid K (ucast pid) = Some p" "pid_task K p = Some t" "task_mm K t = Some m"
    and pl: "0 < plen" "unat plen \<le> MY_PATH_MAX_LEN"
    and names: "\<forall>v \<in> set (mmap m). maps_name K m v \<noteq> None"
    and cap: "buf_size = 8 + word_of_nat (cap * (20 + unat plen))"
      "unat arg + 8 + cap * (20 + unat plen) < 2 ^ 64" "cap < 2 ^ 63"
    and holes: "\<forall>k < min (length (mmap m)) cap.
      umem s (arg + 8 + word_of_nat (k * (20 + unat plen) + 19 + unat plen)) = 0"
  shows "ioctl_maps_list K arg s = Some (if cap < length (mmap m) then 1 else 0,
    s\<lparr>umem := mem_write (umem s) arg (u64_bytes (word_of_nat (min (length (mmap m)) cap)) @
      concat (map (vma_record K m (unat plen)) (take cap (mmap m))))\<rparr>)"
proof -
  let ?recs = "concat (map (vma_record K m (unat plen)) (take cap (mmap m)))"
  let ?n = "min (length (mmap m)) cap"
  have cfu: "copy_from_user K arg 24 s = (0, u64_bytes pid @ u64_bytes plen @ u64_bytes buf_size)"
    using K req by (simp add: copy_from_user_def kenv_copy_ok_def)
  have f: "u64_of (get_bytes 0 8 (u64_bytes pid @ u64_bytes plen @ u64_bytes buf_size)) = pid"
    "u64_of (get_bytes 8 8 (u64_bytes pid @ u64_bytes plen @ u64_bytes buf_size)) = plen"
    "u64_of (get_bytes 16 8 (u64_bytes pid @ u64_bytes plen @ u64_bytes buf_size)) = buf_size"
    by (simp_all add: get_bytes_def)
  have u8: "unat (arg + 8) = unat arg + 8"
    using unat_add_of_nat [of arg 8] cap(2) by simp
  let ?s1 = "down_read m (get_mm m (get_pid p s))"
  have um: "umem ?s1 = umem s" by (simp add: ref_defs)
  have loop: "maps_loop K False m plen (mmap m) (arg + 8) (arg + 8 + (buf_size - 8)) 0 ?s1 =
      Some (int ?n, cap < length (mmap m), ?s1\<lparr>umem := mem_write (umem s) (arg + 8) ?recs\<rparr>)"
    using maps_loop_ok [OF K pl names, of cap ?s1 "arg + 8" "arg + 8 + (buf_size - 8)" 0]
      holes cap u8 by (simp add: um)
  have upd: "put_pid p (mmput m (up_read m (?s1\<lparr>umem := x\<rparr>))) = s\<lparr>umem := x\<rparr>" for x
    by (simp add: ref_defs)
  have pl0: "(plen = 0) = False" using pl(1) by auto
  have list: "get_proc_maps_list K p plen (arg + 8) (buf_size - 8) False (get_pid p s) =
      Some (int ?n, cap < length (mmap m),
        mmput m (up_read m (?s1\<lparr>umem := mem_write (umem s) (arg + 8) ?recs\<rparr>)))"
    unfolding get_proc_maps_list_def
    by (simp only: pl0 tgt option.case prod.case Let_def loop if_False)
  have lr: "length ?recs \<le> cap * (20 + unat plen)"
  proof -
    have "\<forall>v \<in> set (take cap (mmap m)). length (vma_record K m (unat plen) v) = 20 + unat plen"
      using names pl by (auto dest!: in_set_takeD intro!: length_vma_record simp: word_less_nat_alt)
    then have "length ?recs = length (take cap (mmap m)) * (20 + unat plen)"
      by (simp add: length_concat sum_list_triv comp_def cong: map_cong)
    then show ?thesis by simp
  qed
  have cnt: "u64_bytes (word_of_int (int ?n)) = u64_bytes (word_of_nat ?n)" by simp
  have mw: "mem_write (mem_write (umem s) (arg + 8) ?recs) arg (u64_bytes (word_of_nat ?n)) =
      mem_write (umem s) arg (u64_bytes (word_of_nat ?n) @ ?recs)"
    using mem_write_adjacent [of "u64_bytes (word_of_nat ?n)" ?recs "umem s" arg] lr cap(2) by simp
  show ?thesis
    unfolding ioctl_maps_list_def
    by (simp only: cfu prod.case f tgt option.case list upd cnt copy_to_user_umem [OF K] mw Let_def
        simp_thms if_False)
qed


definition demo_list_state :: kst where
  "demo_list_state = demo_kst\<lparr>umem := mem_write (\<lambda>_. 0) 0x100
     (u64_bytes 7 @ u64_bytes 16 @ u64_bytes 44)\<rparr>"


section \<open>Adding a breakpoint\<close>

lemma ioctl_add_bp_ok:
  assumes "kenv_copy_ok (b_k E)"
    and "mem_read (umem (bk w)) arg 16 = u32_bytes pid @ [typ, len] @ pad @ u64_bytes va"
      "length pad = 2"
    and "typ \<le> 4" "len \<in> {1, 2, 4, 8}"
    and "find_get_pid (b_k E) pid = Some p" "pid_task (b_k E) p = Some t"
    and "0 \<le> get_unused_fd E" "anon_inode_getfile E = Inr f" "perf_create E va len typ t = Inr bp"
  shows "ioctl_add_bp E arg w =
    Some (get_unused_fd E, attach_bp f bp t (create_rwmem_bp_file f w))"
proof -
  have cfu: "copy_from_user (b_k E) arg 16 (bk w) = (0, u32_bytes pid @ [typ, len] @ pad @ u64_bytes va)"
    using assms(1,2) by (simp add: copy_from_user_def kenv_copy_ok_def)
  let ?b = "u32_bytes pid @ [typ, len] @ pad @ u64_bytes va"
  have g: "u32_of (get_bytes 0 4 ?b) = pid" "?b ! 4 = typ" "?b ! 5 = len"
    "u64_of (get_bytes 8 8 ?b) = va"
    using assms(3) by (simp_all add: get_bytes_def nth_append)
  have w: "w\<lparr>bk := bk w\<rparr> = w" by simp
  have t4: "\<not> typ > 4" using assms(4) by (simp add: not_less)
  have l4: "\<not> (len \<noteq> 1 \<and> len \<noteq> 2 \<and> len \<noteq> 4 \<and> len \<noteq> 8)" using assms(5) by auto
  have fd: "\<not> get_unused_fd E < 0" using assms(8) by simp
  show ?thesis
    unfolding ioctl_add_bp_def cfu prod.case Let_def g
    by (simp add: t4 l4 fd assms(6,7,9,10) w del: de_Morgan_conj)
      (simp add: attach_bp_def create_rwmem_bp_file_def get_task_def set_data_def Let_def)
qed

text \<open>A successful add returns the new descriptor and is exactly the creation step of the
  breakpoint state machine: a file whose data name the event and the target, an event
  whose context is the tagged file, and one reference on the target.\<close>

theorem ioctl_add_bp_creates:
  assumes "kenv_copy_ok (b_k E)"
    and "mem_read (umem (bk w)) arg 16 = u32_bytes pid @ [typ, len] @ pad @ u64_bytes va"
      "length pad = 2"
    and "typ \<le> 4" "len \<in> {1, 2, 4, 8}"
    and "find_get_pid (b_k E) pid = Some p" "pid_task (b_k E) p = Some t"
    and "0 \<le> get_unused_fd E" "anon_inode_getfile E = Inr f" "perf_create E va len typ t = Inr bp"
  shows "ioctl_add_bp E arg w =
    Some (get_unused_fd E, attach_bp f bp t (create_rwmem_bp_file f w))"
  by (rule ioctl_add_bp_ok [OF assms])

definition demo_ioenv :: "(int + nat) \<Rightarrow> ioenv" where
  "demo_ioenv pe = \<lparr>b_k = demo_env, sizeof_pt_regs = 336, fasync_helper = fasync_helper demo_bpenv,
     get_unused_fd = 4, anon_inode_getfile = Inr demo_file, perf_create = (\<lambda>_ _ _ _. pe),
     id_aa64dfr0 = 0x305106\<rparr>"

definition demo_add_state :: bpw where
  "demo_add_state = demo_bp0\<lparr>bk := demo_kst\<lparr>umem := mem_write (\<lambda>_. 0) 0x300
     (u32_bytes 7 @ [3, 4] @ [0, 0] @ u64_bytes 0x10010)\<rparr>\<rparr>"

lemma demo_ioenv_sel:
  "b_k (demo_ioenv pe) = demo_env" "get_unused_fd (demo_ioenv pe) = 4"
  "anon_inode_getfile (demo_ioenv pe) = Inr demo_file" "perf_create (demo_ioenv pe) a b c d = pe"
  by (simp_all add: demo_ioenv_def)

theorem ioctl_add_bp_creates_witness:
  "ioctl_add_bp (demo_ioenv (Inr 0)) 0x300 demo_add_state =
    Some (4, attach_bp demo_file 0 5 (create_rwmem_bp_file demo_file demo_add_state))"
proof -
  have req: "mem_read (umem (bk demo_add_state)) 0x300 16 =
      u32_bytes 7 @ [3, 4] @ [0, 0] @ u64_bytes 0x10010"
    by (simp add: demo_add_state_def)
  show ?thesis
    using ioctl_add_bp_creates [of "demo_ioenv (Inr 0)", OF _ req, of 3 5 demo_file 0]
    by (simp add: demo_ioenv_def demo_copy_ok)
qed



end
