(* ===== verification/Mem_Reader.thy ===== *)
theory Mem_Reader
  imports Rw_Ioctl
begin

text \<open>
  The client of the driver in the Cheat Engine server
  (\<^verbatim>\<open>CEServer/MemoryReaderWriter37.hpp\<close>): connecting, reading and writing a process, the list of
  its regions and the residency check. The operating system is a parameter \<open>'s drv\<close> over a
  state \<open>'s\<close>; \<open>kernel_drv\<close> at the end is that parameter built from the driver's own model. A
  definition returns \<open>None\<close> where the code runs out of a buffer or dereferences a bad pointer.
\<close>

section \<open>The operating system\<close>

record 's drv =
  os_open :: "string \<Rightarrow> 's \<Rightarrow> int \<times> 's"     \<comment> \<open>a descriptor, or minus the error number\<close>
  os_chmod :: "string \<Rightarrow> nat \<Rightarrow> 's \<Rightarrow> 's"
  os_close :: "int \<Rightarrow> 's \<Rightarrow> 's"
  os_read :: "int \<Rightarrow> byte list \<Rightarrow> u64 \<Rightarrow> 's \<Rightarrow> int \<times> byte list \<times> 's"
  os_write :: "int \<Rightarrow> byte list \<Rightarrow> u64 \<Rightarrow> 's \<Rightarrow> int \<times> 's"
  os_ioctl_buf :: "int \<Rightarrow> u32 \<Rightarrow> byte list \<Rightarrow> 's \<Rightarrow> (int \<times> byte list \<times> 's) option"
  os_ioctl_val :: "int \<Rightarrow> u32 \<Rightarrow> u64 \<Rightarrow> 's \<Rightarrow> (int \<times> 's) option"
  os_lseek :: "int \<Rightarrow> byte list \<Rightarrow> 's \<Rightarrow> int \<times> byte list \<times> 's"
  os_new :: "nat \<Rightarrow> byte list"             \<comment> \<open>the contents of fresh storage\<close>

definition EACCES :: int where "EACCES = 13"

section \<open>Regions\<close>

definition PAGE_NOACCESS :: u32 where "PAGE_NOACCESS = 1"
definition PAGE_READONLY :: u32 where "PAGE_READONLY = 2"
definition PAGE_READWRITE :: u32 where "PAGE_READWRITE = 4"
definition PAGE_EXECUTE_READ :: u32 where "PAGE_EXECUTE_READ = 32"
definition PAGE_EXECUTE_READWRITE :: u32 where "PAGE_EXECUTE_READWRITE = 64"
definition MEM_MAPPED :: u32 where "MEM_MAPPED = 262144"
definition MEM_PRIVATE :: u32 where "MEM_PRIVATE = 131072"

lemmas region_consts = PAGE_NOACCESS_def PAGE_READONLY_def PAGE_READWRITE_def
  PAGE_EXECUTE_READ_def PAGE_EXECUTE_READWRITE_def MEM_MAPPED_def MEM_PRIVATE_def

record DRIVER_REGION_INFO =
  baseaddress :: u64
  r_size :: u64
  protection :: u32
  r_type :: u32
  r_name :: "byte list"

definition empty_region :: DRIVER_REGION_INFO where
  "empty_region = \<lparr>baseaddress = 0, r_size = 0, protection = 0, r_type = 0,
     r_name = replicate 4096 0\<rparr>"

section \<open>The connection\<close>

text \<open>The object's two members and the two static buffers of the fast calls.\<close>

record reader =
  m_nDriverLink :: int
  m_bUseBypassSELinuxMode :: bool
  lastMallocReadMemBuf :: "byte list"
  lastMallocWriteMemBuf :: "byte list"

definition new_reader :: reader where
  "new_reader = \<lparr>m_nDriverLink = -1, m_bUseBypassSELinuxMode = False,
     lastMallocReadMemBuf = [], lastMallocWriteMemBuf = []\<rparr>"

definition drv_connect :: "'s drv \<Rightarrow> string \<Rightarrow> 's \<Rightarrow> int \<times> 's" where
  "drv_connect D path s =
     (case os_open D path s of (n, s1) \<Rightarrow>
      if n < 0 then
        (let last_err = - n;
             (n', last_err', s2) =
               (if last_err = EACCES then
                  (case os_open D path (os_chmod D path 666 s1) of (m, s3) \<Rightarrow>
                     (m, if m < 0 then - m else last_err, os_chmod D path 384 s3))
                else (n, last_err, s1))
         in if n' < 0 then (- last_err', s2) else (n', s2))
      else (n, s1))"

definition ConnectDriver ::
    "'s drv \<Rightarrow> string \<Rightarrow> bool \<Rightarrow> reader \<Rightarrow> int \<Rightarrow> 's \<Rightarrow> bool \<times> int \<times> reader \<times> 's" where
  "ConnectDriver D path bypass r err s =
     (if m_nDriverLink r \<ge> 0 then (True, err, r, s)
      else (case drv_connect D path s of (link, s') \<Rightarrow>
        let r1 = r\<lparr>m_nDriverLink := link\<rparr> in
        if link < 0 then (False, link, r1, s')
        else (True, 0, r1\<lparr>m_bUseBypassSELinuxMode := bypass\<rparr>, s')))"

definition drv_disconnect :: "'s drv \<Rightarrow> int \<Rightarrow> 's \<Rightarrow> bool \<times> 's" where
  "drv_disconnect D fd s = (if fd < 0 then (False, s) else (True, os_close D fd s))"

definition DisconnectDriver :: "'s drv \<Rightarrow> reader \<Rightarrow> 's \<Rightarrow> bool \<times> reader \<times> 's" where
  "DisconnectDriver D r s =
     (if m_nDriverLink r \<ge> 0 then
        (True, r\<lparr>m_nDriverLink := -1\<rparr>, snd (drv_disconnect D (m_nDriverLink r) s))
      else (False, r, s))"

definition IsDriverConnected :: "reader \<Rightarrow> bool" where
  "IsDriverConnected r \<longleftrightarrow> m_nDriverLink r \<ge> 0"

definition drv_OpenProcess :: "u64 \<Rightarrow> u64" where "drv_OpenProcess pid = pid"

definition drv_CloseHandle :: "u64 \<Rightarrow> bool" where "drv_CloseHandle h = True"

definition GetLinkFD :: "reader \<Rightarrow> int" where "GetLinkFD r = m_nDriverLink r"

definition SetLinkFD :: "int \<Rightarrow> reader \<Rightarrow> reader" where "SetLinkFD fd r = r\<lparr>m_nDriverLink := fd\<rparr>"

definition SeUseBypassSELinuxMode :: "bool \<Rightarrow> reader \<Rightarrow> reader" where
  "SeUseBypassSELinuxMode b r = r\<lparr>m_bUseBypassSELinuxMode := b\<rparr>"

section \<open>Reading and writing\<close>

text \<open>The guards all four calls share, and the header they write into a buffer.\<close>

definition rw_args_ok :: "reader \<Rightarrow> u64 \<Rightarrow> u64 \<Rightarrow> u64 \<Rightarrow> bool" where
  "rw_args_ok r hProcess lpBaseAddress nSize \<longleftrightarrow>
     \<not> lpBaseAddress \<le> 0 \<and> \<not> m_nDriverLink r < 0 \<and> hProcess \<noteq> 0 \<and> \<not> nSize \<le> 0"

definition put_header :: "u64 \<Rightarrow> u64 \<Rightarrow> int \<Rightarrow> byte list \<Rightarrow> byte list" where
  "put_header hProcess addr force buf =
     put_bytes 16 [if force = 1 then 1 else 0]
       (put_bytes 8 (u64_bytes addr) (put_bytes 0 (u64_bytes hProcess) buf))"

definition ReadProcessMemory ::
    "'s drv \<Rightarrow> reader \<Rightarrow> u64 \<Rightarrow> u64 \<Rightarrow> byte list \<Rightarrow> u64 \<Rightarrow> int \<Rightarrow> 's \<Rightarrow>
      bool \<times> byte list \<times> int option \<times> 's" where
  "ReadProcessMemory D r hProcess lpBaseAddress lpBuffer nSize bIsForceRead s =
     (if \<not> rw_args_ok r hProcess lpBaseAddress nSize then (False, lpBuffer, None, s)
      else if nSize < 17 then
        (let buf = put_header hProcess lpBaseAddress bIsForceRead (replicate 17 0) in
         case os_read D (m_nDriverLink r) buf nSize s of (realRead, buf', s') \<Rightarrow>
         if realRead \<le> 0 then (False, lpBuffer, None, s')
         else (True, put_bytes 0 (take (nat realRead) buf') lpBuffer, Some realRead, s'))
      else
        (let buf = put_header hProcess lpBaseAddress bIsForceRead lpBuffer in
         case os_read D (m_nDriverLink r) buf nSize s of (realRead, buf', s') \<Rightarrow>
         if realRead \<le> 0 then (False, buf', None, s')
         else (True, buf', Some realRead, s')))"

text \<open>\<open>int bufSize\<close> as the \<open>size_t\<close> it is compared with and allocated by.\<close>

definition as_int_size :: "u64 \<Rightarrow> u64" where
  "as_int_size n = scast (ucast n :: u32)"

definition ReadProcessMemory_Fast ::
    "'s drv \<Rightarrow> reader \<Rightarrow> u64 \<Rightarrow> u64 \<Rightarrow> byte list \<Rightarrow> u64 \<Rightarrow> int \<Rightarrow> 's \<Rightarrow>
      (bool \<times> byte list \<times> int option \<times> reader \<times> 's) option" where
  "ReadProcessMemory_Fast D r hProcess lpBaseAddress lpBuffer nSize bIsForceRead s =
     (if \<not> rw_args_ok r hProcess lpBaseAddress nSize then Some (False, lpBuffer, None, r, s)
      else
        (let bufSize = as_int_size (if nSize < 17 then 17 else nSize);
             size0 = word_of_nat (length (lastMallocReadMemBuf r)) in
         if bufSize \<ge> 2 ^ 63 then None
         else
           (let old = (if size0 < bufSize then replicate (unat bufSize) 0
                       else lastMallocReadMemBuf r);
                buf = put_header hProcess lpBaseAddress bIsForceRead
                        (put_bytes 0 (replicate (unat bufSize) 0) old) in
            if length old < 17 \<or> unat nSize > length old then None
            else (case os_read D (m_nDriverLink r) buf nSize s of (realRead, buf', s') \<Rightarrow>
              let r' = r\<lparr>lastMallocReadMemBuf := buf'\<rparr> in
              if realRead \<le> 0 then Some (False, lpBuffer, None, r', s')
              else Some (True, put_bytes 0 (take (nat realRead) buf') lpBuffer, Some realRead, r', s')))))"

definition WriteProcessMemory ::
    "'s drv \<Rightarrow> reader \<Rightarrow> u64 \<Rightarrow> u64 \<Rightarrow> byte list \<Rightarrow> u64 \<Rightarrow> int \<Rightarrow> 's \<Rightarrow>
      (bool \<times> int option \<times> 's) option" where
  "WriteProcessMemory D r hProcess lpBaseAddress lpBuffer nSize bIsForceWrite s =
     (if \<not> rw_args_ok r hProcess lpBaseAddress nSize then Some (False, None, s)
      else
        (let bufSize = as_int_size (nSize + 17) in
         if bufSize \<ge> 2 ^ 63 \<or> unat bufSize < 17 + unat nSize then None
         else
           (let buf = put_bytes 17 (take (unat nSize) lpBuffer)
                        (put_header hProcess lpBaseAddress bIsForceWrite
                          (replicate (unat bufSize) 0)) in
            case os_write D (m_nDriverLink r) buf nSize s of (realWrite, s') \<Rightarrow>
            if realWrite \<le> 0 then Some (False, None, s') else Some (True, Some realWrite, s'))))"

definition WriteProcessMemory_Fast ::
    "'s drv \<Rightarrow> reader \<Rightarrow> u64 \<Rightarrow> u64 \<Rightarrow> byte list \<Rightarrow> u64 \<Rightarrow> int \<Rightarrow> 's \<Rightarrow>
      (bool \<times> int option \<times> reader \<times> 's) option" where
  "WriteProcessMemory_Fast D r hProcess lpBaseAddress lpBuffer nSize bIsForceWrite s =
     (if \<not> rw_args_ok r hProcess lpBaseAddress nSize then Some (False, None, r, s)
      else
        (let bufSize = as_int_size (nSize + 17);
             size0 = word_of_nat (length (lastMallocWriteMemBuf r)) in
         if bufSize \<ge> 2 ^ 63 then None
         else
           (let old = (if size0 < bufSize then os_new D (unat bufSize)
                       else lastMallocWriteMemBuf r) in
            if length old < 17 + unat nSize then None
            else
              (let buf = put_bytes 17 (take (unat nSize) lpBuffer)
                           (put_header hProcess lpBaseAddress bIsForceWrite old) in
               case os_write D (m_nDriverLink r) buf nSize s of (realWrite, s') \<Rightarrow>
               let r' = r\<lparr>lastMallocWriteMemBuf := buf\<rparr> in
               if realWrite \<le> 0 then Some (False, None, r', s')
               else Some (True, Some realWrite, r', s')))))"

section \<open>Commands\<close>

definition HPP_MAPS_COUNT :: u32 where "HPP_MAPS_COUNT = IOWR 100 0 8"
definition HPP_MAPS_LIST :: u32 where "HPP_MAPS_LIST = IOWR 100 1 8"
definition HPP_CHECK_PHY :: u32 where "HPP_CHECK_PHY = IOWR 100 2 8"

text \<open>\<open>_rwProcMemDriver_MyIoctl\<close> with a buffer, and with the pid in the place of the buffer:
  the bypass copies from the address it is given, which a pid is not.\<close>

definition MyIoctl_buf ::
    "'s drv \<Rightarrow> reader \<Rightarrow> u32 \<Rightarrow> byte list \<Rightarrow> 's \<Rightarrow> (int \<times> byte list \<times> 's) option" where
  "MyIoctl_buf D r cmd buf s =
     (if m_bUseBypassSELinuxMode r then
        (case os_lseek D (m_nDriverLink r) (u32_bytes cmd @ buf) s of (ret, lb, s') \<Rightarrow>
           Some (sint (word_of_int ret :: u32), drop 4 lb, s'))
      else os_ioctl_buf D (m_nDriverLink r) cmd buf s)"

definition MyIoctl_val :: "'s drv \<Rightarrow> reader \<Rightarrow> u32 \<Rightarrow> u64 \<Rightarrow> 's \<Rightarrow> (int \<times> 's) option" where
  "MyIoctl_val D r cmd v s =
     (if m_bUseBypassSELinuxMode r then None else os_ioctl_val D (m_nDriverLink r) cmd v s)"

section \<open>The residency check and the scan\<close>

definition CheckMemAddrIsValid ::
    "'s drv \<Rightarrow> reader \<Rightarrow> u64 \<Rightarrow> u64 \<Rightarrow> u64 \<Rightarrow> 's \<Rightarrow> (byte list option \<times> 's) option" where
  "CheckMemAddrIsValid D r hProcess BeginAddress EndAddress s =
     (if m_nDriverLink r < 0 then Some (None, s)
      else if hProcess = 0 then Some (None, s)
      else
        (let e = ((EndAddress div PAGE_SIZE) - (BeginAddress div PAGE_SIZE) + 7) div 8;
             bufSize = nat (max 24 (sint (ucast e :: u32)));
             buf = put_bytes 16 (u64_bytes EndAddress) (put_bytes 8 (u64_bytes BeginAddress)
                     (put_bytes 0 (u64_bytes hProcess) (os_new D bufSize)))
         in case MyIoctl_buf D r HPP_CHECK_PHY buf s of
              None \<Rightarrow> None
            | Some (ret, buf', s') \<Rightarrow> Some (if ret > 0 then Some buf' else None, s')))"

definition str_copy :: "byte list \<Rightarrow> byte list \<Rightarrow> byte list" where
  "str_copy dst src = put_bytes 0 (cstr src @ [0]) dst"

partial_function (option) phy_scan ::
    "byte list \<Rightarrow> u64 \<Rightarrow> DRIVER_REGION_INFO \<Rightarrow> u64 \<Rightarrow> nat \<Rightarrow> bool \<Rightarrow> DRIVER_REGION_INFO \<Rightarrow>
      DRIVER_REGION_INFO list \<Rightarrow> (bool \<times> DRIVER_REGION_INFO \<times> DRIVER_REGION_INFO list) option" where
  "phy_scan isphy vma_end rInfo addr i isPhyRegion rPhyInfo out =
     (if addr < vma_end then
        (if i div 8 \<ge> length isphy then None
         else if bit (isphy ! (i div 8)) (i mod 8) then
           (if isPhyRegion then
              phy_scan isphy vma_end rInfo (addr + PAGE_SIZE) (i + 1) isPhyRegion rPhyInfo out
            else
              phy_scan isphy vma_end rInfo (addr + PAGE_SIZE) (i + 1) True
                (rPhyInfo\<lparr>baseaddress := addr, protection := protection rInfo,
                   r_type := r_type rInfo, r_name := str_copy (r_name rPhyInfo) (r_name rInfo)\<rparr>) out)
         else
           (if isPhyRegion then
              (let rPhy' = rPhyInfo\<lparr>r_size := addr - baseaddress rPhyInfo\<rparr> in
               phy_scan isphy vma_end rInfo (addr + PAGE_SIZE) (i + 1) False rPhy' (out @ [rPhy']))
            else phy_scan isphy vma_end rInfo (addr + PAGE_SIZE) (i + 1) isPhyRegion rPhyInfo out))
      else Some (isPhyRegion, rPhyInfo, out))"

definition phy_regions ::
    "byte list \<Rightarrow> u64 \<Rightarrow> u64 \<Rightarrow> DRIVER_REGION_INFO \<Rightarrow> DRIVER_REGION_INFO list \<Rightarrow>
      DRIVER_REGION_INFO list option" where
  "phy_regions isphy vma_start vma_end rInfo out =
     (case phy_scan isphy vma_end rInfo vma_start 0 False empty_region out of
        None \<Rightarrow> None
      | Some (isPhyRegion, rPhy, out') \<Rightarrow>
          Some (if isPhyRegion then out' @ [rPhy\<lparr>r_size := vma_end - baseaddress rPhy\<rparr>] else out'))"

section \<open>The region list\<close>

definition decode_protection :: "byte list \<Rightarrow> u32" where
  "decode_protection vma_flags =
     (if vma_flags ! 2 = 1 then
        (if vma_flags ! 1 = 1 then PAGE_EXECUTE_READWRITE else PAGE_EXECUTE_READ)
      else if vma_flags ! 1 = 1 then PAGE_READWRITE
      else if vma_flags ! 0 = 1 then PAGE_READONLY else PAGE_NOACCESS)"

definition decode_type :: "byte list \<Rightarrow> u32" where
  "decode_type vma_flags = (if vma_flags ! 3 = 1 then MEM_MAPPED else MEM_PRIVATE)"

text \<open>One record of the list: 8 bytes, 8 bytes, 4 flags, 512 bytes of name.\<close>

definition parse_region :: "byte list \<Rightarrow> u64 \<times> u64 \<times> DRIVER_REGION_INFO" where
  "parse_region rec =
     (let vma_start = u64_of (get_bytes 0 8 rec);
          vma_end = u64_of (get_bytes 8 8 rec);
          vma_flags = get_bytes 16 4 rec;
          name = (get_bytes 20 512 rec)[511 := 0]
      in (vma_start, vma_end,
          empty_region\<lparr>baseaddress := vma_start, r_size := vma_end - vma_start,
            protection := decode_protection vma_flags, r_type := decode_type vma_flags,
            r_name := (put_bytes 0 name (replicate 4096 0))[4095 := 0]\<rparr>))"

fun parse_regions ::
    "'s drv \<Rightarrow> reader \<Rightarrow> u64 \<Rightarrow> bool \<Rightarrow> byte list \<Rightarrow> nat \<Rightarrow> nat \<Rightarrow> DRIVER_REGION_INFO list \<Rightarrow> 's \<Rightarrow>
      (DRIVER_REGION_INFO list \<times> 's) option" where
  "parse_regions D r hProcess showPhy big_buf pos 0 vOutput s = Some (vOutput, s)"
| "parse_regions D r hProcess showPhy big_buf pos (Suc res) vOutput s =
     (if pos + 532 > length big_buf then None
      else (case parse_region (get_bytes pos 532 big_buf) of (vma_start, vma_end, rInfo) \<Rightarrow>
        if showPhy then
          (case CheckMemAddrIsValid D r hProcess vma_start vma_end s of
             None \<Rightarrow> None
           | Some (None, s') \<Rightarrow> parse_regions D r hProcess showPhy big_buf (pos + 532) res vOutput s'
           | Some (Some isphy, s') \<Rightarrow>
               (case phy_regions isphy vma_start vma_end rInfo vOutput of
                  None \<Rightarrow> None
                | Some out \<Rightarrow> parse_regions D r hProcess showPhy big_buf (pos + 532) res out s'))
        else parse_regions D r hProcess showPhy big_buf (pos + 532) res (vOutput @ [rInfo]) s))"

text \<open>The answer, the regions and \<open>*bOutListCompleted\<close> when it is set.\<close>

definition VirtualQueryExFull ::
    "'s drv \<Rightarrow> reader \<Rightarrow> u64 \<Rightarrow> bool \<Rightarrow> 's \<Rightarrow>
      (bool \<times> DRIVER_REGION_INFO list \<times> int option \<times> 's) option" where
  "VirtualQueryExFull D r hProcess showPhy s =
     (if m_nDriverLink r < 0 then Some (False, [], None, s)
      else if hProcess = 0 then Some (False, [], None, s)
      else (case MyIoctl_val D r HPP_MAPS_COUNT hProcess s of
        None \<Rightarrow> None
      | Some (count, s1) \<Rightarrow>
          if count \<le> 0 then Some (False, [], None, s1)
          else if 532 * (count + 50) \<ge> 2 ^ 31 then None
          else
            (let big_buf_len = 8 + 532 * nat (count + 50);
                 big_buf = put_bytes 16 (u64_bytes (word_of_nat big_buf_len))
                   (put_bytes 8 (u64_bytes 512) (put_bytes 0 (u64_bytes hProcess)
                     (replicate big_buf_len 0)))
             in case MyIoctl_buf D r HPP_MAPS_LIST big_buf s1 of
                  None \<Rightarrow> None
                | Some (unfinish, buf, s2) \<Rightarrow>
                    if unfinish < 0 then Some (False, [], None, s2)
                    else
                      (case parse_regions D r hProcess showPhy buf 8
                              (unat (u64_of (get_bytes 0 8 buf))) [] s2 of
                         None \<Rightarrow> None
                       | Some (out, s3) \<Rightarrow> Some (unfinish = 0, out, Some unfinish, s3)))))"

section \<open>The scan finds the runs\<close>

text \<open>The region of one run of resident pages, and what the scan's working region looks like
  inside a run.\<close>

definition run_region :: "u64 \<Rightarrow> DRIVER_REGION_INFO \<Rightarrow> nat \<times> nat \<Rightarrow> DRIVER_REGION_INFO" where
  "run_region vma_start rInfo ab =
     \<lparr>baseaddress = vma_start + word_of_nat (4096 * fst ab), r_size = word_of_nat (4096 * (snd ab - fst ab)),
       protection = protection rInfo, r_type = r_type rInfo,
       r_name = str_copy (replicate 4096 0) (r_name rInfo)\<rparr>"

lemma region_eq_iff:
  "x = y \<longleftrightarrow> baseaddress x = baseaddress y \<and> r_size x = r_size y \<and> protection x = protection y \<and>
     r_type x = r_type y \<and> r_name x = r_name y" for x y :: DRIVER_REGION_INFO
  by (cases x; cases y) auto

lemma str_copy_again:
  assumes "length (cstr src) < length dst"
  shows "str_copy (str_copy dst src) src = str_copy dst src"
  using assms by (simp add: str_copy_def put_bytes_def)

lemma str_copy_first:
  assumes "length (cstr src) < length dst"
  shows "str_copy (str_copy dst src) src = str_copy dst src \<and> length (str_copy dst src) = length dst"
  using assms by (simp add: str_copy_again) (simp add: str_copy_def)

lemma phy_scan_runs:
  assumes fit: "unat vstart + 4096 * (i + length bits) < 2 ^ 64"
    and buf: "i + length bits \<le> 8 * length isphy"
      "\<And>k. k < length bits \<Longrightarrow> bit (isphy ! ((i + k) div 8)) ((i + k) mod 8) = bits ! k"
    and nm: "length (cstr (r_name rInfo)) < 4096"
    and rp: "r_name rPhy = replicate 4096 0 \<or> r_name rPhy = str_copy (replicate 4096 0) (r_name rInfo)"
    and st: "case st of None \<Rightarrow> \<not> inr
      | Some b \<Rightarrow> inr \<and> b \<le> i \<and> baseaddress rPhy = vstart + word_of_nat (4096 * b) \<and>
          protection rPhy = protection rInfo \<and> r_type rPhy = r_type rInfo \<and>
          r_name rPhy = str_copy (replicate 4096 0) (r_name rInfo)"
    and vend: "vend = vstart + word_of_nat (4096 * (i + length bits))"
  shows "\<exists>inr' rPhy' out'.
    phy_scan isphy vend rInfo (vstart + word_of_nat (4096 * i)) i inr rPhy out =
      Some (inr', rPhy', out @ out') \<and>
    out' @ (if inr' then [rPhy'\<lparr>r_size := vend - baseaddress rPhy'\<rparr>] else []) =
      map (run_region vstart rInfo) (runs_from i st bits)"
  using assms
proof (induction bits arbitrary: i st inr rPhy out)
  case Nil
  then have "\<not> vstart + word_of_nat (4096 * i) < vend" by simp
  then have e: "phy_scan isphy vend rInfo (vstart + word_of_nat (4096 * i)) i inr rPhy out =
      Some (inr, rPhy, out)"
    by (subst phy_scan.simps) simp
  show ?case
  proof (cases st)
    case None
    with Nil.prems(6) e show ?thesis by (intro exI [of _ inr] exI [of _ rPhy] exI [of _ "[]"]) simp
  next
    case (Some b)
    with Nil.prems(6,7) e show ?thesis
      by (intro exI [of _ inr] exI [of _ rPhy] exI [of _ "[]"])
        (simp add: run_region_def region_eq_iff of_nat_diff algebra_simps)
  qed
next
  case (Cons x xs)
  let ?a = "vstart + word_of_nat (4096 * i)"
  have un: "unat (vstart + word_of_nat (4096 * m)) = unat vstart + 4096 * m"
    if "m \<le> i + length (x # xs)" for m
    by (rule unat_add_of_nat)
      (rule le_less_trans [OF add_left_mono [OF mult_le_mono2 [OF that]] Cons.prems(1)])
  have lt: "?a < vend"
    unfolding word_less_nat_alt Cons.prems(7) by (subst (1 2) un) auto
  have ib: "\<not> i div 8 \<ge> length isphy" using Cons.prems(2) by auto
  have hit: "bit (isphy ! (i div 8)) (i mod 8) = x" using Cons.prems(3) [of 0] by simp
  have nx: "?a + PAGE_SIZE = vstart + word_of_nat (4096 * (i + 1))"
    by (simp add: PAGE_SIZE_def algebra_simps)
  have pre: "unat vstart + 4096 * (i + 1 + length xs) < 2 ^ 64"
    "i + 1 + length xs \<le> 8 * length isphy" "vend = vstart + word_of_nat (4096 * (i + 1 + length xs))"
    "\<And>k. k < length xs \<Longrightarrow> bit (isphy ! ((i + 1 + k) div 8)) ((i + 1 + k) mod 8) = xs ! k"
    using Cons.prems(1,2,7) Cons.prems(3) [of "Suc _"] by (simp_all add: algebra_simps)
  note IH = Cons.IH [of "i + 1", OF pre(1,2,4) nm _ _ pre(3)]
  show ?case
  proof (cases "x")
    case True
    show ?thesis
    proof (cases st)
      case None
      with Cons.prems(6) have ni: "\<not> inr" by simp
      let ?r = "rPhy\<lparr>baseaddress := ?a, protection := protection rInfo, r_type := r_type rInfo,
        r_name := str_copy (r_name rPhy) (r_name rInfo)\<rparr>"
      have n': "r_name ?r = str_copy (replicate 4096 0) (r_name rInfo)"
        using Cons.prems(5) nm by (auto simp: str_copy_again)
      have "phy_scan isphy vend rInfo ?a i inr rPhy out =
          phy_scan isphy vend rInfo (vstart + word_of_nat (4096 * (i + 1))) (i + 1) True ?r out"
        by (subst phy_scan.simps) (simp only: lt ib hit True ni nx if_True if_False simp_thms)
      with IH [of ?r True "Some i" out] n' None True show ?thesis by simp
    next
      case (Some b)
      with Cons.prems(6) have i1: "inr" by simp
      have "phy_scan isphy vend rInfo ?a i inr rPhy out =
          phy_scan isphy vend rInfo (vstart + word_of_nat (4096 * (i + 1))) (i + 1) inr rPhy out"
        by (subst phy_scan.simps) (simp only: lt ib hit True i1 nx if_True if_False simp_thms)
      with IH [of rPhy inr "Some b" out] Some True Cons.prems(6) show ?thesis by simp
    qed
  next
    case False
    show ?thesis
    proof (cases st)
      case None
      with Cons.prems(6) have ni: "\<not> inr" by simp
      have "phy_scan isphy vend rInfo ?a i inr rPhy out =
          phy_scan isphy vend rInfo (vstart + word_of_nat (4096 * (i + 1))) (i + 1) inr rPhy out"
        by (subst phy_scan.simps) (simp only: lt ib hit False ni nx if_True if_False simp_thms)
      with IH [of rPhy inr None out] None False Cons.prems(5,6) show ?thesis by simp
    next
      case (Some b)
      with Cons.prems(6) have st': "inr" "b \<le> i" "baseaddress rPhy = vstart + word_of_nat (4096 * b)"
        "protection rPhy = protection rInfo" "r_type rPhy = r_type rInfo"
        "r_name rPhy = str_copy (replicate 4096 0) (r_name rInfo)" by simp_all
      let ?r = "rPhy\<lparr>r_size := ?a - baseaddress rPhy\<rparr>"
      have rr: "?r = run_region vstart rInfo (b, i)"
        using st' by (simp add: run_region_def region_eq_iff of_nat_diff algebra_simps)
      have "phy_scan isphy vend rInfo ?a i inr rPhy out =
          phy_scan isphy vend rInfo (vstart + word_of_nat (4096 * (i + 1))) (i + 1) False ?r (out @ [?r])"
        by (subst phy_scan.simps) (simp only: lt ib hit False st'(1) nx Let_def if_True if_False simp_thms)
      moreover from IH [of ?r False None "out @ [?r]"] st'(6) obtain inr' rPhy' out' where
        "phy_scan isphy vend rInfo (vstart + word_of_nat (4096 * (i + 1))) (i + 1) False ?r (out @ [?r]) =
          Some (inr', rPhy', (out @ [?r]) @ out')"
        "out' @ (if inr' then [rPhy'\<lparr>r_size := vend - baseaddress rPhy'\<rparr>] else []) =
          map (run_region vstart rInfo) (runs_from (i + 1) None xs)" by auto
      ultimately show ?thesis
        using Some False rr
        by (intro exI [of _ inr'] exI [of _ rPhy'] exI [of _ "?r # out'"]) simp
    qed
  qed
qed

lemma phy_regions_runs:
  assumes "unat vstart + 4096 * length bits < 2 ^ 64" "length bits \<le> 8 * length isphy"
    and "\<And>k. k < length bits \<Longrightarrow> bit (isphy ! (k div 8)) (k mod 8) = bits ! k"
    and "length (cstr (r_name rInfo)) < 4096"
    and "vend = vstart + word_of_nat (4096 * length bits)"
  shows "phy_regions isphy vstart vend rInfo out =
    Some (out @ map (run_region vstart rInfo) (runs bits))"
proof -
  obtain inr' rPhy' out' where
    "phy_scan isphy vend rInfo (vstart + word_of_nat (4096 * 0)) 0 False empty_region out =
      Some (inr', rPhy', out @ out')"
    "out' @ (if inr' then [rPhy'\<lparr>r_size := vend - baseaddress rPhy'\<rparr>] else []) =
      map (run_region vstart rInfo) (runs_from 0 None bits)"
    using phy_scan_runs [where i = 0 and st = None and inr = False and rPhy = empty_region
        and out = out and vend = vend and bits = bits and vstart = vstart and isphy = isphy
        and rInfo = rInfo] assms
    by (auto simp: empty_region_def)
  then show ?thesis by (auto simp: phy_regions_def runs_def split: if_splits)
qed

section \<open>The header in the buffer\<close>

lemma length_put_header [simp]: "17 \<le> length buf \<Longrightarrow> length (put_header h va f buf) = length buf"
  by (simp add: put_header_def)

lemma put_header_parts:
  assumes "17 \<le> length buf"
  shows "take 17 (put_header h va f buf) = build_header h va (f = 1)"
    "drop 17 (put_header h va f buf) = drop 17 buf"
  using assms by (simp_all add: put_header_def put_bytes_def build_header_def)

lemma put_whole: "length bs = length dst \<Longrightarrow> put_bytes 0 bs dst = bs"
  by (simp add: put_bytes_def)

lemma sint_ucast_small:
  assumes "unat n < 2 ^ 31"
  shows "sint (ucast n :: u32) = int (unat (n :: u64))"
proof -
  have "unat n < 2147483648" using assms by simp
  then have "int (unat n) < 2147483648" by linarith
  then have b: "0 \<le> uint n" "uint n < 2 ^ 31" by simp_all
  then have "uint (ucast n :: u32) = uint n"
    by (simp add: unsigned_ucast_eq take_bit_int_eq_self_iff)
  moreover have "signed_take_bit 31 (uint n) = uint n"
    unfolding signed_take_bit_int_eq_self_iff
  proof
    have "- (2 ^ 31) \<le> (0 :: int)" by simp
    then show "- (2 ^ 31) \<le> uint n" using b(1) by (rule order_trans)
  qed (rule b(2))
  ultimately show ?thesis by (simp add: sint_uint)
qed

lemma as_int_size_small: "unat n < 2 ^ 31 \<Longrightarrow> as_int_size n = n"
  using sint_ucast_small [of n] by (simp add: as_int_size_def scast_eq)

section \<open>A driver that reads\<close>

text \<open>
  What the client needs of \<open>read\<close>: where the target's bytes are there, a request for them is
  answered with their number, the buffer then starts with them and is otherwise untouched.
\<close>

locale read_driver =
  fixes D :: "'s drv" and fd :: int
    and content :: "'s \<Rightarrow> u64 \<Rightarrow> u64 \<Rightarrow> nat \<Rightarrow> bool \<Rightarrow> byte list option"
  assumes content_length: "content s pid va k f = Some bs \<Longrightarrow> length bs = k"
    and read_content: "content s pid va (unat n) f = Some bs \<Longrightarrow> 0 < n \<Longrightarrow> 17 \<le> length buf \<Longrightarrow>
      unat n \<le> length buf \<Longrightarrow> length buf < 2 ^ 63 \<Longrightarrow> take 17 buf = build_header pid va f \<Longrightarrow>
      \<exists>s'. os_read D fd buf n s = (int (unat n), bs @ drop (unat n) buf, s')"
begin

lemma args_ok:
  assumes "m_nDriverLink r = fd" "0 \<le> fd" "h \<noteq> 0" "va \<noteq> 0" "0 < n"
  shows "rw_args_ok r h va n"
  using assms by (auto simp: rw_args_ok_def)

lemma ReadProcessMemory_content:
  assumes "m_nDriverLink r = fd" "0 \<le> fd" "h \<noteq> 0" "va \<noteq> 0" "0 < n"
    and "length buf = unat n" "unat n < 2 ^ 63" "content s h va (unat n) (f = 1) = Some bs"
  shows "\<exists>s'. ReadProcessMemory D r h va buf n f s = (True, bs, Some (int (unat n)), s')"
proof -
  note ok = args_ok [OF assms(1-5)]
  have lb: "length bs = unat n" by (rule content_length [OF assms(8)])
  have n0: "0 < unat n" using assms(5) by (simp add: word_less_nat_alt)
  show ?thesis
  proof (cases "n < 17")
    case True
    let ?b = "put_header h va f (replicate 17 0)"
    have "\<exists>s'. os_read D fd ?b n s = (int (unat n), bs @ drop (unat n) ?b, s')"
      by (rule read_content [OF assms(8,5)])
        (use True in \<open>simp_all add: put_header_parts word_less_nat_alt del: take_all\<close>)
    then obtain s' where rd: "os_read D fd ?b n s = (int (unat n), bs @ drop (unat n) ?b, s')" ..
    have nn: "\<not> int (unat n) \<le> 0" using n0 by linarith
    have tk: "take (nat (int (unat n))) (bs @ drop (unat n) ?b) = bs"
      by (simp only: nat_int lb [symmetric]) simp
    have pw: "put_bytes 0 bs buf = bs" using lb assms(6) by (simp add: put_whole)
    show ?thesis
      unfolding ReadProcessMemory_def Let_def assms(1) rd prod.case
      by (simp only: ok True nn tk pw if_True if_False simp_thms) blast
  next
    case False
    then have l17: "17 \<le> length buf" using assms(6) by (simp add: word_less_nat_alt)
    let ?b = "put_header h va f buf"
    obtain s' where rd: "os_read D fd ?b n s = (int (unat n), bs @ drop (unat n) ?b, s')"
      using read_content [OF assms(8,5), of ?b] l17 assms(6,7) by (auto simp: put_header_parts)
    have dr: "bs @ drop (unat n) ?b = bs" using l17 assms(6) by simp
    have nn: "\<not> int (unat n) \<le> 0" using n0 by linarith
    show ?thesis
      unfolding ReadProcessMemory_def Let_def assms(1) rd prod.case dr
      by (simp only: ok False nn if_True if_False simp_thms) blast
  qed
qed

lemma ReadProcessMemory_Fast_content:
  assumes "m_nDriverLink r = fd" "0 \<le> fd" "h \<noteq> 0" "va \<noteq> 0" "0 < n"
    and "length buf = unat n" "unat n < 2 ^ 31" "content s h va (unat n) (f = 1) = Some bs"
    and "length (lastMallocReadMemBuf r) < 2 ^ 63"
  shows "\<exists>r' s'. ReadProcessMemory_Fast D r h va buf n f s =
    Some (True, bs, Some (int (unat n)), r', s')"
proof -
  note ok = args_ok [OF assms(1-5)]
  have lb: "length bs = unat n" by (rule content_length [OF assms(8)])
  have "0 < unat n" using assms(5) by (simp add: word_less_nat_alt)
  then have n0: "\<not> int (unat n) \<le> 0" by linarith
  define B where "B = (if n < 17 then 17 else n)"
  have B: "unat B = max 17 (unat n)" by (auto simp: B_def word_less_nat_alt max_def)
  have ais: "as_int_size B = B" by (rule as_int_size_small) (use B assms(7) in simp)
  have Bs: "\<not> 2 ^ 63 \<le> B" using B assms(7) by (simp add: word_le_nat_alt)
  define old where "old = (if word_of_nat (length (lastMallocReadMemBuf r)) < B
    then replicate (unat B) 0 else lastMallocReadMemBuf r)"
  have ol: "unat B \<le> length old" "length old < 2 ^ 63"
  proof -
    have "unat (word_of_nat (length (lastMallocReadMemBuf r)) :: u64) = length (lastMallocReadMemBuf r)"
      using assms(9) by (intro unat_u64_of_nat) simp
    then show "unat B \<le> length old"
      by (auto simp: old_def word_less_nat_alt not_less simp del: of_nat_less_iff)
    show "length old < 2 ^ 63" using assms(7,9) B by (auto simp: old_def)
  qed
  define Z where "Z = put_bytes 0 (replicate (unat B) 0) old"
  have Zl: "length Z = length old" using ol by (simp add: Z_def)
  have len: "17 \<le> length old" "unat n \<le> length old" using ol B by auto
  let ?b = "put_header h va f Z"
  have "\<exists>s'. os_read D fd ?b n s = (int (unat n), bs @ drop (unat n) ?b, s')"
    by (rule read_content [OF assms(8,5)]) (use len ol Zl in \<open>simp_all add: put_header_parts\<close>)
  then obtain s' where rd: "os_read D fd ?b n s = (int (unat n), bs @ drop (unat n) ?b, s')" ..
  have tk: "take (nat (int (unat n))) (bs @ drop (unat n) ?b) = bs"
    by (simp only: nat_int lb [symmetric]) simp
  have pw: "put_bytes 0 bs buf = bs" using lb assms(6) by (simp add: put_whole)
  have nl: "\<not> (length old < 17 \<or> unat n > length old)" using len by simp
  show ?thesis
    unfolding ReadProcessMemory_Fast_def Let_def B_def [symmetric] ais
    by (simp only: ok Bs old_def [symmetric] Z_def [symmetric] nl assms(1) rd prod.case n0 tk pw
        if_True if_False simp_thms) blast
qed

end

section \<open>A driver that answers residency requests\<close>

text \<open>
  The contract of the residency command: a buffer that starts with the request and is large
  enough is answered with the number of pages and overwritten from its start with the bitmap
  of \<open>residents\<close>.
\<close>

locale residency_driver =
  fixes D :: "'s drv" and fd :: int
    and residents :: "'s \<Rightarrow> u64 \<Rightarrow> u64 \<Rightarrow> u64 \<Rightarrow> (nat \<Rightarrow> bool) option"
  assumes residents_aligned: "residents s pid a b = Some f \<Longrightarrow>
      a AND (PAGE_SIZE - 1) = 0 \<and> b AND (PAGE_SIZE - 1) = 0 \<and> a < b \<and>
      unat ((b - a) div PAGE_SIZE) < 2 ^ 31"
    and residents_answer: "residents s pid a b = Some f \<Longrightarrow> 24 \<le> length buf \<Longrightarrow>
      (unat ((b - a) div PAGE_SIZE) + 7) div 8 \<le> length buf \<Longrightarrow> length buf < 2 ^ 63 \<Longrightarrow>
      take 24 buf = u64_bytes pid @ u64_bytes a @ u64_bytes b \<Longrightarrow>
      \<exists>s'. os_ioctl_buf D fd HPP_CHECK_PHY buf s = Some (int (unat ((b - a) div PAGE_SIZE)),
          put_bytes 0 (bitmap f ((unat ((b - a) div PAGE_SIZE) + 7) div 8)) buf, s') \<and>
        residents s' = residents s"
begin

lemma CheckMemAddrIsValid_bitmap:
  assumes r: "m_nDriverLink r = fd" "0 \<le> fd" "\<not> m_bUseBypassSELinuxMode r" and "h \<noteq> 0"
    and res: "residents s h a b = Some f" and N: "N = unat ((b - a) div PAGE_SIZE)"
    and new: "\<And>n. length (os_new D n) = n"
  shows "\<exists>buf s'. CheckMemAddrIsValid D r h a b s = Some (Some buf, s') \<and>
    residents s' = residents s \<and> N \<le> 8 * length buf \<and>
    (\<forall>k < N. bit (buf ! (k div 8)) (k mod 8) = f k)"
proof -
  from residents_aligned [OF res] have al: "a AND (PAGE_SIZE - 1) = 0" "b AND (PAGE_SIZE - 1) = 0" "a < b"
    and N31: "N < 2 ^ 31" by (simp_all add: N)
  note pc = page_count [OF al, folded N]
  define e where "e = ((b div PAGE_SIZE) - (a div PAGE_SIZE) + 7) div 8"
  have ue: "unat e = (N + 7) div 8"
  proof -
    have "unat (b div PAGE_SIZE) = unat a div 4096 + N"
      using pc(1) by (simp add: unat_div_distrib PAGE_SIZE_def)
    moreover have "unat (a div PAGE_SIZE) = unat a div 4096"
      by (simp add: unat_div_distrib PAGE_SIZE_def)
    ultimately have d: "unat ((b div PAGE_SIZE) - (a div PAGE_SIZE)) = N"
      by (simp add: unat_sub_if')
    then have "unat ((b div PAGE_SIZE) - (a div PAGE_SIZE) + 7) = N + 7"
      using unat_add_of_nat [of "(b div PAGE_SIZE) - (a div PAGE_SIZE)" 7] N31 by simp
    then show ?thesis by (simp add: e_def unat_div_distrib)
  qed
  have se: "sint (ucast e :: u32) = int ((N + 7) div 8)"
    using sint_ucast_small [of e] ue N31 by simp
  define L where "L = nat (max 24 (sint (ucast e :: u32)))"
  have L: "24 \<le> L" "(N + 7) div 8 \<le> L" "L < 2 ^ 63" using se N31 by (auto simp: L_def)
  define buf where "buf = put_bytes 16 (u64_bytes b) (put_bytes 8 (u64_bytes a)
    (put_bytes 0 (u64_bytes h) (os_new D L)))"
  have bl: "length buf = L" using L new by (simp add: buf_def)
  have b24: "take 24 buf = u64_bytes h @ u64_bytes a @ u64_bytes b"
    using L new by (simp add: buf_def put_bytes_def)
  from residents_answer [OF res, of buf] L bl b24 obtain s' where
    io: "os_ioctl_buf D fd HPP_CHECK_PHY buf s = Some (int N,
      put_bytes 0 (bitmap f ((N + 7) div 8)) buf, s')" "residents s' = residents s"
    unfolding N by auto
  let ?out = "put_bytes 0 (bitmap f ((N + 7) div 8)) buf"
  have "CheckMemAddrIsValid D r h a b s = Some (Some ?out, s')"
    using r(2,3) assms(4) pc(2) io(1)
    unfolding CheckMemAddrIsValid_def Let_def e_def [symmetric] L_def [symmetric] buf_def [symmetric]
      MyIoctl_buf_def r(1) by simp
  moreover have "N \<le> 8 * length ?out"
  proof -
    have "N \<le> 8 * ((N + 7) div 8)" by linarith
    also have "\<dots> \<le> 8 * length ?out" using L bl by simp
    finally show ?thesis .
  qed
  moreover have "bit (?out ! (k div 8)) (k mod 8) = f k" if k: "k < N" for k
  proof -
    have "k div 8 < (N + 7) div 8" using k by linarith
    then have "?out ! (k div 8) = bitmap f ((N + 7) div 8) ! (k div 8)"
      by (simp add: put_bytes_def nth_append)
    then show ?thesis using bitmap_bit [of k "(N + 7) div 8" f] \<open>k div 8 < (N + 7) div 8\<close> by simp
  qed
  ultimately show ?thesis using io(2) by blast
qed

end

section \<open>The driver itself as the operating system\<close>

text \<open>
  \<open>kernel_drv\<close> answers the client's calls with the driver's model: a buffer of the client is
  placed at \<open>u\<close> in its address space, the handler runs, and the buffer is read back. The C
  library turns a negative result into \<open>-1\<close>, and the result of \<open>ioctl\<close> into an \<open>int\<close>. The device
  node is the one \<open>rwmem_dev_init\<close> creates; it has no \<open>llseek\<close>.
\<close>

definition read_ret :: "int \<Rightarrow> int" where
  "read_ret r = (if - 4095 \<le> r \<and> r < 0 then - 1 else r)"

definition ioctl_ret :: "int \<Rightarrow> int" where
  "ioctl_ret r = (if - 4095 \<le> r \<and> r < 0 then - 1 else sint (word_of_int r :: u32))"

definition place :: "u64 \<Rightarrow> byte list \<Rightarrow> kst \<Rightarrow> kst" where
  "place u buf s = s\<lparr>umem := mem_write (umem s) u buf\<rparr>"

definition kernel_drv :: "u64 \<Rightarrow> ioenv \<Rightarrow> bpw drv" where
  "kernel_drv u E = \<lparr>
     os_open = (\<lambda>path w. (if path = ''/dev/rwmem'' then 3 else - 2, w)),
     os_chmod = (\<lambda>_ _ w. w), os_close = (\<lambda>_ w. w),
     os_read = (\<lambda>_ buf n w. case rwmem_read (b_k E) u n (place u buf (bk w)) of (r, k) \<Rightarrow>
       (read_ret r, mem_read (umem k) u (length buf), w\<lparr>bk := k\<rparr>)),
     os_write = (\<lambda>_ buf n w. case rwmem_write (b_k E) u n (place u buf (bk w)) of (r, k) \<Rightarrow>
       (read_ret r, w\<lparr>bk := k\<rparr>)),
     os_ioctl_buf = (\<lambda>_ cmd buf w. case rwmem_ioctl E cmd u (w\<lparr>bk := place u buf (bk w)\<rparr>) of
         None \<Rightarrow> None
       | Some (r, w') \<Rightarrow> Some (ioctl_ret r, mem_read (umem (bk w')) u (length buf), w')),
     os_ioctl_val = (\<lambda>_ cmd v w. case rwmem_ioctl E cmd v w of
         None \<Rightarrow> None | Some (r, w') \<Rightarrow> Some (ioctl_ret r, w')),
     os_lseek = (\<lambda>_ buf w. (- 1, buf, w)),
     os_new = (\<lambda>n. replicate n 0)\<rparr>"

lemma target_umem [simp]:
  "target_byte K p (s\<lparr>umem := m\<rparr>) va = target_byte K p s va"
  "target_readable K p (s\<lparr>umem := m\<rparr>) va = target_readable K p s va"
  "target_writable K p (s\<lparr>umem := m\<rparr>) va = target_writable K p s va"
  "target_phy K p (s\<lparr>umem := m\<rparr>) va = target_phy K p s va"
proof -
  have g: "get_proc_phy_addr K p va (s\<lparr>umem := m\<rparr>) =
      (fst (get_proc_phy_addr K p va s), fst (snd (get_proc_phy_addr K p va s)), s\<lparr>umem := m\<rparr>)"
    by (auto simp: get_proc_phy_addr_def get_task_proc_phy_addr_def get_mm_def mmput_def Let_def
        split_beta split: option.splits)
  show "target_byte K p (s\<lparr>umem := m\<rparr>) va = target_byte K p s va"
    by (simp add: target_byte_def g split_beta phy_total_def)
  show "target_readable K p (s\<lparr>umem := m\<rparr>) va = target_readable K p s va"
    by (simp add: target_readable_def g is_pte_can_read_def split_beta cong: option.case_cong)
  show "target_writable K p (s\<lparr>umem := m\<rparr>) va = target_writable K p s va"
    by (simp add: target_writable_def g is_pte_can_write_def split_beta)
  show "target_phy K p (s\<lparr>umem := m\<rparr>) va = target_phy K p s va"
    by (simp add: target_phy_def g)
qed

lemma check_read_umem [simp]:
  "fst (check_proc_map_can_read K p va n (get_pid q (s\<lparr>umem := m\<rparr>))) =
   fst (check_proc_map_can_read K p va n (get_pid q s))"
  "fst (check_proc_map_can_write K p va n (get_pid q (s\<lparr>umem := m\<rparr>))) =
   fst (check_proc_map_can_write K p va n (get_pid q s))"
  by (auto simp: check_proc_map_can_read_def check_proc_map_can_write_def Let_def split: option.splits)

text \<open>What the driver lets a client read: \<open>None\<close> unless the kernel behaves as documented, the
  process exists, the range passes the map check or is forced, and every byte is mapped,
  readable and in the physical range.\<close>

definition kernel_content :: "ioenv \<Rightarrow> bpw \<Rightarrow> u64 \<Rightarrow> u64 \<Rightarrow> nat \<Rightarrow> bool \<Rightarrow> byte list option" where
  "kernel_content E w pid va n force =
     (case find_get_pid (b_k E) (ucast pid) of
        None \<Rightarrow> None
      | Some p \<Rightarrow>
          if kenv_lookup_ok (b_k E) \<and> kenv_copy_ok (b_k E) \<and> n < 2 ^ 63 \<and>
             (force \<or> fst (check_proc_map_can_read (b_k E) p va (word_of_nat n) (get_pid p (bk w)))) \<and>
             (\<forall>i < n. target_byte (b_k E) p (bk w) (va + word_of_nat i) \<noteq> None \<and>
                target_readable (b_k E) p (bk w) (va + word_of_nat i))
          then Some (target_bytes (b_k E) p (bk w) va n) else None)"

lemma request_place:
  assumes "kenv_copy_ok K" "take 17 buf = build_header pid va f" "17 \<le> length buf"
    and "length buf \<le> 2 ^ 64"
  shows "request K u (place u buf s) = \<lparr>hd_pid = ucast pid, hd_addr = va, hd_force = f\<rparr>"
proof -
  have "mem_read (mem_write (umem s) u buf) u 17 = take 17 (mem_read (mem_write (umem s) u buf) u (length buf))"
    using assms(3) by (simp add: mem_read_def take_map del: mem_read_write_n)
  also have "\<dots> = build_header pid va f" using assms(2,4) by simp
  finally show ?thesis
    using assms(1)
    by (simp add: request_def copy_from_user_def kenv_copy_ok_def place_def parse_build_header)
qed

lemma mem_overwrite:
  assumes "length ys \<le> length xs"
  shows "mem_write (mem_write m a xs) a ys = mem_write m a (ys @ drop (length ys) xs)"
  using assms by (auto simp: mem_write_def nth_append)

interpretation kr: read_driver "kernel_drv u E" fd "kernel_content E" for u E fd
proof unfold_locales
  fix w pid va k f bs
  assume "kernel_content E w pid va k f = Some bs"
  then show "length bs = k"
    by (auto simp: kernel_content_def target_bytes_def split: option.splits if_splits)
next
  fix w :: bpw and pid va n :: u64 and f bs buf
  assume c: "kernel_content E w pid va (unat n) f = Some bs" and b: "17 \<le> length buf"
    "unat n \<le> length buf" "length buf < 2 ^ 63" "take 17 buf = build_header pid va f"
  let ?K = "b_k E"
  from c obtain p where p: "find_get_pid ?K (ucast pid) = Some p"
    and K: "kenv_lookup_ok ?K" "kenv_copy_ok ?K" and n63: "unat n < 2 ^ 63"
    and chk: "f \<or> fst (check_proc_map_can_read ?K p va n (get_pid p (bk w)))"
    and acc: "\<forall>i < unat n. target_byte ?K p (bk w) (va + word_of_nat i) \<noteq> None"
      "\<forall>i < unat n. target_readable ?K p (bk w) (va + word_of_nat i)"
    and bs: "bs = target_bytes ?K p (bk w) va (unat n)"
    by (auto simp: kernel_content_def split: option.splits if_splits)
  let ?s = "place u buf (bk w)"
  have rq: "request ?K u ?s = \<lparr>hd_pid = ucast pid, hd_addr = va, hd_force = f\<rparr>"
    by (rule request_place [OF K(2) b(4,1)]) (use b(3) in simp)
  have n': "n < 2 ^ 63" using n63 by (simp add: word_less_nat_alt)
  have bs': "target_bytes ?K p ?s va (unat n) = bs" by (simp add: bs target_bytes_def place_def)
  have R: "fst (rwmem_read ?K u n ?s) = uint n \<and>
      umem (snd (rwmem_read ?K u n ?s)) = mem_write (umem ?s) u bs"
    using rwmem_read_ok [OF K, of u ?s p n] p chk acc n'
    by (simp add: rq bs' target_accessible_def) (simp add: place_def)
  have lb: "length bs = unat n" by (simp add: bs target_bytes_def)
  have um: "mem_write (umem ?s) u bs = mem_write (umem (bk w)) u (bs @ drop (unat n) buf)"
    using mem_overwrite [of bs buf "umem (bk w)" u] lb b(2) by (simp add: place_def)
  have rd: "mem_read (mem_write (umem (bk w)) u (bs @ drop (unat n) buf)) u (length buf) =
      bs @ drop (unat n) buf"
    by (rule mem_read_write_n) (use lb b(2,3) in auto)
  show "\<exists>s'. os_read (kernel_drv u E) fd buf n w = (int (unat n), bs @ drop (unat n) buf, s')"
    using R by (simp add: kernel_drv_def split_beta um rd read_ret_def)
qed

section \<open>A driver that writes\<close>

locale write_driver =
  fixes D :: "'s drv" and fd :: int
    and writable :: "'s \<Rightarrow> u64 \<Rightarrow> u64 \<Rightarrow> nat \<Rightarrow> bool \<Rightarrow> bool"
    and stored :: "'s \<Rightarrow> u64 \<Rightarrow> u64 \<Rightarrow> byte list \<Rightarrow> 's \<Rightarrow> bool"
  assumes write_stores: "writable s pid va (unat n) f \<Longrightarrow> 0 < n \<Longrightarrow> 17 + unat n \<le> length buf \<Longrightarrow>
      length buf < 2 ^ 63 \<Longrightarrow> take 17 buf = build_header pid va f \<Longrightarrow>
      \<exists>s'. os_write D fd buf n s = (int (unat n), s') \<and>
        stored s pid va (take (unat n) (drop 17 buf)) s'"
begin

lemma WriteProcessMemory_stores:
  assumes "m_nDriverLink r = fd" "0 \<le> fd" "h \<noteq> 0" "va \<noteq> 0" "0 < n"
    and "length data = unat n" "unat n + 17 < 2 ^ 31" "writable s h va (unat n) (f = 1)"
  shows "\<exists>s'. WriteProcessMemory D r h va data n f s = Some (True, Some (int (unat n)), s') \<and>
    stored s h va data s'"
proof -
  have ok: "rw_args_ok r h va n" using assms(1-5) by (auto simp: rw_args_ok_def)
  have "0 < unat n" using assms(5) by (simp add: word_less_nat_alt)
  then have n0: "\<not> int (unat n) \<le> 0" by linarith
  have un: "unat (n + 17) = unat n + 17"
    using unat_add_of_nat [of n 17] assms(7) by simp
  have ais: "as_int_size (n + 17) = n + 17" by (rule as_int_size_small) (use un assms(7) in simp)
  have g: "\<not> (n + 17 \<ge> 2 ^ 63 \<or> unat (n + 17) < 17 + unat n)"
    using un assms(7) by (simp add: word_le_nat_alt)
  define b where "b = put_bytes 17 (take (unat n) data)
    (put_header h va f (replicate (unat (n + 17)) 0))"
  have lb: "length b = unat n + 17" using un assms(6) by (simp add: b_def)
  have lh: "length (put_header h va f (replicate (unat (n + 17)) 0)) = unat n + 17" using un by simp
  have b1: "take 17 b = build_header h va (f = 1)" and b2: "take (unat n) (drop 17 b) = data"
    using lh assms(6) un by (simp_all add: b_def put_bytes_def put_header_parts)
  from write_stores [OF assms(8,5), of b] lb b1 assms(7) obtain s' where
    w: "os_write D fd b n s = (int (unat n), s')" "stored s h va (take (unat n) (drop 17 b)) s'"
    by auto
  show ?thesis
    unfolding WriteProcessMemory_def Let_def ais b_def [symmetric] assms(1) w(1) prod.case
    using w(2) unfolding b2 by (simp only: ok g n0 if_True if_False simp_thms) blast
qed

end

definition kernel_writable :: "ioenv \<Rightarrow> bpw \<Rightarrow> u64 \<Rightarrow> u64 \<Rightarrow> nat \<Rightarrow> bool \<Rightarrow> bool" where
  "kernel_writable E w pid va n force \<longleftrightarrow>
     (case find_get_pid (b_k E) (ucast pid) of
        None \<Rightarrow> False
      | Some p \<Rightarrow>
          kenv_lookup_ok (b_k E) \<and> kenv_copy_ok (b_k E) \<and> n < 2 ^ 63 \<and>
          (force \<or> fst (check_proc_map_can_write (b_k E) p va (word_of_nat n) (get_pid p (bk w)))) \<and>
          (\<forall>i < n. target_byte (b_k E) p (bk w) (va + word_of_nat i) \<noteq> None \<and>
             target_writable (b_k E) p (bk w) (va + word_of_nat i)) \<and>
          inj_on (\<lambda>i. target_phy (b_k E) p (bk w) (va + word_of_nat i)) {..<n})"

text \<open>The bytes lie at the places the range translates to, and nothing else of physical memory
  and of the page tables has changed.\<close>

definition kernel_stored :: "ioenv \<Rightarrow> bpw \<Rightarrow> u64 \<Rightarrow> u64 \<Rightarrow> byte list \<Rightarrow> bpw \<Rightarrow> bool" where
  "kernel_stored E w pid va data w' \<longleftrightarrow>
     (\<exists>p. find_get_pid (b_k E) (ucast pid) = Some p \<and>
       (\<forall>i < length data. phys (bk w') (target_phy (b_k E) p (bk w) (va + word_of_nat i)) = data ! i) \<and>
       (\<forall>x. (\<forall>i < length data. x \<noteq> target_phy (b_k E) p (bk w) (va + word_of_nat i)) \<longrightarrow>
          phys (bk w') x = phys (bk w) x) \<and>
       ptab (bk w') = ptab (bk w))"

interpretation kw: write_driver "kernel_drv u E" fd "kernel_writable E" "kernel_stored E" for u E fd
proof unfold_locales
  fix w :: bpw and pid va n :: u64 and f buf
  assume c: "kernel_writable E w pid va (unat n) f" and b: "17 + unat n \<le> length buf"
    "length buf < 2 ^ 63" "take 17 buf = build_header pid va f"
  let ?K = "b_k E"
  from c obtain p where p: "find_get_pid ?K (ucast pid) = Some p"
    and K: "kenv_lookup_ok ?K" "kenv_copy_ok ?K" and n63: "unat n < 2 ^ 63"
    and chk: "f \<or> fst (check_proc_map_can_write ?K p va n (get_pid p (bk w)))"
    and acc: "\<forall>i < unat n. target_byte ?K p (bk w) (va + word_of_nat i) \<noteq> None"
      "\<forall>i < unat n. target_writable ?K p (bk w) (va + word_of_nat i)"
      "inj_on (\<lambda>i. target_phy ?K p (bk w) (va + word_of_nat i)) {..<unat n}"
    by (auto simp: kernel_writable_def split: option.splits)
  let ?s = "place u buf (bk w)"
  have rq: "request ?K u ?s = \<lparr>hd_pid = ucast pid, hd_addr = va, hd_force = f\<rparr>"
    by (rule request_place [OF K(2) b(3)]) (use b(1,2) in simp_all)
  have n': "n < 2 ^ 63" using n63 by (simp add: word_less_nat_alt)
  have R: "fst (rwmem_write ?K u n ?s) = uint n \<and>
      wrote ?K p ?s va (u + 17) (unat n) (phys (snd (rwmem_write ?K u n ?s))) \<and>
      ptab (snd (rwmem_write ?K u n ?s)) = ptab ?s"
    using rwmem_write_ok [OF K, of u ?s p n] p chk acc n'
    by (simp add: rq [unfolded place_def] target_accessible_def place_def)
  have um: "umem ?s (u + 17 + word_of_nat i) = buf ! (17 + i)" if "i < unat n" for i
  proof -
    have e: "u + 17 + word_of_nat i - u = word_of_nat (17 + i)" by simp
    have "unat (word_of_nat (17 + i) :: u64) = 17 + i"
      by (rule unat_u64_of_nat) (use that b(1,2) in simp)
    then show ?thesis using that b(1) by (simp add: place_def mem_write_def e del: of_nat_add)
  qed
  have "kernel_stored E w pid va (take (unat n) (drop 17 buf))
      (w\<lparr>bk := snd (rwmem_write ?K u n ?s)\<rparr>)"
    using R p b(1) um by (auto simp: kernel_stored_def wrote_def place_def min_def)
  moreover have "os_write (kernel_drv u E) fd buf n w =
      (int (unat n), w\<lparr>bk := snd (rwmem_write ?K u n ?s)\<rparr>)"
    using R by (simp add: kernel_drv_def split_beta read_ret_def)
  ultimately show "\<exists>s'. os_write (kernel_drv u E) fd buf n w = (int (unat n), s') \<and>
      kernel_stored E w pid va (take (unat n) (drop 17 buf)) s'" by blast
qed

section \<open>The residency command of the driver\<close>

definition kernel_residents :: "ioenv \<Rightarrow> bpw \<Rightarrow> u64 \<Rightarrow> u64 \<Rightarrow> u64 \<Rightarrow> (nat \<Rightarrow> bool) option" where
  "kernel_residents E w pid a b =
     (case find_get_pid (b_k E) (ucast pid) of
        None \<Rightarrow> None
      | Some p \<Rightarrow>
          (case pid_task (b_k E) p of
             None \<Rightarrow> None
           | Some task \<Rightarrow>
               if kenv_copy_ok (b_k E) \<and> a AND (PAGE_SIZE - 1) = 0 \<and> b AND (PAGE_SIZE - 1) = 0 \<and>
                  a < b \<and> unat ((b - a) div PAGE_SIZE) < 2 ^ 31
               then Some (\<lambda>k. k < unat ((b - a) div PAGE_SIZE) \<and>
                 resident (b_k E) task (bk w) (a + word_of_nat (4096 * k)))
               else None))"

lemma le_bytes_append: "le_bytes (a + b) x = le_bytes a x @ le_bytes b (x div 256 ^ a)"
  by (induction a arbitrary: x) (simp_all add: div_mult2_eq)

lemma le_bytes_mod: "le_bytes n (x mod 256 ^ n) = le_bytes n x"
proof (induction n arbitrary: x)
  case (Suc n)
  have "word_of_nat (x mod 256 ^ Suc n) = (word_of_nat x :: byte)"
  proof -
    have "x mod 256 ^ Suc n mod 256 = x mod 256" by (simp add: mod_mod_cancel)
    then show ?thesis by (metis unat_byte_of_nat word_unat_eq_iff)
  qed
  moreover have "x mod 256 ^ Suc n div 256 = x div 256 mod 256 ^ n"
    by (simp add: mod_mult2_eq)
  ultimately show ?case using Suc by simp
qed simp

lemma u64_bytes_split: "\<exists>pad. u64_bytes w = u32_bytes (ucast w) @ pad \<and> length pad = 4"
proof (intro exI conjI)
  have "unat (ucast w :: u32) = unat w mod 256 ^ 4"
    by (simp add: unsigned_ucast_eq take_bit_eq_mod)
  then have "u32_bytes (ucast w) = le_bytes 4 (unat w)"
    by (simp only: u32_bytes_def le_bytes_mod)
  moreover have "u64_bytes w = le_bytes 4 (unat w) @ le_bytes 4 (unat w div 256 ^ 4)"
    unfolding u64_bytes_def using le_bytes_append [of 4 4 "unat w"] by simp
  ultimately show "u64_bytes w = u32_bytes (ucast w) @ le_bytes 4 (unat w div 256 ^ 4)" by simp
qed simp

lemma hpp_check_phy: "HPP_CHECK_PHY = IOCTL_CHECK_PROCESS_ADDR_PHY"
  by (simp add: HPP_CHECK_PHY_def IOCTL_CHECK_PROCESS_ADDR_PHY_def RWMEM_MAJOR_NUM_def)

lemma rwmem_ioctl_check:
  "rwmem_ioctl E IOCTL_CHECK_PROCESS_ADDR_PHY arg w = on_kst (ioctl_check_phy (b_k E) arg) w"
  by (simp add: rwmem_ioctl_def rwmem_cmd_values)

lemma ioctl_ret_small: "N < 2 ^ 31 \<Longrightarrow> ioctl_ret (int N) = int N"
proof -
  assume N: "N < 2 ^ 31"
  then have "unat (word_of_nat N :: u64) = N" by (intro unat_u64_of_nat) simp
  with N sint_ucast_small [of "word_of_nat N"] have
    "sint (ucast (word_of_nat N :: u64) :: u32) = int N" by simp
  moreover have "(ucast (word_of_nat N :: u64) :: u32) = word_of_int (int N)"
    by (simp add: word_unat_eq_iff unsigned_ucast_eq unsigned_of_nat)
  ultimately show ?thesis by (simp add: ioctl_ret_def)
qed

interpretation krs: residency_driver "kernel_drv u E" fd "kernel_residents E" for u E fd
proof unfold_locales
  fix w pid a b f
  assume "kernel_residents E w pid a b = Some f"
  then show "a AND (PAGE_SIZE - 1) = 0 \<and> b AND (PAGE_SIZE - 1) = 0 \<and> a < b \<and>
      unat ((b - a) div PAGE_SIZE) < 2 ^ 31"
    by (auto simp: kernel_residents_def split: option.splits if_splits)
next
  fix w :: bpw and pid a b :: u64 and f buf
  assume c: "kernel_residents E w pid a b = Some f" and bf: "24 \<le> length buf"
    "(unat ((b - a) div PAGE_SIZE) + 7) div 8 \<le> length buf" "length buf < 2 ^ 63"
    "take 24 buf = u64_bytes pid @ u64_bytes a @ u64_bytes b"
  let ?K = "b_k E"
  define n where "n = unat ((b - a) div PAGE_SIZE)"
  let ?s = "place u buf (bk w)"
  from c obtain p task where p: "find_get_pid ?K (ucast pid) = Some p" "pid_task ?K p = Some task"
    and K: "kenv_copy_ok ?K" and al: "a AND (PAGE_SIZE - 1) = 0" "b AND (PAGE_SIZE - 1) = 0" "a < b"
    and N: "n < 2 ^ 31"
    and f: "f = (\<lambda>k. k < n \<and> resident ?K task (bk w) (a + word_of_nat (4096 * k)))"
    by (auto simp: kernel_residents_def n_def split: option.splits if_splits)
  obtain pad where pad: "u64_bytes pid = u32_bytes (ucast pid) @ pad" "length pad = 4"
    using u64_bytes_split by blast
  have "mem_read (umem ?s) u 24 = take 24 (mem_read (umem ?s) u (length buf))"
    using bf(1) by (simp add: mem_read_def take_map place_def)
  also have "\<dots> = u32_bytes (ucast pid) @ pad @ u64_bytes a @ u64_bytes b"
    using bf(3,4) pad by (simp add: place_def)
  finally have req: "mem_read (umem ?s) u 24 = u32_bytes (ucast pid) @ pad @ u64_bytes a @ u64_bytes b" .
  let ?B = "bitmap f ((n + 7) div 8)"
  have R: "ioctl_check_phy ?K u ?s = Some (int n, ?s\<lparr>umem := mem_write (umem ?s) u ?B\<rparr>)"
    using ioctl_check_phy_ok [OF K req pad(2) al p n_def] by (simp add: f n_def place_def)
  have le: "length ?B \<le> length buf" using bf(2) by (simp flip: n_def)
  have um: "mem_write (umem ?s) u ?B = mem_write (umem (bk w)) u (?B @ drop (length ?B) buf)"
    using mem_overwrite [OF le, of "umem (bk w)" u] by (simp add: place_def)
  have rd: "mem_read (mem_write (umem (bk w)) u (?B @ drop (length ?B) buf)) u (length buf) =
      put_bytes 0 ?B buf"
    using le bf(3) by (simp add: put_bytes_def)
  let ?w' = "w\<lparr>bk := ?s\<lparr>umem := mem_write (umem ?s) u ?B\<rparr>\<rparr>"
  have "os_ioctl_buf (kernel_drv u E) fd HPP_CHECK_PHY buf w = Some (int n, put_bytes 0 ?B buf, ?w')"
    using um rd
    by (simp add: kernel_drv_def hpp_check_phy rwmem_ioctl_check on_kst_def R ioctl_ret_small [OF N])
  moreover have "resident ?K t (bk ?w') va = resident ?K t (bk w) va" for t va
    by (simp add: place_def)
  then have "kernel_residents E ?w' = kernel_residents E w"
    by (intro ext) (simp only: kernel_residents_def)
  ultimately show "\<exists>s'. os_ioctl_buf (kernel_drv u E) fd HPP_CHECK_PHY buf w =
      Some (int (unat ((b - a) div PAGE_SIZE)),
        put_bytes 0 (bitmap f ((unat ((b - a) div PAGE_SIZE) + 7) div 8)) buf, s') \<and>
      kernel_residents E s' = kernel_residents E w"
    unfolding n_def by blast
qed

section \<open>The list the driver serialises, as the client reads it\<close>

text \<open>The region of a mapping: its protection and type from the kernel's flags, its name in an
  array of 4096 bytes.\<close>

definition vma_protection :: "vma \<Rightarrow> u32" where
  "vma_protection v =
     (if vm_flags v AND VM_EXEC \<noteq> 0 then
        (if vm_flags v AND VM_WRITE \<noteq> 0 then PAGE_EXECUTE_READWRITE else PAGE_EXECUTE_READ)
      else if vm_flags v AND VM_WRITE \<noteq> 0 then PAGE_READWRITE
      else if vm_flags v AND VM_READ \<noteq> 0 then PAGE_READONLY else PAGE_NOACCESS)"

definition vma_region :: "kenv \<Rightarrow> mm \<Rightarrow> vma \<Rightarrow> DRIVER_REGION_INFO" where
  "vma_region K m v = \<lparr>baseaddress = vm_start v, r_size = vm_end v - vm_start v,
     protection = vma_protection v,
     r_type = (if vm_flags v AND VM_MAYSHARE \<noteq> 0 then MEM_MAPPED else MEM_PRIVATE),
     r_name = the (maps_name K m v) @ replicate (4096 - length (the (maps_name K m v))) 0\<rparr>"

lemma maps_flags_decode:
  "decode_protection (maps_flags v) = vma_protection v"
  "decode_type (maps_flags v) = (if vm_flags v AND VM_MAYSHARE \<noteq> 0 then MEM_MAPPED else MEM_PRIVATE)"
  by (simp_all add: decode_protection_def decode_type_def maps_flags_def flag_byte_def
      vma_protection_def)

lemma parse_kernel_record:
  assumes "maps_name K m v = Some name"
  shows "parse_region (vma_record K m 512 v) = (vm_start v, vm_end v, vma_region K m v)"
proof -
  have l: "length name < 512" using maps_name_length [OF assms] by (simp add: MY_PATH_MAX_LEN_def)
  have "get_bytes 20 512 (vma_record K m 512 v) =
      take 511 (name @ replicate (512 - length name) 0) @ [0]"
    using l by (simp add: vma_record_def get_bytes_def assms MY_PATH_MAX_LEN_def)
  also have "\<dots> = name @ replicate (512 - length name) 0"
  proof -
    have "512 - length name = Suc (511 - length name)" using l by simp
    then have "replicate (512 - length name) (0::byte) = replicate (511 - length name) 0 @ [0]"
      by (simp only: replicate_Suc replicate_append_same)
    then show ?thesis using l by simp
  qed
  finally have nm: "get_bytes 20 512 (vma_record K m 512 v) = name @ replicate (512 - length name) 0" .
  have upd: "(name @ replicate (512 - length name) 0)[511 := 0] = name @ replicate (512 - length name) (0::byte)"
    using l by (simp add: list_update_same_conv nth_append)
  have upd2: "(put_bytes 0 (name @ replicate (512 - length name) 0) (replicate 4096 0))[4095 := 0] =
      name @ replicate (4096 - length name) (0::byte)"
  proof -
    have "put_bytes 0 (name @ replicate (512 - length name) 0) (replicate 4096 0) =
        name @ replicate (4096 - length name) (0::byte)"
      using l by (simp add: put_bytes_def replicate_add [symmetric])
    then show ?thesis using l by (simp add: list_update_same_conv nth_append)
  qed
  have 1: "get_bytes 0 8 (vma_record K m 512 v) = u64_bytes (vm_start v)"
    "get_bytes 8 8 (vma_record K m 512 v) = u64_bytes (vm_end v)"
    "get_bytes 16 4 (vma_record K m 512 v) = maps_flags v"
    by (simp_all add: vma_record_def get_bytes_def)
  show ?thesis
    unfolding parse_region_def Let_def 1 nm upd upd2
    by (simp add: maps_flags_decode vma_region_def assms empty_region_def)
qed

text \<open>A list of records in the buffer, read record by record.\<close>

lemma record_at:
  assumes "\<forall>x \<in> set recs. length x = 532" "i < length recs"
  shows "get_bytes (length pre + 532 * i) 532 (pre @ concat recs @ post) = recs ! i"
    "length pre + 532 * i + 532 \<le> length (pre @ concat recs @ post)"
proof -
  have len: "length (concat ys) = 532 * length ys" if "\<forall>x \<in> set ys. length x = 532" for ys :: "byte list list"
    using that by (induction ys) auto
  have sp: "concat recs = concat (take i recs) @ recs ! i @ concat (drop (Suc i) recs)"
    using assms(2) by (metis append_assoc concat.simps(2) concat_append id_take_nth_drop)
  have l1: "length (concat (take i recs)) = 532 * i"
    using assms len [of "take i recs"] by (auto dest: in_set_takeD)
  have l2: "length (recs ! i) = 532" using assms by simp
  show "get_bytes (length pre + 532 * i) 532 (pre @ concat recs @ post) = recs ! i"
    unfolding sp using l1 l2 by (simp add: get_bytes_def)
  show "length pre + 532 * i + 532 \<le> length (pre @ concat recs @ post)"
    using assms len [of recs] by simp
qed

lemma parse_regions_all:
  assumes "\<And>j. j < n \<Longrightarrow> pos + 532 * j + 532 \<le> length buf"
    and "\<And>j. j < n \<Longrightarrow> parse_region (get_bytes (pos + 532 * j) 532 buf) = (a j, b j, info j)"
  shows "parse_regions D r h False buf pos n out s = Some (out @ map info [0..<n], s)"
  using assms
proof (induction n arbitrary: pos a b info out)
  case (Suc n)
  have p: "parse_region (get_bytes pos 532 buf) = (a 0, b 0, info 0)" using Suc.prems(2) [of 0] by simp
  have "parse_regions D r h False buf (pos + 532) n (out @ [info 0]) s =
      Some ((out @ [info 0]) @ map (info \<circ> Suc) [0..<n], s)"
    by (rule Suc.IH [where a = "a \<circ> Suc" and b = "b \<circ> Suc"])
      (use Suc.prems(1) [of "Suc _"] Suc.prems(2) [of "Suc _"] in \<open>simp_all add: add.assoc add.commute\<close>)
  moreover have "map info [0..<Suc n] = info 0 # map (info \<circ> Suc) [0..<n]"
    by (simp add: upt_conv_Cons map_Suc_upt del: upt_Suc flip: map_map)
  ultimately show ?case using Suc.prems(1) [of 0] p by simp
qed simp

context residency_driver
begin

lemma parse_regions_resident:
  assumes r: "m_nDriverLink r = fd" "0 \<le> fd" "\<not> m_bUseBypassSELinuxMode r" and "h \<noteq> 0"
    and new: "\<And>n. length (os_new D n) = n"
    and "\<And>j. j < n \<Longrightarrow> pos + 532 * j + 532 \<le> length buf"
    and "\<And>j. j < n \<Longrightarrow> parse_region (get_bytes (pos + 532 * j) 532 buf) = (a j, b j, info j)"
    and "\<And>j. j < n \<Longrightarrow> residents s h (a j) (b j) = Some (f j)"
    and "\<And>j. j < n \<Longrightarrow> length (cstr (r_name (info j))) < 4096"
  shows "\<exists>s'. parse_regions D r h True buf pos n out s =
    Some (out @ concat (map (\<lambda>j. map (run_region (a j) (info j))
      (runs (map (f j) [0..<unat ((b j - a j) div PAGE_SIZE)]))) [0..<n]), s')"
  using assms(6-9)
proof (induction n arbitrary: pos a b info f out s)
  case (Suc n)
  let ?N = "unat ((b 0 - a 0) div PAGE_SIZE)"
  have p: "parse_region (get_bytes pos 532 buf) = (a 0, b 0, info 0)" using Suc.prems(2) [of 0] by simp
  have res: "residents s h (a 0) (b 0) = Some (f 0)" using Suc.prems(3) [of 0] by simp
  from CheckMemAddrIsValid_bitmap [OF r assms(4) res refl new] obtain bm s1 where
    ck: "CheckMemAddrIsValid D r h (a 0) (b 0) s = Some (Some bm, s1)" "residents s1 = residents s"
    "?N \<le> 8 * length bm" "\<forall>k < ?N. bit (bm ! (k div 8)) (k mod 8) = f 0 k" by blast
  from residents_aligned [OF res] have al: "a 0 AND (PAGE_SIZE - 1) = 0" "b 0 AND (PAGE_SIZE - 1) = 0"
    "a 0 < b 0" by simp_all
  note pc = page_count [OF al]
  have reg: "phy_regions bm (a 0) (b 0) (info 0) out =
      Some (out @ map (run_region (a 0) (info 0)) (runs (map (f 0) [0..<?N])))"
    by (rule phy_regions_runs)
      (use ck pc(1,4) Suc.prems(4) [of 0] unat_bound [of "b 0"] in simp_all)
  let ?out = "out @ map (run_region (a 0) (info 0)) (runs (map (f 0) [0..<?N]))"
  have "\<exists>s'. parse_regions D r h True buf (pos + 532) n ?out s1 =
    Some (?out @ concat (map (\<lambda>j. map (run_region ((a \<circ> Suc) j) ((info \<circ> Suc) j))
      (runs (map ((f \<circ> Suc) j) [0..<unat (((b \<circ> Suc) j - (a \<circ> Suc) j) div PAGE_SIZE)]))) [0..<n]), s')"
    by (rule Suc.IH)
      (use Suc.prems(1) [of "Suc _"] Suc.prems(2) [of "Suc _"] Suc.prems(3) [of "Suc _"]
        Suc.prems(4) [of "Suc _"] ck(2) in \<open>simp_all add: add.assoc add.commute\<close>)
  moreover have "map g [0..<Suc n] = g 0 # map (\<lambda>j. g (Suc j)) [0..<n]" for g :: "nat \<Rightarrow> DRIVER_REGION_INFO list"
    by (simp add: upt_conv_Cons map_Suc_upt del: upt_Suc flip: map_map [unfolded comp_def])
  ultimately show ?case using Suc.prems(1) [of 0] p ck(1) reg by (simp del: upt_Suc)
qed simp

end

section \<open>Properties of the client on the driver\<close>

text \<open>Through the driver the client reads exactly the target's bytes: for every length, below
  and above the 17 bytes of the request header, both read calls succeed, return the length
  and fill the caller's buffer with the bytes at the requested addresses.\<close>

theorem client_reads_target:
  assumes "0 \<le> m_nDriverLink r" "h \<noteq> 0" "va \<noteq> 0" "0 < n" "unat n < 2 ^ 31" "length buf = unat n"
    and "length (lastMallocReadMemBuf r) < 2 ^ 63"
    and "kernel_content E w h va (unat n) (f = 1) = Some bs"
  shows "(\<exists>w'. ReadProcessMemory (kernel_drv u E) r h va buf n f w =
      (True, bs, Some (int (unat n)), w')) \<and>
    (\<exists>r' w'. ReadProcessMemory_Fast (kernel_drv u E) r h va buf n f w =
      Some (True, bs, Some (int (unat n)), r', w'))"
proof -
  have "unat n < 2 ^ 63" using assms(5) by simp
  then show ?thesis
    using kr.ReadProcessMemory_content [OF refl assms(1-4,6) _ assms(8)]
      kr.ReadProcessMemory_Fast_content [OF refl assms(1-4,6,5,8,7)] by blast
qed

lemma demo_kernel_bytes:
  assumes "va \<in> {0x10ffe, 0x10fff, 0x11000, 0x11001}"
  shows "target_byte demo_env 3 demo_kst va =
      Some (if va = 0x10ffe then 0xfe else if va = 0x10fff then 0xff
        else if va = 0x11000 then 0 else 1)"
    "target_readable demo_env 3 demo_kst va" "target_writable demo_env 3 demo_kst va"
    "target_phy demo_env 3 demo_kst va =
      (if va = 0x10ffe then 0x5ffe else if va = 0x10fff then 0x5fff
        else if va = 0x11000 then 0x9000 else 0x9001)"
  using demo_byte [OF assms, of False 0] by (simp_all add: demo_request_def)

definition demo_reader :: reader where "demo_reader = new_reader\<lparr>m_nDriverLink := 3\<rparr>"

lemma demo_content:
  "kernel_content (demo_ioenv pe) demo_bp0 7 0x10ffe 4 False = Some [0xfe, 0xff, 0, 1]"
proof -
  have c: "fst (check_proc_map_can_read demo_env 3 0x10ffe 4 (get_pid 3 (bk demo_bp0)))"
    using demo_check(1) [of False 0] by (simp add: demo_bp0_def demo_request_def)
  have "\<forall>i < 4. target_byte demo_env 3 (bk demo_bp0) (0x10ffe + word_of_nat i) \<noteq> None \<and>
      target_readable demo_env 3 (bk demo_bp0) (0x10ffe + word_of_nat i)"
    by (auto simp: demo_bp0_def demo_kernel_bytes dest!: less_four)
  moreover have "target_bytes demo_env 3 (bk demo_bp0) 0x10ffe 4 = [0xfe, 0xff, 0, 1]"
    by (simp add: target_bytes_def demo_bp0_def demo_kernel_bytes upt_rec)
  ultimately show ?thesis using c
    by (simp add: kernel_content_def demo_ioenv_sel demo_lookup_ok demo_copy_ok)
qed

theorem client_reads_target_witness:
  "\<exists>w'. ReadProcessMemory (kernel_drv 0x1000 (demo_ioenv (Inr 0))) demo_reader 7 0x10ffe
    [0, 0, 0, 0] 4 0 demo_bp0 = (True, [0xfe, 0xff, 0, 1], Some 4, w')"
proof -
  have "kernel_content (demo_ioenv (Inr 0)) demo_bp0 7 0x10ffe (unat (4::u64)) ((0::int) = 1) =
      Some [0xfe, 0xff, 0, 1]" using demo_content by simp
  from client_reads_target [OF _ _ _ _ _ _ _ this, of demo_reader "[0, 0, 0, 0]" "0x1000"]
  show ?thesis by (simp add: demo_reader_def new_reader_def)
qed

lemma demo_writable: "kernel_writable (demo_ioenv (Inr 0)) demo_bp0 7 0x10ffe 4 False"
proof -
  have c: "fst (check_proc_map_can_write demo_env 3 0x10ffe 4 (get_pid 3 (bk demo_bp0)))"
    using demo_check(2) [of False 0] by (simp add: demo_bp0_def demo_request_def)
  have "\<forall>i < 4. target_byte demo_env 3 (bk demo_bp0) (0x10ffe + word_of_nat i) \<noteq> None \<and>
      target_writable demo_env 3 (bk demo_bp0) (0x10ffe + word_of_nat i)"
    by (auto simp: demo_bp0_def demo_kernel_bytes dest!: less_four)
  moreover have "inj_on (\<lambda>i. target_phy demo_env 3 (bk demo_bp0) (0x10ffe + word_of_nat i)) {..<4}"
    by (auto simp: inj_on_def demo_bp0_def demo_kernel_bytes dest!: less_four)
  ultimately show ?thesis
    using c by (simp add: kernel_writable_def demo_ioenv_sel demo_lookup_ok demo_copy_ok)
qed

text \<open>Through the driver the client's write puts its bytes at the places the target's range
  translates to, reports their number, and changes no other byte of physical memory and no
  page-table entry.\<close>

theorem client_writes_target:
  assumes "0 \<le> m_nDriverLink r" "h \<noteq> 0" "va \<noteq> 0" "0 < n" "length data = unat n"
    and "unat n + 17 < 2 ^ 31" "kernel_writable E w h va (unat n) (f = 1)"
  shows "\<exists>w'. WriteProcessMemory (kernel_drv u E) r h va data n f w =
      Some (True, Some (int (unat n)), w') \<and> kernel_stored E w h va data w'"
  by (rule kw.WriteProcessMemory_stores [OF refl assms])

theorem client_writes_target_witness:
  "\<exists>w'. WriteProcessMemory (kernel_drv 0x1000 (demo_ioenv (Inr 0))) demo_reader 7 0x10ffe
    [1, 2, 3, 4] 4 0 demo_bp0 = Some (True, Some 4, w') \<and>
    kernel_stored (demo_ioenv (Inr 0)) demo_bp0 7 0x10ffe [1, 2, 3, 4] w'"
proof -
  have "kernel_writable (demo_ioenv (Inr 0)) demo_bp0 7 0x10ffe (unat (4::u64)) ((0::int) = 1)"
    using demo_writable by simp
  from client_writes_target [OF _ _ _ _ _ _ this, of demo_reader "[1, 2, 3, 4]" "0x1000"]
  show ?thesis by (simp add: demo_reader_def new_reader_def)
qed

lemma client_list_parses:
  assumes "\<forall>v \<in> set vs. maps_name K m v \<noteq> None"
  shows "parse_regions D r h False (pre @ concat (map (vma_record K m 512) vs) @ post) (length pre)
    (length vs) out s = Some (out @ map (vma_region K m) vs, s)"
proof -
  let ?recs = "map (vma_record K m 512) vs"
  have "length (vma_record K m 512 v) = 20 + 512" if "v \<in> set vs" for v
    by (rule length_vma_record) (use assms that in \<open>auto simp: MY_PATH_MAX_LEN_def\<close>)
  then have l: "\<forall>x \<in> set ?recs. length x = 532" by simp
  have "parse_regions D r h False (pre @ concat ?recs @ post) (length pre) (length vs) out s =
      Some (out @ map (\<lambda>j. vma_region K m (vs ! j)) [0..<length vs], s)"
  proof (rule parse_regions_all)
    fix j assume j: "j < length vs"
    then have j': "j < length ?recs" by simp
    show "length pre + 532 * j + 532 \<le> length (pre @ concat ?recs @ post)"
      by (rule record_at(2) [OF l j'])
    obtain name where "maps_name K m (vs ! j) = Some name" using assms j by fastforce
    then show "parse_region (get_bytes (length pre + 532 * j) 532 (pre @ concat ?recs @ post)) =
        (vm_start (vs ! j), vm_end (vs ! j), vma_region K m (vs ! j))"
      using j parse_kernel_record by (simp add: record_at(1) [OF l j'] del: concat_map_singleton)
  qed
  moreover have "map (\<lambda>j. vma_region K m (vs ! j)) [0..<length vs] = map (vma_region K m) vs"
    by (simp add: map_nth flip: map_map [unfolded comp_def])
  ultimately show ?thesis by simp
qed

text \<open>C32. The client reads back the list the driver serialises: without the residency filter each
  record becomes the region of its mapping, bounds, protection, type and name.\<close>

theorem client_parses_driver_list:
  assumes "\<forall>v \<in> set vs. maps_name K m v \<noteq> None"
  shows "parse_regions D r h False (pre @ concat (map (vma_record K m 512) vs) @ post) (length pre)
    (length vs) out s = Some (out @ map (vma_region K m) vs, s)"
  using assms by (rule client_list_parses)

theorem client_parses_driver_list_witness:
  "parse_regions (kernel_drv 0x1000 (demo_ioenv (Inr 0))) demo_reader 7 False
    (replicate 8 0 @ concat (map (vma_record demo_env demo_mm 512) demo_vmas) @ []) 8 2 [] demo_bp0 =
    Some (map (vma_region demo_env demo_mm) demo_vmas, demo_bp0)"
proof -
  have "\<forall>v \<in> set demo_vmas. maps_name demo_env demo_mm v \<noteq> None"
    by (simp add: demo_mm_def demo_vmas_def maps_name_def)
  from client_parses_driver_list [OF this, of "kernel_drv 0x1000 (demo_ioenv (Inr 0))" demo_reader 7
      "replicate 8 0" "[]" "[]" demo_bp0]
  have "parse_regions (kernel_drv 0x1000 (demo_ioenv (Inr 0))) demo_reader 7 False
      (replicate 8 0 @ concat (map (vma_record demo_env demo_mm 512) demo_vmas) @ [])
      (length (replicate 8 (0::byte))) (length demo_vmas) [] demo_bp0 =
      Some ([] @ map (vma_region demo_env demo_mm) demo_vmas, demo_bp0)" .
  moreover have "length demo_vmas = 2" by (simp add: demo_vmas_def)
  ultimately show ?thesis by (simp only: length_replicate append_Nil)
qed


lemma demo_page_resident:
  "resident demo_env 5 (bk demo_bp0) 0x10000" "resident demo_env 5 (bk demo_bp0) 0x11000"
  "resident demo_env 5 (bk demo_bp0) 0x20000"
  by (simp_all add: resident_def get_task_proc_phy_addr_def page_walk_def demo_mm_def demo_bp0_def
      demo_kst_def PAGE_SIZE_def page_of_def is_pte_can_read_def get_mm_def Let_def drop_bit_eq_div)


text \<open>What the scan returns for a mapping is exact: no region is empty or leaves the mapping,
  each carries the mapping's protection and type, and a page of the mapping lies in one of
  them exactly when its bit is set.\<close>

theorem phy_regions_exact:
  assumes "unat a + 4096 * length bits < 2 ^ 64" "length bits \<le> 8 * length isphy"
    and "\<And>k. k < length bits \<Longrightarrow> bit (isphy ! (k div 8)) (k mod 8) = bits ! k"
    and "length (cstr (r_name rInfo)) < 4096" and "b = a + word_of_nat (4096 * length bits)"
  shows "\<exists>regs. phy_regions isphy a b rInfo [] = Some regs \<and>
    (\<forall>x \<in> set regs. unat a \<le> unat (baseaddress x) \<and> 0 < unat (r_size x) \<and>
      unat (baseaddress x) + unat (r_size x) \<le> unat b \<and>
      protection x = protection rInfo \<and> r_type x = r_type rInfo) \<and>
    (\<forall>k < length bits. bits ! k \<longleftrightarrow> (\<exists>x \<in> set regs. unat (baseaddress x) \<le> unat a + 4096 * k \<and>
      unat a + 4096 * k < unat (baseaddress x) + unat (r_size x)))"
proof -
  let ?regs = "map (run_region a rInfo) (runs bits)"
  have pos: "unat (baseaddress (run_region a rInfo q)) = unat a + 4096 * fst q"
    "unat (r_size (run_region a rInfo q)) = 4096 * (snd q - fst q)"
    "fst q < snd q" "snd q \<le> length bits" if "q \<in> set (runs bits)" for q
  proof -
    from runs_bounds [OF that] show q: "fst q < snd q" "snd q \<le> length bits" by auto
    then have "4096 * fst q \<le> 4096 * length bits" "4096 * (snd q - fst q) \<le> 4096 * length bits" by simp_all
    then have f: "unat a + 4096 * fst q < 2 ^ 64" "4096 * (snd q - fst q) < 2 ^ 64"
      using assms(1) by linarith+
    show "unat (baseaddress (run_region a rInfo q)) = unat a + 4096 * fst q"
      using unat_add_of_nat [OF f(1)] by (simp add: run_region_def)
    show "unat (r_size (run_region a rInfo q)) = 4096 * (snd q - fst q)"
      using unat_u64_of_nat [OF f(2)] by (simp add: run_region_def del: of_nat_mult)
  qed
  have ub: "unat b = unat a + 4096 * length bits"
    unfolding assms(5) by (rule unat_add_of_nat [OF assms(1)])
  have "\<forall>k < length bits. bits ! k \<longleftrightarrow> (\<exists>x \<in> set ?regs. unat (baseaddress x) \<le> unat a + 4096 * k \<and>
      unat a + 4096 * k < unat (baseaddress x) + unat (r_size x))"
  proof (intro allI impI)
    fix k assume k: "k < length bits"
    have "(unat a + 4096 * fst q \<le> unat a + 4096 * k \<and>
        unat a + 4096 * k < unat a + 4096 * fst q + 4096 * (snd q - fst q)) \<longleftrightarrow> fst q \<le> k \<and> k < snd q"
      if "fst q < snd q" for q :: "nat \<times> nat" using that by auto
    with pos have "(\<exists>x \<in> set ?regs. unat (baseaddress x) \<le> unat a + 4096 * k \<and>
        unat a + 4096 * k < unat (baseaddress x) + unat (r_size x)) \<longleftrightarrow>
        (\<exists>q \<in> set (runs bits). fst q \<le> k \<and> k < snd q)" by simp
    with k show "bits ! k \<longleftrightarrow> (\<exists>x \<in> set ?regs. unat (baseaddress x) \<le> unat a + 4096 * k \<and>
        unat a + 4096 * k < unat (baseaddress x) + unat (r_size x))"
      by (simp add: runs_cover)
  qed
  moreover have "\<forall>x \<in> set ?regs. unat a \<le> unat (baseaddress x) \<and> 0 < unat (r_size x) \<and>
      unat (baseaddress x) + unat (r_size x) \<le> unat b \<and>
      protection x = protection rInfo \<and> r_type x = r_type rInfo"
  proof
    fix x assume "x \<in> set ?regs"
    then obtain q where q: "q \<in> set (runs bits)" "x = run_region a rInfo q" by auto
    note ps = pos [OF q(1)]
    have "4096 * fst q + 4096 * (snd q - fst q) = 4096 * snd q" using ps(3) by simp
    with ps show "unat a \<le> unat (baseaddress x) \<and> 0 < unat (r_size x) \<and>
        unat (baseaddress x) + unat (r_size x) \<le> unat b \<and>
        protection x = protection rInfo \<and> r_type x = r_type rInfo"
      unfolding q(2) ub by (auto simp: run_region_def)
  qed
  ultimately show ?thesis using phy_regions_runs [OF assms(1-4) assms(5), of "[]"] by auto
qed

theorem phy_regions_exact_witness:
  "\<exists>regs. phy_regions [0xb] 0x10000 0x14000 empty_region [] = Some regs \<and>
    (\<forall>k < 4. [True, True, False, True] ! k \<longleftrightarrow> (\<exists>x \<in> set regs. unat (baseaddress x) \<le> 0x10000 + 4096 * k \<and>
      0x10000 + 4096 * k < unat (baseaddress x) + unat (r_size x)))"
proof -
  let ?bits = "[True, True, False, True]"
  have b: "bit ([0xb :: byte] ! (k div 8)) (k mod 8) = ?bits ! k" if "k < length ?bits" for k
  proof -
    from that have "k = 0 \<or> k = 1 \<or> k = 2 \<or> k = 3" by auto
    then show ?thesis by auto
  qed
  have "\<exists>regs. phy_regions [0xb] 0x10000 0x14000 empty_region [] = Some regs \<and>
    (\<forall>x \<in> set regs. unat (0x10000::u64) \<le> unat (baseaddress x) \<and> 0 < unat (r_size x) \<and>
      unat (baseaddress x) + unat (r_size x) \<le> unat (0x14000::u64) \<and>
      protection x = protection empty_region \<and> r_type x = r_type empty_region) \<and>
    (\<forall>k < length ?bits. ?bits ! k \<longleftrightarrow> (\<exists>x \<in> set regs. unat (baseaddress x) \<le> unat (0x10000::u64) + 4096 * k \<and>
      unat (0x10000::u64) + 4096 * k < unat (baseaddress x) + unat (r_size x)))"
    by (rule phy_regions_exact [OF _ _ b]) (simp_all add: empty_region_def cstr_def)
  then show ?thesis by auto
qed

lemma client_list_refused:
  assumes "0 \<le> m_nDriverLink r" "h \<noteq> 0"
  shows "VirtualQueryExFull (kernel_drv u E) r h showPhy w =
    (if m_bUseBypassSELinuxMode r then None else Some (False, [], None, w))"
proof -
  have "rwmem_ioctl E HPP_MAPS_COUNT h w = Some (- EINVAL, w)"
    by (simp add: rwmem_ioctl_def rwmem_cmd_values HPP_MAPS_COUNT_def ioc_defs push_bit_eq_mult)
  then show ?thesis
    using assms by (simp add: VirtualQueryExFull_def MyIoctl_val_def kernel_drv_def ioctl_ret_def EINVAL_def)
qed

text \<open>The client cannot list the regions of any process through this driver: it asks for the
  number of mappings with a command number the driver does not have, gets an error and
  returns FALSE; with the SELinux bypass it dereferences the pid instead.\<close>

theorem client_list_rejected:
  assumes "0 \<le> m_nDriverLink r" "h \<noteq> 0"
  shows "VirtualQueryExFull (kernel_drv u E) r h showPhy w =
    (if m_bUseBypassSELinuxMode r then None else Some (False, [], None, w))"
  by (rule client_list_refused [OF assms])

theorem client_list_rejected_witness:
  "VirtualQueryExFull (kernel_drv 0x1000 (demo_ioenv (Inr 0))) demo_reader 7 True demo_bp0 =
    Some (False, [], None, demo_bp0)"
  using client_list_rejected [of demo_reader 7 "0x1000" "demo_ioenv (Inr 0)" True demo_bp0]
  by (simp add: demo_reader_def new_reader_def)

end
