(* ===== verification/Port_Help.thy ===== *)
theory Port_Help
  imports Rw_Prelude
begin

text \<open>
  The handle table of the server (CEServer/porthelp.cpp and porthelp.h): handles are signed
  32-bit numbers drawn from a random device, each naming an object by its address and kind.
  The table is a \<open>std::map\<close> and is modelled as the list of its entries in the order an
  iterator visits them; the numbers the random device returns are a parameter, as is the
  read of the pid behind a process handle's pointer. Invalid pointers and a search for a
  free number that does not end are \<open>None\<close>. The locale \<open>handle_table\<close> is what the operations
  of api.cpp rely on; the table here is an instance of it.
\<close>

section \<open>Handles\<close>

text \<open>\<open>typedef int32_t HANDLE\<close>: the order of the table's keys is the signed one.\<close>

datatype HANDLE = HANDLE (raw: u32)

lemma HANDLE_eqI: "sint (raw h) = sint (raw k) \<Longrightarrow> h = k"
  by (intro HANDLE.expand) (erule signed_word_eqI)

instantiation HANDLE :: linorder
begin

definition less_eq_HANDLE :: "HANDLE \<Rightarrow> HANDLE \<Rightarrow> bool" where
  "less_eq_HANDLE h k \<longleftrightarrow> sint (raw h) \<le> sint (raw k)"

definition less_HANDLE :: "HANDLE \<Rightarrow> HANDLE \<Rightarrow> bool" where
  "less_HANDLE h k \<longleftrightarrow> sint (raw h) < sint (raw k)"

instance
  by standard (auto simp: less_eq_HANDLE_def less_HANDLE_def intro: HANDLE_eqI)

end

datatype handleType = htEmpty | htProcesHandle | htThreadHandle | htTHSProcess | htTHSModule
  | htTHSThread | htNativeThreadHandle

record HANDLE_INFO =
  hi_p :: u64
  hi_type :: handleType

text \<open>The table, and how many numbers the random device has delivered.\<close>

record handles =
  m_HandlePointList :: "(HANDLE \<times> HANDLE_INFO) list"
  rd_calls :: nat

definition no_handles :: handles where
  "no_handles = \<lparr>m_HandlePointList = [], rd_calls = 0\<rparr>"

fun map_insert :: "HANDLE \<Rightarrow> HANDLE_INFO \<Rightarrow> (HANDLE \<times> HANDLE_INFO) list \<Rightarrow> (HANDLE \<times> HANDLE_INFO) list" where
  "map_insert k v [] = [(k, v)]"
| "map_insert k v (e # es) =
     (if k < fst e then (k, v) # e # es
      else if k = fst e then e # es
      else e # map_insert k v es)"

section \<open>Operations\<close>

definition draw_handle :: "u32 \<Rightarrow> HANDLE" where
  "draw_handle r =
     (let handle = 10000 + r div 1000 in HANDLE (if handle <s 0 then - handle else handle))"

partial_function (option) pick_handle ::
    "(nat \<Rightarrow> u32) \<Rightarrow> (HANDLE \<times> HANDLE_INFO) list \<Rightarrow> nat \<Rightarrow> (HANDLE \<times> nat) option" where
  "pick_handle rd tbl n =
     (let handle = draw_handle (rd n) in
      if map_of tbl handle \<noteq> None then pick_handle rd tbl (n + 1) else Some (handle, n + 1))"

definition CreateHandleFromPointer ::
    "(nat \<Rightarrow> u32) \<Rightarrow> u64 \<Rightarrow> handleType \<Rightarrow> handles \<Rightarrow> (HANDLE \<times> handles) option" where
  "CreateHandleFromPointer rd p ty t =
     (case pick_handle rd (m_HandlePointList t) (rd_calls t) of
        None \<Rightarrow> None
      | Some (handle, n) \<Rightarrow>
          Some (handle, \<lparr>m_HandlePointList =
            map_insert handle \<lparr>hi_p = p, hi_type = ty\<rparr> (m_HandlePointList t), rd_calls = n\<rparr>))"

definition GetHandleType :: "HANDLE \<Rightarrow> handles \<Rightarrow> handleType" where
  "GetHandleType h t =
     (case map_of (m_HandlePointList t) h of None \<Rightarrow> htEmpty | Some i \<Rightarrow> hi_type i)"

definition GetPointerFromHandle :: "HANDLE \<Rightarrow> handles \<Rightarrow> u64" where
  "GetPointerFromHandle h t =
     (case map_of (m_HandlePointList t) h of None \<Rightarrow> 0 | Some i \<Rightarrow> hi_p i)"

definition RemoveHandle :: "HANDLE \<Rightarrow> handles \<Rightarrow> handles" where
  "RemoveHandle h t =
     (case map_of (m_HandlePointList t) h of
        None \<Rightarrow> t
      | Some i \<Rightarrow> t\<lparr>m_HandlePointList := filter (\<lambda>e. fst e \<noteq> h) (m_HandlePointList t)\<rparr>)"

fun find_pid_from :: "(u64 \<Rightarrow> u32 option) \<Rightarrow> u32 \<Rightarrow> (HANDLE \<times> HANDLE_INFO) list \<Rightarrow> HANDLE option" where
  "find_pid_from pid_at pid [] = Some (HANDLE 0)"
| "find_pid_from pid_at pid (item # items) =
     (if hi_type (snd item) = htProcesHandle then
        (case pid_at (hi_p (snd item)) of
           None \<Rightarrow> None
         | Some q \<Rightarrow> if q = pid then Some (fst item) else find_pid_from pid_at pid items)
      else find_pid_from pid_at pid items)"

definition FindHandleByPID :: "(u64 \<Rightarrow> u32 option) \<Rightarrow> u32 \<Rightarrow> handles \<Rightarrow> HANDLE option" where
  "FindHandleByPID pid_at pid t = find_pid_from pid_at pid (m_HandlePointList t)"

section \<open>The table as a map\<close>

named_theorems handle_simps \<open>what the table holds after an operation\<close>

definition find_handle :: "HANDLE \<Rightarrow> handles \<Rightarrow> HANDLE_INFO option" where
  "find_handle h t = map_of (m_HandlePointList t) h"

text \<open>Entries are in key order, each key is a number the random device can give.\<close>

definition handles_wf :: "handles \<Rightarrow> bool" where
  "handles_wf t \<longleftrightarrow> sorted_wrt (<) (map fst (m_HandlePointList t)) \<and>
     (\<forall>k \<in> fst ` set (m_HandlePointList t). 10000 \<le> sint (raw k) \<and> sint (raw k) \<le> 4304967)"

lemma map_of_map_insert [handle_simps]:
  "map_of tbl k = None \<Longrightarrow> map_of (map_insert k v tbl) h = (if h = k then Some v else map_of tbl h)"
  by (induction tbl) (auto split: if_splits)

lemma set_map_insert: "set (map fst (map_insert k v tbl)) = insert k (set (map fst tbl))"
  by (induction tbl) auto

lemma map_insert_sorted:
  "sorted_wrt (<) (map fst tbl) \<Longrightarrow> sorted_wrt (<) (map fst (map_insert k v tbl))"
proof (induction tbl)
  case Nil
  then show ?case by simp
next
  case (Cons e es)
  then have es: "sorted_wrt (<) (map fst (map_insert k v es))" "\<forall>x \<in> set (map fst es). fst e < x" by auto
  consider "k < fst e" | "k = fst e" | "fst e < k" by (rule linorder_cases)
  then show ?case
  proof cases
    case 1
    with Cons.prems es(2) show ?thesis by fastforce
  next
    case 2
    with Cons.prems show ?thesis by simp
  next
    case 3
    with es have "\<forall>x \<in> set (map fst (map_insert k v es)). fst e < x" unfolding set_map_insert by blast
    moreover have "\<not> k < fst e" "k \<noteq> fst e" using 3 by auto
    ultimately show ?thesis using es(1) by simp
  qed
qed

lemma map_of_filter [handle_simps]:
  "map_of (filter (\<lambda>e. fst e \<noteq> h) tbl) k = (if k = h then None else map_of tbl k)"
  by (induction tbl) auto

lemma draw_handle_range: "10000 \<le> sint (raw (draw_handle r))" "sint (raw (draw_handle r)) \<le> 4304967"
proof -
  have "unat r < 2 ^ 32" using unat_bound [of r] by simp
  then have "unat r div 1000 \<le> 4294967" by simp
  then have "unat (r div 1000) \<le> 4294967" by (simp add: unat_div)
  then have r: "uint (r div 1000) \<le> 4294967" by (simp flip: of_nat_le_iff [where 'a = int])
  have r0: "\<not> 10000 + uint (r div 1000) < 0" using uint_ge_0 [of "r div 1000"] by linarith
  with r have "(10000 + uint (r div 1000)) mod 4294967296 = 10000 + uint (r div 1000)"
    by (intro mod_pos_pos_trivial) linarith+
  then have u: "uint (10000 + r div 1000 :: u32) = 10000 + uint (r div 1000)"
    by (simp add: uint_word_ariths)
  have s: "sint (10000 + r div 1000 :: u32) = 10000 + uint (r div 1000)"
    unfolding sint_uint u by (rule signed_take_bit_int_eq_self) (use r in simp_all)
  with r0 have "\<not> (10000 + r div 1000 :: u32) <s 0" unfolding word_sless_alt by simp
  then have "draw_handle r = HANDLE (10000 + r div 1000)"
    by (simp only: draw_handle_def Let_def if_False)
  with s r show "10000 \<le> sint (raw (draw_handle r))" "sint (raw (draw_handle r)) \<le> 4304967" by simp_all
qed

section \<open>The contract the server's operations use\<close>

text \<open>
  A table of handles for objects on a heap: a handle just made is new, not the null handle,
  and names the object; removing one forgets it and nothing else. \<open>owns\<close> is what makes the
  server free of leaks and of dangling or shared pointers: every entry points to a live object
  of its kind, no two entries share an object, and every live object has its entry.
\<close>

definition owns :: "('t \<Rightarrow> HANDLE \<Rightarrow> HANDLE_INFO option) \<Rightarrow> ('o \<Rightarrow> handleType) \<Rightarrow> 't \<Rightarrow> (u64 \<Rightarrow> 'o option) \<Rightarrow> bool" where
  "owns f kind t heap \<longleftrightarrow>
     (\<forall>h i. f t h = Some i \<longrightarrow> hi_p i \<noteq> 0 \<and> (\<exists>ob. heap (hi_p i) = Some ob \<and> kind ob = hi_type i)) \<and>
     (\<forall>h k i j. f t h = Some i \<longrightarrow> f t k = Some j \<longrightarrow> hi_p i = hi_p j \<longrightarrow> h = k) \<and>
     (\<forall>a. heap a \<noteq> None \<longrightarrow> (\<exists>h i. f t h = Some i \<and> hi_p i = a))"

lemma ownsI:
  assumes "\<And>h i. f t h = Some i \<Longrightarrow> hi_p i \<noteq> 0 \<and> (\<exists>ob. heap (hi_p i) = Some ob \<and> kind ob = hi_type i)"
    and "\<And>h k i j. f t h = Some i \<Longrightarrow> f t k = Some j \<Longrightarrow> hi_p i = hi_p j \<Longrightarrow> h = k"
    and "\<And>a. heap a \<noteq> None \<Longrightarrow> \<exists>h i. f t h = Some i \<and> hi_p i = a"
  shows "owns f kind t heap"
  unfolding owns_def using assms by blast

lemma owns_live:
  "owns f kind t heap \<Longrightarrow> f t h = Some i \<Longrightarrow>
    hi_p i \<noteq> 0 \<and> (\<exists>ob. heap (hi_p i) = Some ob \<and> kind ob = hi_type i)"
  by (simp add: owns_def)

lemma owns_inj:
  "owns f kind t heap \<Longrightarrow> f t h = Some i \<Longrightarrow> f t k = Some j \<Longrightarrow> hi_p i = hi_p j \<Longrightarrow> h = k"
  unfolding owns_def by blast

lemma owns_all: "owns f kind t heap \<Longrightarrow> heap a \<noteq> None \<Longrightarrow> \<exists>h i. f t h = Some i \<and> hi_p i = a"
  by (simp add: owns_def)

lemma owns_update:
  assumes "owns f kind t heap" "heap p = Some ob" "kind ob' = kind ob"
  shows "owns f kind t (heap(p \<mapsto> ob'))"
proof (rule ownsI)
  fix h i assume "f t h = Some i"
  from owns_live [OF assms(1) this] assms(2,3)
  show "hi_p i \<noteq> 0 \<and> (\<exists>ob. (heap(p \<mapsto> ob')) (hi_p i) = Some ob \<and> kind ob = hi_type i)" by auto
next
  fix a assume "(heap(p \<mapsto> ob')) a \<noteq> None"
  with assms(2) show "\<exists>h i. f t h = Some i \<and> hi_p i = a"
    by (intro owns_all [OF assms(1)]) (auto split: if_splits)
qed (rule owns_inj [OF assms(1)])

locale handle_table =
  fixes wf :: "'t \<Rightarrow> bool"
    and find :: "'t \<Rightarrow> HANDLE \<Rightarrow> HANDLE_INFO option"
    and create :: "u64 \<Rightarrow> handleType \<Rightarrow> 't \<Rightarrow> (HANDLE \<times> 't) option"
    and remove :: "HANDLE \<Rightarrow> 't \<Rightarrow> 't"
  assumes create_wf: "wf t \<Longrightarrow> create p ty t = Some (h, t') \<Longrightarrow> wf t'"
    and create_fresh: "wf t \<Longrightarrow> create p ty t = Some (h, t') \<Longrightarrow> find t h = None \<and> raw h \<noteq> 0"
    and create_find: "wf t \<Longrightarrow> create p ty t = Some (h, t') \<Longrightarrow>
      find t' k = (if k = h then Some \<lparr>hi_p = p, hi_type = ty\<rparr> else find t k)"
    and remove_wf: "wf t \<Longrightarrow> wf (remove h t)"
    and remove_find: "wf t \<Longrightarrow> find (remove h t) k = (if k = h then None else find t k)"
begin

lemma owns_create:
  assumes "wf t" "owns find kind t heap" "create p (kind ob) t = Some (h, t')" "heap p = None" "p \<noteq> 0"
  shows "owns find kind t' (heap(p \<mapsto> ob))"
proof -
  note cf = create_find [OF assms(1,3)]
  note o = owns_live [OF assms(2)] owns_inj [OF assms(2)] owns_all [OF assms(2)]
  have dead: "find t k = Some i \<Longrightarrow> hi_p i \<noteq> p" for k i
    using o(1) assms(4) by fastforce
  show ?thesis
  proof (rule ownsI)
    fix k i assume "find t' k = Some i"
    then show "hi_p i \<noteq> 0 \<and> (\<exists>ob'. (heap(p \<mapsto> ob)) (hi_p i) = Some ob' \<and> kind ob' = hi_type i)"
      using assms(5) dead o(1) by (auto simp: cf split: if_splits)
  next
    fix k l i j assume "find t' k = Some i" "find t' l = Some j" "hi_p i = hi_p j"
    then show "k = l" using o(2) by (auto simp: cf split: if_splits dest: dead)
  next
    fix a assume a: "(heap(p \<mapsto> ob)) a \<noteq> None"
    show "\<exists>k i. find t' k = Some i \<and> hi_p i = a"
    proof (cases "a = p")
      case True
      then show ?thesis by (auto simp: cf)
    next
      case False
      with a have "heap a \<noteq> None" by simp
      then obtain k i where k: "find t k = Some i" "hi_p i = a" using o(3) by blast
      with create_fresh [OF assms(1,3)] have "k \<noteq> h" by auto
      with k show ?thesis by (auto simp: cf)
    qed
  qed
qed

lemma owns_remove:
  assumes "wf t" "owns find kind t heap" "find t h = Some i"
  shows "owns find kind (remove h t) (heap(hi_p i := None))"
proof -
  note rf = remove_find [OF assms(1)]
  note o = owns_live [OF assms(2)] owns_inj [OF assms(2)] owns_all [OF assms(2)]
  show ?thesis
  proof (rule ownsI)
    fix k j assume "find (remove h t) k = Some j"
    then have k: "find t k = Some j" "k \<noteq> h" by (auto simp: rf split: if_splits)
    with o(2) assms(3) have "hi_p j \<noteq> hi_p i" by blast
    with o(1) [OF k(1)]
    show "hi_p j \<noteq> 0 \<and> (\<exists>ob'. (heap(hi_p i := None)) (hi_p j) = Some ob' \<and> kind ob' = hi_type j)" by auto
  next
    fix k l j j' assume "find (remove h t) k = Some j" "find (remove h t) l = Some j'" "hi_p j = hi_p j'"
    then show "k = l" using o(2) by (auto simp: rf split: if_splits)
  next
    fix a assume a: "(heap(hi_p i := None)) a \<noteq> None"
    then obtain k j where k: "find t k = Some j" "hi_p j = a" using o(3) by (auto split: if_splits)
    with a assms(3) have "k \<noteq> h" by auto
    with k show "\<exists>k j. find (remove h t) k = Some j \<and> hi_p j = a" by (auto simp: rf)
  qed
qed

lemma remove_absent: "wf t \<Longrightarrow> find t h = None \<Longrightarrow> find (remove h t) = find t"
  by (auto simp: fun_eq_iff remove_find)

end

lemma pick_handle_free:
  "pick_handle rd tbl n = Some r \<Longrightarrow> map_of tbl (fst r) = None \<and> (\<exists>x. fst r = draw_handle x)"
  by (induction rule: pick_handle.raw_induct [rotated 1, consumes 1]) (auto simp: Let_def split: if_splits)

lemma create_unfold:
  assumes "CreateHandleFromPointer rd p ty t = Some (h, t')"
  shows "map_of (m_HandlePointList t) h = None" "\<exists>r. h = draw_handle r"
    "m_HandlePointList t' = map_insert h \<lparr>hi_p = p, hi_type = ty\<rparr> (m_HandlePointList t)"
  using assms pick_handle_free [of rd "m_HandlePointList t" "rd_calls t"]
  by (auto simp: CreateHandleFromPointer_def split: option.splits prod.splits)

lemma create_keeps_wf:
  assumes "handles_wf t" "CreateHandleFromPointer rd p ty t = Some (h, t')"
  shows "handles_wf t'"
proof -
  note u = create_unfold [OF assms(2)]
  show ?thesis
    using assms(1) map_insert_sorted set_map_insert u(2) draw_handle_range
    unfolding handles_wf_def u(3) by (auto simp flip: set_map)
qed

interpretation ht: handle_table handles_wf "\<lambda>t h. find_handle h t" "CreateHandleFromPointer rd" RemoveHandle for rd
proof
  fix t p ty h t' k assume a: "handles_wf t" "CreateHandleFromPointer rd p ty t = Some (h, t')"
  show "handles_wf t'" by (rule create_keeps_wf [OF a])
  note u = create_unfold [OF a(2)]
  obtain r where "h = draw_handle r" using u(2) by blast
  then have "10000 \<le> sint (raw h)" using draw_handle_range(1) by simp
  then have "sint (raw h) \<noteq> 0" by linarith
  with u(1) show "find_handle h t = None \<and> raw h \<noteq> 0" by (auto simp: find_handle_def)
  show "find_handle k t' = (if k = h then Some \<lparr>hi_p = p, hi_type = ty\<rparr> else find_handle k t)"
    unfolding find_handle_def u(3) by (rule map_of_map_insert [OF u(1)])
next
  fix t h k assume "handles_wf t"
  then show "handles_wf (RemoveHandle h t)"
    by (auto simp: handles_wf_def RemoveHandle_def sorted_wrt_map sorted_wrt_filter split: option.splits)
  show "find_handle k (RemoveHandle h t) = (if k = h then None else find_handle k t)"
    by (auto simp: find_handle_def RemoveHandle_def handle_simps split: option.splits)
qed

section \<open>Creating and finding handles\<close>

lemma pick_handle_some:
  assumes "map_of tbl (draw_handle (rd m)) = None" "n \<le> m"
  shows "\<exists>r. pick_handle rd tbl n = Some r"
  using assms(2)
proof (induction rule: inc_induct)
  case base
  show ?case by (subst pick_handle.simps) (simp add: assms(1))
next
  case (step n)
  then show ?case
    by (cases "map_of tbl (draw_handle (rd n))") (subst pick_handle.simps, simp)+
qed

lemma handle_sel:
  "GetHandleType h t = (case find_handle h t of None \<Rightarrow> htEmpty | Some i \<Rightarrow> hi_type i)"
  "GetPointerFromHandle h t = (case find_handle h t of None \<Rightarrow> 0 | Some i \<Rightarrow> hi_p i)"
  by (simp_all add: GetHandleType_def GetPointerFromHandle_def find_handle_def)

lemma find_pid_from_result:
  assumes "sorted_wrt (<) (map fst tbl)" "HANDLE 0 \<notin> fst ` set tbl"
    and "\<forall>e \<in> set tbl. hi_type (snd e) = htProcesHandle \<longrightarrow> pid_at (hi_p (snd e)) \<noteq> None"
  shows "\<exists>h. find_pid_from pid_at pid tbl = Some h \<and>
    (if h = HANDLE 0
     then \<forall>e \<in> set tbl. hi_type (snd e) = htProcesHandle \<longrightarrow> pid_at (hi_p (snd e)) \<noteq> Some pid
     else (\<exists>i. (h, i) \<in> set tbl \<and> hi_type i = htProcesHandle \<and> pid_at (hi_p i) = Some pid) \<and>
       (\<forall>e \<in> set tbl. fst e < h \<longrightarrow> hi_type (snd e) = htProcesHandle \<longrightarrow> pid_at (hi_p (snd e)) \<noteq> Some pid))"
  using assms
proof (induction tbl)
  case Nil
  then show ?case by simp
next
  case (Cons e es)
  let ?hit = "hi_type (snd e) = htProcesHandle \<and> pid_at (hi_p (snd e)) = Some pid"
  show ?case
  proof (cases ?hit)
    case True
    then have "find_pid_from pid_at pid (e # es) = Some (fst e)" by simp
    moreover have "fst e \<noteq> HANDLE 0" using Cons.prems(2) by auto
    moreover have "\<exists>i. (fst e, i) \<in> set (e # es) \<and> hi_type i = htProcesHandle \<and> pid_at (hi_p i) = Some pid"
      using True by (intro exI [of _ "snd e"]) simp
    moreover have "\<forall>x \<in> set (e # es). \<not> fst x < fst e"
      using Cons.prems(1) by (auto simp: dest: order.asym)
    ultimately show ?thesis by (intro exI [of _ "fst e"] conjI) (simp_all del: find_pid_from.simps)
  next
    case False
    with Cons.prems(3) have "find_pid_from pid_at pid (e # es) = find_pid_from pid_at pid es" by auto
    with Cons False show ?thesis by (auto split: if_splits)
  qed
qed

lemma find_handle_by_pid_ok:
  assumes "handles_wf t"
    and "\<And>k i. find_handle k t = Some i \<Longrightarrow> hi_type i = htProcesHandle \<Longrightarrow> pid_at (hi_p i) \<noteq> None"
  shows "\<exists>h. FindHandleByPID pid_at pid t = Some h \<and>
    (if h = HANDLE 0
     then \<forall>k i. find_handle k t = Some i \<longrightarrow> hi_type i = htProcesHandle \<longrightarrow> pid_at (hi_p i) \<noteq> Some pid
     else (\<exists>i. find_handle h t = Some i \<and> hi_type i = htProcesHandle \<and> pid_at (hi_p i) = Some pid) \<and>
       (\<forall>k i. find_handle k t = Some i \<longrightarrow> k < h \<longrightarrow> hi_type i = htProcesHandle \<longrightarrow>
         pid_at (hi_p i) \<noteq> Some pid))"
proof -
  let ?tbl = "m_HandlePointList t"
  have s: "sorted_wrt (<) (map fst ?tbl)" using assms(1) by (simp add: handles_wf_def)
  then have "distinct (map fst ?tbl)" by (simp add: strict_sorted_iff)
  then have f: "find_handle k t = Some i \<longleftrightarrow> (k, i) \<in> set ?tbl" for k i
    by (simp add: find_handle_def)
  have z: "HANDLE 0 \<notin> fst ` set ?tbl" using assms(1) by (force simp: handles_wf_def)
  have d: "\<forall>e \<in> set ?tbl. hi_type (snd e) = htProcesHandle \<longrightarrow> pid_at (hi_p (snd e)) \<noteq> None"
    using assms(2) by (auto simp: f)
  from find_pid_from_result [OF s z d, of pid] show ?thesis
    unfolding FindHandleByPID_def f by (elim exE conjE, intro exI conjI) (auto split: if_splits)
qed

lemma create_handle_ok:
  assumes "handles_wf t" "rd_calls t \<le> n" "find_handle (draw_handle (rd n)) t = None"
  shows "\<exists>h t'. CreateHandleFromPointer rd p ty t = Some (h, t') \<and> handles_wf t' \<and>
    find_handle h t = None \<and> 10000 \<le> sint (raw h) \<and> sint (raw h) \<le> 4304967 \<and>
    GetHandleType h t' = ty \<and> GetPointerFromHandle h t' = p \<and>
    (\<forall>k. k \<noteq> h \<longrightarrow> GetHandleType k t' = GetHandleType k t \<and>
      GetPointerFromHandle k t' = GetPointerFromHandle k t)"
proof -
  obtain h0 m where "pick_handle rd (m_HandlePointList t) (rd_calls t) = Some (h0, m)"
    using pick_handle_some [of _ rd n, OF assms(3) [unfolded find_handle_def] assms(2)] by auto
  then obtain h t' where c: "CreateHandleFromPointer rd p ty t = Some (h, t')"
    by (auto simp: CreateHandleFromPointer_def split: prod.splits)
  then have "10000 \<le> sint (raw h)" "sint (raw h) \<le> 4304967"
    using create_unfold(2) [OF c] draw_handle_range by blast+
  with c ht.create_wf [OF assms(1) c] ht.create_fresh [OF assms(1) c] ht.create_find [OF assms(1) c]
  show ?thesis by (auto simp: handle_sel)
qed

text \<open>A handle that is made is a number from 10000 to 4304967 that was not in use; it gives the
  pointer and type it was made for, every other handle keeps its meaning, and the loop that
  draws numbers ends as soon as the random device gives a free one.\<close>

theorem create_handle_names_object:
  assumes "handles_wf t" "rd_calls t \<le> n" "find_handle (draw_handle (rd n)) t = None"
  shows "\<exists>h t'. CreateHandleFromPointer rd p ty t = Some (h, t') \<and> handles_wf t' \<and>
    find_handle h t = None \<and> 10000 \<le> sint (raw h) \<and> sint (raw h) \<le> 4304967 \<and>
    GetHandleType h t' = ty \<and> GetPointerFromHandle h t' = p \<and>
    (\<forall>k. k \<noteq> h \<longrightarrow> GetHandleType k t' = GetHandleType k t \<and>
      GetPointerFromHandle k t' = GetPointerFromHandle k t)"
  using assms by (rule create_handle_ok)

definition demo_handles :: handles where
  "demo_handles = \<lparr>m_HandlePointList =
     [(HANDLE 10000, \<lparr>hi_p = 0x40, hi_type = htTHSModule\<rparr>),
      (HANDLE 10007, \<lparr>hi_p = 0x80, hi_type = htProcesHandle\<rparr>)], rd_calls = 3\<rparr>"

lemma demo_handles_wf: "handles_wf demo_handles"
  by (simp add: handles_wf_def demo_handles_def less_HANDLE_def)

theorem create_handle_names_object_witness:
  "\<exists>h t'. CreateHandleFromPointer (\<lambda>n. if n = 3 then 7999 else 5000) 0xc0 htTHSThread demo_handles = Some (h, t') \<and>
    GetHandleType h t' = htTHSThread \<and> GetPointerFromHandle h t' = 0xc0"
  using create_handle_names_object [OF demo_handles_wf, of 4 "\<lambda>n. if n = 3 then 7999 else 5000" "0xc0" htTHSThread]
  by (fastforce simp: demo_handles_def find_handle_def draw_handle_def word_sless_alt)

text \<open>The search for an open process returns the smallest handle of a process opened with that
  pid, and the null handle exactly when there is none.\<close>

theorem find_handle_by_pid_least:
  assumes "handles_wf t"
    and "\<And>k i. find_handle k t = Some i \<Longrightarrow> hi_type i = htProcesHandle \<Longrightarrow> pid_at (hi_p i) \<noteq> None"
  shows "\<exists>h. FindHandleByPID pid_at pid t = Some h \<and>
    (if h = HANDLE 0
     then \<forall>k i. find_handle k t = Some i \<longrightarrow> hi_type i = htProcesHandle \<longrightarrow> pid_at (hi_p i) \<noteq> Some pid
     else (\<exists>i. find_handle h t = Some i \<and> hi_type i = htProcesHandle \<and> pid_at (hi_p i) = Some pid) \<and>
       (\<forall>k i. find_handle k t = Some i \<longrightarrow> k < h \<longrightarrow> hi_type i = htProcesHandle \<longrightarrow>
         pid_at (hi_p i) \<noteq> Some pid))"
  using assms by (rule find_handle_by_pid_ok)

theorem find_handle_by_pid_least_witness:
  "FindHandleByPID (\<lambda>p. if p = 0x80 then Some 42 else None) 42 demo_handles = Some (HANDLE 10007) \<and>
    (\<exists>h. FindHandleByPID (\<lambda>p. if p = 0x80 then Some 42 else None) 43 demo_handles = Some h \<and>
      (h = HANDLE 0 \<or> (\<exists>i. find_handle h demo_handles = Some i)))"
proof -
  have p: "find_handle k demo_handles = Some i \<Longrightarrow> hi_type i = htProcesHandle \<Longrightarrow>
      (if hi_p i = 0x80 then Some (42 :: u32) else None) \<noteq> None" for k i
    by (auto simp: find_handle_def demo_handles_def split: if_splits)
  show ?thesis
    using find_handle_by_pid_least [OF demo_handles_wf, of "\<lambda>p. if p = 0x80 then Some 42 else None" 43] p
    by (auto simp: FindHandleByPID_def demo_handles_def split: if_splits)
qed

end
