(* ===== verification/Ce_Api.thy ===== *)
theory Ce_Api
  imports Mem_Reader Port_Help
begin

text \<open>
  The operations of the Cheat Engine server on processes (CEServer/api.cpp and api.h):
  snapshots of the process, module and thread lists and the iterators over them, opening and
  closing processes, the region queries with their cache, and memory access. The objects behind
  the handles live on a heap from addresses to objects. What the operating system answers is
  in \<open>'s apienv\<close>: the driver's system calls, the random device, \<open>operator new\<close> (no address is
  the exception it throws), the directories and files of /proc, the monotonic clock and the
  contents of uninitialised memory. An operation is \<open>None\<close> where the code dereferences a
  pointer of the wrong kind or a null file, or moves an iterator past the end.
\<close>

section \<open>Objects\<close>

record MyProcessInfo =
  mp_pid :: u32
  total_rss :: u64
  mp_cmdline :: "byte list"

record ProcessListEntry =
  PID :: u32
  ProcessName :: "byte list"

record ModuleListEntry =
  baseAddress :: u64
  moduleSize :: u32
  moduleName :: "byte list"

record RegionInfo =
  ri_baseaddress :: u64
  ri_size :: u64
  ri_protection :: u32
  ri_type :: u32

record CeOpenProcess =
  op_pid :: u32
  u64DriverProcessHandle :: u64
  vLastMaps :: "DRIVER_REGION_INFO list"
  nLastGetMapsTime :: u64

record ThreadList =
  ReferenceCount :: u32
  threadListIterator :: u32
  threadCount :: nat
  threadList :: "u32 list"

text \<open>The lists carry the position of their \<open>readIter\<close>.\<close>

datatype obj =
    CeProcessList "MyProcessInfo list" nat
  | CeModuleList "ModuleListEntry list" nat
  | OpenProcessObj CeOpenProcess
  | ThreadListObj ThreadList

fun kind_of :: "obj \<Rightarrow> handleType" where
  "kind_of (CeProcessList v i) = htTHSProcess"
| "kind_of (CeModuleList v i) = htTHSModule"
| "kind_of (OpenProcessObj p) = htProcesHandle"
| "kind_of (ThreadListObj th) = htTHSThread"

type_synonym heap = "u64 \<Rightarrow> obj option"

record 's apienv =
  ae_drv :: "'s drv"
  ae_rd :: "nat \<Rightarrow> u32"
  ae_new :: "heap \<Rightarrow> u64 option"
  ae_proc :: "'s \<Rightarrow> (byte list \<times> bool) list option"   \<comment> \<open>names in /proc, is it a directory\<close>
  ae_statm :: "'s \<Rightarrow> u32 \<Rightarrow> (u64 \<times> u64) option"
  ae_cmdline :: "'s \<Rightarrow> u32 \<Rightarrow> byte list option"
  ae_task :: "'s \<Rightarrow> u32 \<Rightarrow> byte list list option"        \<comment> \<open>names in /proc/pid/task\<close>
  ae_clock :: "'s \<Rightarrow> u64 \<times> u64 \<times> 's"                   \<comment> \<open>seconds and nanoseconds\<close>
  ae_junk :: u32

record 's api =
  ap_handles :: handles
  ap_heap :: heap
  m_Driver :: reader
  ap_os :: 's

definition put_obj :: "u64 \<Rightarrow> obj \<Rightarrow> 's api \<Rightarrow> 's api" where
  "put_obj p ob a = a\<lparr>ap_heap := (ap_heap a)(p \<mapsto> ob)\<rparr>"

definition new_handle :: "'s apienv \<Rightarrow> obj \<Rightarrow> 's api \<Rightarrow> (HANDLE \<times> 's api) option" where
  "new_handle E ob a =
     (case ae_new E (ap_heap a) of
        None \<Rightarrow> None
      | Some p \<Rightarrow>
          (case CreateHandleFromPointer (ae_rd E) p (kind_of ob) (ap_handles a) of
             None \<Rightarrow> None
           | Some (h, t) \<Rightarrow> Some (h, put_obj p ob (a\<lparr>ap_handles := t\<rparr>))))"

definition pid_at :: "heap \<Rightarrow> u64 \<Rightarrow> u32 option" where
  "pid_at heap p = (case heap p of Some (OpenProcessObj op) \<Rightarrow> Some (op_pid op) | _ \<Rightarrow> None)"

definition RWPROCMEM_FILE_NODE :: string where "RWPROCMEM_FILE_NODE = ''/dev/rwMem''"

definition InitReadWriteDriver :: "'s apienv \<Rightarrow> string option \<Rightarrow> bool \<Rightarrow> 's api \<Rightarrow> bool \<times> 's api" where
  "InitReadWriteDriver E lpszDevFileName bUseBypassSELinuxMode a =
     (let name = (case lpszDevFileName of None \<Rightarrow> RWPROCMEM_FILE_NODE | Some n \<Rightarrow> n) in
      case ConnectDriver (ae_drv E) name bUseBypassSELinuxMode (m_Driver a) 0 (ap_os a) of
        (ok, err, r, s) \<Rightarrow> (ok, a\<lparr>m_Driver := r, ap_os := s\<rparr>))"

section \<open>The process list\<close>

definition is_digit :: "byte \<Rightarrow> bool" where "is_digit b \<longleftrightarrow> 48 \<le> b \<and> b \<le> 57"

definition is_space :: "byte \<Rightarrow> bool" where "is_space b \<longleftrightarrow> b = 32 \<or> (9 \<le> b \<and> b \<le> 13)"

fun digits_value :: "int \<Rightarrow> byte list \<Rightarrow> int" where
  "digits_value acc [] = acc"
| "digits_value acc (b # bs) =
     (if is_digit b then digits_value (10 * acc + (uint b - 48)) bs else acc)"

definition atoi :: "byte list \<Rightarrow> u32" where
  "atoi bs =
     (case dropWhile is_space bs of
        [] \<Rightarrow> 0
      | c # r \<Rightarrow> if c = 45 then word_of_int (- digits_value 0 r)
                 else if c = 43 then word_of_int (digits_value 0 r)
                 else word_of_int (digits_value 0 (c # r)))"

fun GetProcessListInfo_loop ::
    "'s apienv \<Rightarrow> bool \<Rightarrow> 's \<Rightarrow> (byte list \<times> bool) list \<Rightarrow> MyProcessInfo list \<Rightarrow>
      MyProcessInfo list option" where
  "GetProcessListInfo_loop E bGetPhyMemorySize s [] vOutput = Some vOutput"
| "GetProcessListInfo_loop E bGetPhyMemorySize s ((d_name, is_dir) # ds) vOutput =
     (if d_name = [46] \<or> d_name = [46, 46] then GetProcessListInfo_loop E bGetPhyMemorySize s ds vOutput
      else if \<not> is_dir then GetProcessListInfo_loop E bGetPhyMemorySize s ds vOutput
      else if length (takeWhile is_digit d_name) \<noteq> length d_name
      then GetProcessListInfo_loop E bGetPhyMemorySize s ds vOutput
      else
        (let pid = atoi d_name in
         case (if bGetPhyMemorySize then map_option (\<lambda>(vmSize, outRss). outRss * 4) (ae_statm E s pid)
               else Some 0) of
           None \<Rightarrow> None
         | Some rss \<Rightarrow>
             (case ae_cmdline E s pid of
                None \<Rightarrow> None
              | Some text \<Rightarrow>
                  (let cmdline = take 500 text;
                       cmdline = (if length cmdline > 1
                                  then map (\<lambda>b. if b = 0 then 32 else b) cmdline else cmdline)
                   in GetProcessListInfo_loop E bGetPhyMemorySize s ds
                        (vOutput @ [\<lparr>mp_pid = pid, total_rss = rss, mp_cmdline = cmdline\<rparr>])))))"

definition GetProcessListInfo ::
    "'s apienv \<Rightarrow> bool \<Rightarrow> MyProcessInfo list \<Rightarrow> 's \<Rightarrow> (bool \<times> MyProcessInfo list) option" where
  "GetProcessListInfo E bGetPhyMemorySize vOutput s =
     (case ae_proc E s of
        None \<Rightarrow> Some (False, vOutput)
      | Some ds \<Rightarrow> map_option (Pair True) (GetProcessListInfo_loop E bGetPhyMemorySize s ds vOutput))"

section \<open>The module list\<close>

definition heap_name :: "byte list" where "heap_name = [91, 104, 101, 97, 112, 93]"
definition vdso_name :: "byte list" where "vdso_name = [91, 118, 100, 115, 111, 93]"

definition module_candidate :: "DRIVER_REGION_INFO \<Rightarrow> bool" where
  "module_candidate rinfo \<longleftrightarrow>
     \<not> (protection rinfo = PAGE_NOACCESS \<or> r_type rinfo = MEM_MAPPED \<or> r_name rinfo ! 0 = 0 \<or>
        cstr (r_name rinfo) = heap_name)"

definition mod_name :: "DRIVER_REGION_INFO \<Rightarrow> byte list" where
  "mod_name rinfo =
     (let name = cstr (r_name rinfo) in
      if name \<noteq> vdso_name then map (\<lambda>b. if b = 91 \<or> b = 93 then 95 else b) name else name)"

text \<open>The search for a module of the same name: a copy with the larger size is inserted before
  the entry found, the iterator moves to the old entry and erases it.\<close>

function merge_module ::
    "byte list \<Rightarrow> u64 \<Rightarrow> nat \<Rightarrow> bool \<Rightarrow> ModuleListEntry list \<Rightarrow> bool \<times> ModuleListEntry list" where
  "merge_module name sz iter isExist v =
     (if iter < length v then
        (if moduleName (v ! iter) = name then
           (let newReplace = (v ! iter)\<lparr>moduleSize := moduleSize (v ! iter) + ucast sz\<rparr>;
                v1 = take iter v @ newReplace # drop iter v;
                iter1 = iter + 1
            in if iter1 \<noteq> length v1 then (True, take iter1 v1 @ drop (iter1 + 1) v1)
               else merge_module name sz (iter1 + 1) True v1)
         else merge_module name sz (iter + 1) isExist v)
      else (isExist, v))"
  by pat_completeness auto
termination
  by (relation "measure (\<lambda>(name, sz, iter, ex, v). length v - iter)") auto

declare merge_module.simps [simp del]

definition ELF_MAGIC :: u32 where "ELF_MAGIC = 0x464c457f"

definition module_step ::
    "'s apienv \<Rightarrow> reader \<Rightarrow> u64 \<Rightarrow> DRIVER_REGION_INFO \<Rightarrow> ModuleListEntry list \<Rightarrow> 's \<Rightarrow>
      ModuleListEntry list \<times> 's" where
  "module_step E r hProc rinfo v s =
     (if \<not> module_candidate rinfo then (v, s)
      else (case merge_module (mod_name rinfo) (r_size rinfo) 0 False v of (isExist, v1) \<Rightarrow>
        if isExist then (v1, s)
        else (case ReadProcessMemory (ae_drv E) r hProc (baseaddress rinfo) (u32_bytes 0) 4 0 s of
                (b, magic, n, s') \<Rightarrow>
          if \<not> b then (v1, s')
          else if u32_of magic \<noteq> ELF_MAGIC then (v1, s')
          else (v1 @ [\<lparr>baseAddress = baseaddress rinfo, moduleSize = ucast (r_size rinfo),
                  moduleName = mod_name rinfo\<rparr>], s'))))"

fun module_loop ::
    "'s apienv \<Rightarrow> reader \<Rightarrow> u64 \<Rightarrow> DRIVER_REGION_INFO list \<Rightarrow> ModuleListEntry list \<Rightarrow> 's \<Rightarrow>
      ModuleListEntry list \<times> 's" where
  "module_loop E r hProc [] v s = (v, s)"
| "module_loop E r hProc (rinfo # rs) v s =
     (case module_step E r hProc rinfo v s of (v', s') \<Rightarrow> module_loop E r hProc rs v' s')"

section \<open>The thread list\<close>

text \<open>\<open>threadList\<close> has \<open>max\<close> cells; a store outside of them is undefined.\<close>

fun thread_loop :: "'s apienv \<Rightarrow> byte list list \<Rightarrow> nat \<Rightarrow> ThreadList \<Rightarrow> ThreadList option" where
  "thread_loop E [] mx th = Some th"
| "thread_loop E (d_name # ds) mx th =
     (let tid = atoi d_name in
      if tid \<noteq> 0 then
        (if threadCount th \<ge> length (threadList th) then None
         else
           (let th1 = th\<lparr>threadList := (threadList th)[threadCount th := tid],
                         threadCount := threadCount th + 1\<rparr>
            in if threadCount th1 \<ge> mx
               then thread_loop E ds (mx * 2)
                      (th1\<lparr>threadList := threadList th1 @ replicate (mx * 2 - length (threadList th1)) (ae_junk E)\<rparr>)
               else thread_loop E ds mx th1))
      else thread_loop E ds mx th)"

section \<open>Snapshots\<close>

definition TH32CS_SNAPPROCESS :: u32 where "TH32CS_SNAPPROCESS = 2"
definition TH32CS_SNAPTHREAD :: u32 where "TH32CS_SNAPTHREAD = 4"
definition TH32CS_SNAPMODULE :: u32 where "TH32CS_SNAPMODULE = 8"

definition CreateToolhelp32Snapshot ::
    "'s apienv \<Rightarrow> u32 \<Rightarrow> u32 \<Rightarrow> 's api \<Rightarrow> (HANDLE \<times> 's api) option" where
  "CreateToolhelp32Snapshot E dwFlags th32ProcessID a =
     (if dwFlags AND TH32CS_SNAPPROCESS \<noteq> 0 then
        (case GetProcessListInfo E False [] (ap_os a) of
           None \<Rightarrow> None
         | Some (ok, v) \<Rightarrow> new_handle E (CeProcessList v 0) a)
      else if dwFlags AND TH32CS_SNAPMODULE \<noteq> 0 then
        (case FindHandleByPID (pid_at (ap_heap a)) th32ProcessID (ap_handles a) of
           None \<Rightarrow> None
         | Some hm \<Rightarrow>
             if raw hm = 0 then Some (HANDLE 0, a)
             else (case ap_heap a (GetPointerFromHandle hm (ap_handles a)) of
               Some (OpenProcessObj pCeOpenProcess) \<Rightarrow>
                 (case VirtualQueryExFull (ae_drv E) (m_Driver a) (u64DriverProcessHandle pCeOpenProcess)
                         False (ap_os a) of
                    None \<Rightarrow> None
                  | Some (b, vMaps, bOutListCompleted, s) \<Rightarrow>
                      if vMaps = [] then Some (HANDLE 0, a\<lparr>ap_os := s\<rparr>)
                      else (case module_loop E (m_Driver a) (u64DriverProcessHandle pCeOpenProcess) vMaps [] s of
                              (v, s') \<Rightarrow> new_handle E (CeModuleList v 0) (a\<lparr>ap_os := s'\<rparr>)))
             | _ \<Rightarrow> None))
      else if dwFlags AND TH32CS_SNAPTHREAD \<noteq> 0 then
        (if th32ProcessID = 0 then Some (HANDLE 0, a)
         else (case ae_task E (ap_os a) th32ProcessID of
           None \<Rightarrow> Some (HANDLE 0, a)
         | Some names \<Rightarrow>
             (case thread_loop E names 64 \<lparr>ReferenceCount = 1, threadListIterator = ae_junk E,
                     threadCount = 0, threadList = replicate 64 (ae_junk E)\<rparr> of
                None \<Rightarrow> None
              | Some th \<Rightarrow> new_handle E (ThreadListObj th) a)))
      else Some (HANDLE 0, a))"

definition process_entry :: "MyProcessInfo \<Rightarrow> ProcessListEntry" where
  "process_entry p = \<lparr>PID = mp_pid p, ProcessName = mp_cmdline p\<rparr>"

text \<open>The answer is the entry for TRUE and \<open>None\<close> for FALSE.\<close>

definition Process32First :: "HANDLE \<Rightarrow> 's api \<Rightarrow> (ProcessListEntry option \<times> 's api) option" where
  "Process32First hSnapshot a =
     (if GetHandleType hSnapshot (ap_handles a) = htTHSProcess then
        (let p = GetPointerFromHandle hSnapshot (ap_handles a) in
         case ap_heap a p of
           Some (CeProcessList v readIter) \<Rightarrow>
             Some (if 0 \<noteq> length v then Some (process_entry (v ! 0)) else None,
                   put_obj p (CeProcessList v 0) a)
         | _ \<Rightarrow> None)
      else Some (None, a))"

definition Process32Next :: "HANDLE \<Rightarrow> 's api \<Rightarrow> (ProcessListEntry option \<times> 's api) option" where
  "Process32Next hSnapshot a =
     (if GetHandleType hSnapshot (ap_handles a) = htTHSProcess then
        (let p = GetPointerFromHandle hSnapshot (ap_handles a) in
         case ap_heap a p of
           Some (CeProcessList v readIter) \<Rightarrow>
             if readIter \<ge> length v then None
             else (let it = readIter + 1 in
                   Some (if it \<noteq> length v then Some (process_entry (v ! it)) else None,
                         put_obj p (CeProcessList v it) a))
         | _ \<Rightarrow> None)
      else Some (None, a))"

definition Module32First :: "HANDLE \<Rightarrow> 's api \<Rightarrow> (ModuleListEntry option \<times> 's api) option" where
  "Module32First hSnapshot a =
     (if GetHandleType hSnapshot (ap_handles a) = htTHSModule then
        (let p = GetPointerFromHandle hSnapshot (ap_handles a) in
         case ap_heap a p of
           Some (CeModuleList v readIter) \<Rightarrow>
             Some (if 0 \<noteq> length v then Some (v ! 0) else None, put_obj p (CeModuleList v 0) a)
         | _ \<Rightarrow> None)
      else Some (None, a))"

definition Module32Next :: "HANDLE \<Rightarrow> 's api \<Rightarrow> (ModuleListEntry option \<times> 's api) option" where
  "Module32Next hSnapshot a =
     (if GetHandleType hSnapshot (ap_handles a) = htTHSModule then
        (let p = GetPointerFromHandle hSnapshot (ap_handles a) in
         case ap_heap a p of
           Some (CeModuleList v readIter) \<Rightarrow>
             if readIter \<ge> length v then None
             else (let it = readIter + 1 in
                   Some (if it \<noteq> length v then Some (v ! it) else None, put_obj p (CeModuleList v it) a))
         | _ \<Rightarrow> None)
      else Some (None, a))"

section \<open>Processes\<close>

definition Api_OpenProcess :: "'s apienv \<Rightarrow> u32 \<Rightarrow> 's api \<Rightarrow> (HANDLE \<times> 's api) option" where
  "Api_OpenProcess E pid a =
     (case FindHandleByPID (pid_at (ap_heap a)) pid (ap_handles a) of
        None \<Rightarrow> None
      | Some hm \<Rightarrow>
          if raw hm \<noteq> 0 then Some (hm, a)
          else
            (let drvHandle = drv_OpenProcess (scast pid) in
             if drvHandle = 0 then Some (HANDLE 0, a)
             else new_handle E (OpenProcessObj \<lparr>op_pid = pid, u64DriverProcessHandle = drvHandle,
                    vLastMaps = [], nLastGetMapsTime = 0\<rparr>) a))"

definition Api_CloseHandle :: "HANDLE \<Rightarrow> 's api \<Rightarrow> 's api option" where
  "Api_CloseHandle h a =
     (let ht = GetHandleType h (ap_handles a);
          pl = GetPointerFromHandle h (ap_handles a);
          freed = a\<lparr>ap_heap := (ap_heap a)(pl := None), ap_handles := RemoveHandle h (ap_handles a)\<rparr>
      in if ht = htTHSModule then
           (case ap_heap a pl of Some (CeModuleList v i) \<Rightarrow> Some freed | _ \<Rightarrow> None)
         else if ht = htTHSProcess then
           (case ap_heap a pl of Some (CeProcessList v i) \<Rightarrow> Some freed | _ \<Rightarrow> None)
         else if ht = htProcesHandle then
           (case ap_heap a pl of Some (OpenProcessObj op) \<Rightarrow> Some freed | _ \<Rightarrow> None)
         else if ht = htTHSThread then
           (case ap_heap a pl of Some (ThreadListObj th) \<Rightarrow> Some freed | _ \<Rightarrow> None)
         else Some (a\<lparr>ap_handles := RemoveHandle h (ap_handles a)\<rparr>))"

section \<open>Regions\<close>

definition VQE_NOSHARED :: u32 where "VQE_NOSHARED = 4"

definition clock_ms :: "u64 \<Rightarrow> u64 \<Rightarrow> u64" where
  "clock_ms tv_sec tv_nsec = tv_sec * 1000 + tv_nsec div 1000000"

text \<open>Asking the driver for the resident regions and remembering the answer.\<close>

definition refresh_maps ::
    "'s apienv \<Rightarrow> CeOpenProcess \<Rightarrow> 's api \<Rightarrow> (CeOpenProcess \<times> 's api) option" where
  "refresh_maps E op a =
     (case VirtualQueryExFull (ae_drv E) (m_Driver a) (u64DriverProcessHandle op) True (ap_os a) of
        None \<Rightarrow> None
      | Some (b, vMaps, bOutListCompleted, s) \<Rightarrow>
          if vMaps = [] then Some (op\<lparr>vLastMaps := [], nLastGetMapsTime := 0\<rparr>, a\<lparr>ap_os := s\<rparr>)
          else (case ae_clock E s of (tv_sec, tv_nsec, s') \<Rightarrow>
                  Some (op\<lparr>vLastMaps := vMaps, nLastGetMapsTime := clock_ms tv_sec tv_nsec\<rparr>, a\<lparr>ap_os := s'\<rparr>)))"

definition region_info :: "DRIVER_REGION_INFO \<Rightarrow> RegionInfo" where
  "region_info r = \<lparr>ri_baseaddress = baseaddress r, ri_size = r_size r, ri_protection = protection r,
     ri_type = r_type r\<rparr>"

fun full_regions :: "bool \<Rightarrow> DRIVER_REGION_INFO list \<Rightarrow> RegionInfo list" where
  "full_regions noshared [] = []"
| "full_regions noshared (rinfo # rs) =
     (if protection rinfo = PAGE_NOACCESS then full_regions noshared rs
      else if r_type rinfo = MEM_MAPPED \<and> noshared then full_regions noshared rs
      else region_info rinfo # full_regions noshared rs)"

definition Api_VirtualQueryExFull ::
    "'s apienv \<Rightarrow> HANDLE \<Rightarrow> u32 \<Rightarrow> RegionInfo list \<Rightarrow> 's api \<Rightarrow> (int \<times> RegionInfo list \<times> 's api) option" where
  "Api_VirtualQueryExFull E hProcess flags vRinfo a =
     (if GetHandleType hProcess (ap_handles a) \<noteq> htProcesHandle then Some (0, vRinfo, a)
      else
        (let p = GetPointerFromHandle hProcess (ap_handles a) in
         case ap_heap a p of
           Some (OpenProcessObj op) \<Rightarrow>
             (case refresh_maps E op a of
                None \<Rightarrow> None
              | Some (op', a') \<Rightarrow>
                  if vLastMaps op' = [] then Some (0, [], put_obj p (OpenProcessObj op') a')
                  else Some (1, full_regions (flags AND VQE_NOSHARED \<noteq> 0) (vLastMaps op'),
                             put_obj p (OpenProcessObj op') a'))
         | _ \<Rightarrow> None))"

text \<open>The search of \<open>VirtualQueryEx\<close> in the cached list.\<close>

fun find_region ::
    "u64 \<Rightarrow> RegionInfo \<Rightarrow> byte list \<Rightarrow> DRIVER_REGION_INFO list \<Rightarrow> bool \<times> RegionInfo \<times> byte list" where
  "find_region lpAddress rinfo memName [] = (False, rinfo, memName)"
| "find_region lpAddress rinfo memName (r # rs) =
     (let stop = baseaddress r + r_size r in
      if stop > lpAddress then
        (True,
         (if lpAddress \<ge> baseaddress r
          then rinfo\<lparr>ri_protection := protection r, ri_type := r_type r,
                 ri_size := stop - ri_baseaddress rinfo\<rparr>
          else rinfo\<lparr>ri_size := baseaddress r - ri_baseaddress rinfo,
                 ri_protection := PAGE_NOACCESS, ri_type := 0\<rparr>),
         cstr (r_name r))
      else find_region lpAddress rinfo memName rs)"

definition Api_VirtualQueryEx ::
    "'s apienv \<Rightarrow> HANDLE \<Rightarrow> u64 \<Rightarrow> RegionInfo \<Rightarrow> byte list \<Rightarrow> 's api \<Rightarrow>
      (bool \<times> RegionInfo \<times> byte list \<times> 's api) option" where
  "Api_VirtualQueryEx E hProcess lpAddress rinfo memName a =
     (if GetHandleType hProcess (ap_handles a) \<noteq> htProcesHandle then Some (False, rinfo, memName, a)
      else
        (let p = GetPointerFromHandle hProcess (ap_handles a) in
         case ap_heap a p of
           Some (OpenProcessObj op) \<Rightarrow>
             (case ae_clock E (ap_os a) of (tv_sec, tv_nsec, s) \<Rightarrow>
              case (if clock_ms tv_sec tv_nsec - nLastGetMapsTime op > 1000 * 60
                    then refresh_maps E op (a\<lparr>ap_os := s\<rparr>)
                    else Some (op, a\<lparr>ap_os := s\<rparr>)) of
                None \<Rightarrow> None
              | Some (op', a') \<Rightarrow>
                  if clock_ms tv_sec tv_nsec - nLastGetMapsTime op > 1000 * 60 \<and> vLastMaps op' = []
                  then Some (False, rinfo, memName, put_obj p (OpenProcessObj op') a')
                  else
                    (let page = lpAddress AND NOT 0xfff in
                     case find_region page (rinfo\<lparr>ri_protection := 0, ri_baseaddress := page\<rparr>)
                            memName (vLastMaps op') of
                       (found, ri, nm) \<Rightarrow> Some (found, ri, nm, put_obj p (OpenProcessObj op') a')))
         | _ \<Rightarrow> None))"

section \<open>Memory\<close>

definition Api_ReadProcessMemory ::
    "'s apienv \<Rightarrow> HANDLE \<Rightarrow> u64 \<Rightarrow> byte list \<Rightarrow> u32 \<Rightarrow> 's api \<Rightarrow> (u32 \<times> byte list \<times> 's api) option" where
  "Api_ReadProcessMemory E hProcess lpAddress buffer sz a =
     (if GetHandleType hProcess (ap_handles a) \<noteq> htProcesHandle then Some (0, buffer, a)
      else (case ap_heap a (GetPointerFromHandle hProcess (ap_handles a)) of
              Some (OpenProcessObj op) \<Rightarrow>
                (case ReadProcessMemory (ae_drv E) (m_Driver a) (u64DriverProcessHandle op) lpAddress buffer
                        (scast sz) 0 (ap_os a) of
                   (ok, buffer', bread, s) \<Rightarrow>
                     Some (case bread of None \<Rightarrow> 0 | Some n \<Rightarrow> word_of_int n, buffer', a\<lparr>ap_os := s\<rparr>))
            | _ \<Rightarrow> None))"

definition Api_WriteProcessMemory ::
    "'s apienv \<Rightarrow> HANDLE \<Rightarrow> u64 \<Rightarrow> byte list \<Rightarrow> u32 \<Rightarrow> 's api \<Rightarrow> (u32 \<times> 's api) option" where
  "Api_WriteProcessMemory E hProcess lpAddress buffer sz a =
     (if GetHandleType hProcess (ap_handles a) \<noteq> htProcesHandle then Some (0, a)
      else (case ap_heap a (GetPointerFromHandle hProcess (ap_handles a)) of
              Some (OpenProcessObj op) \<Rightarrow>
                (case WriteProcessMemory (ae_drv E) (m_Driver a) (u64DriverProcessHandle op) lpAddress buffer
                        (scast sz) 0 (ap_os a) of
                   None \<Rightarrow> None
                 | Some (ok, written, s) \<Rightarrow>
                     Some (case written of None \<Rightarrow> 0 | Some n \<Rightarrow> word_of_int n, a\<lparr>ap_os := s\<rparr>))
            | _ \<Rightarrow> None))"

end
