(* ===== verification/Api_Handles.thy ===== *)
theory Api_Handles
  imports Ce_Api
begin

text \<open>
  The ownership of the server's objects (CEServer/api.cpp over porthelp.cpp): every operation of
  the server keeps the handles in one-to-one correspondence with the live objects of their
  kinds. The client lemmas of the locale \<open>handle_table\<close> carry the proofs, through its
  interpretation on the table of porthelp.cpp.
\<close>

section \<open>Handles own their objects\<close>

definition api_owns :: "'s api \<Rightarrow> bool" where
  "api_owns a \<longleftrightarrow> handles_wf (ap_handles a) \<and>
     owns (\<lambda>t h. find_handle h t) kind_of (ap_handles a) (ap_heap a)"

text \<open>What the code relies on from \<open>operator new\<close>: the storage is not null and not in use.\<close>

definition new_fresh :: "'s apienv \<Rightarrow> bool" where
  "new_fresh E \<longleftrightarrow> (\<forall>heap p. ae_new E heap = Some p \<longrightarrow> p \<noteq> 0 \<and> heap p = None)"

named_theorems api_inv \<open>operations keep the ownership invariant\<close>

lemma api_owns_irrelevant [simp]:
  "api_owns (a\<lparr>ap_os := s\<rparr>) = api_owns a" "api_owns (a\<lparr>m_Driver := r\<rparr>) = api_owns a"
  by (simp_all add: api_owns_def)

lemma put_obj_sel [simp]:
  "ap_handles (put_obj p ob a) = ap_handles a" "ap_heap (put_obj p ob a) = (ap_heap a)(p \<mapsto> ob)"
  "m_Driver (put_obj p ob a) = m_Driver a" "ap_os (put_obj p ob a) = ap_os a"
  by (simp_all add: put_obj_def)

lemma put_obj_owns [api_inv]:
  "api_owns a \<Longrightarrow> ap_heap a p = Some ob \<Longrightarrow> kind_of ob' = kind_of ob \<Longrightarrow> api_owns (put_obj p ob' a)"
  by (auto simp: api_owns_def intro: owns_update)

lemma new_handle_unfold:
  assumes "new_handle E ob a = Some (h, a')"
  obtains p t where "ae_new E (ap_heap a) = Some p"
    "CreateHandleFromPointer (ae_rd E) p (kind_of ob) (ap_handles a) = Some (h, t)"
    "a' = put_obj p ob (a\<lparr>ap_handles := t\<rparr>)"
  using assms by (auto simp: new_handle_def split: option.splits)

lemma new_handle_owns [api_inv]:
  assumes "new_fresh E" "api_owns a" "new_handle E ob a = Some (h, a')"
  shows "api_owns a'"
proof -
  obtain p t where n: "ae_new E (ap_heap a) = Some p"
    "CreateHandleFromPointer (ae_rd E) p (kind_of ob) (ap_handles a) = Some (h, t)"
    "a' = put_obj p ob (a\<lparr>ap_handles := t\<rparr>)" by (rule new_handle_unfold [OF assms(3)])
  have w: "handles_wf (ap_handles a)" "owns (\<lambda>t h. find_handle h t) kind_of (ap_handles a) (ap_heap a)"
    using assms(2) by (simp_all add: api_owns_def)
  have f: "ap_heap a p = None" "p \<noteq> 0" using assms(1) n(1) by (auto simp: new_fresh_def)
  from ht.owns_create [OF w n(2) f] ht.create_wf [OF w(1) n(2)] show ?thesis
    unfolding n(3) by (simp add: api_owns_def)
qed

lemma new_handle_ok:
  assumes "api_owns a" "ae_new E (ap_heap a) = Some p" "rd_calls (ap_handles a) \<le> n"
    "find_handle (draw_handle (ae_rd E n)) (ap_handles a) = None"
  shows "\<exists>h t. new_handle E ob a = Some (h, put_obj p ob (a\<lparr>ap_handles := t\<rparr>)) \<and>
    find_handle h (ap_handles a) = None \<and> raw h \<noteq> 0 \<and>
    GetHandleType h t = kind_of ob \<and> GetPointerFromHandle h t = p \<and>
    (\<forall>k. find_handle k t = (if k = h then Some \<lparr>hi_p = p, hi_type = kind_of ob\<rparr>
      else find_handle k (ap_handles a)))"
proof -
  have w: "handles_wf (ap_handles a)" using assms(1) by (simp add: api_owns_def)
  obtain h t where c: "CreateHandleFromPointer (ae_rd E) p (kind_of ob) (ap_handles a) = Some (h, t)"
    using create_handle_ok [where rd = "ae_rd E", OF w assms(3,4)] by blast
  with assms(2) ht.create_fresh [OF w c] ht.create_find [OF w c] show ?thesis
    by (intro exI [of _ h] exI [of _ t]) (simp add: new_handle_def handle_sel)
qed

lemma handle_obj:
  assumes "api_owns a" "GetHandleType h (ap_handles a) = ty" "ty \<noteq> htEmpty"
  obtains ob where "ap_heap a (GetPointerFromHandle h (ap_handles a)) = Some ob" "kind_of ob = ty"
proof -
  have o: "owns (\<lambda>t h. find_handle h t) kind_of (ap_handles a) (ap_heap a)"
    using assms(1) by (simp add: api_owns_def)
  from assms(2,3) obtain i where i: "find_handle h (ap_handles a) = Some i" "hi_type i = ty"
    by (auto simp: handle_sel split: option.splits)
  from owns_live [OF o i(1)] i that show ?thesis by (auto simp: handle_sel)
qed

lemma kind_of_cases:
  "kind_of ob = htTHSProcess \<longleftrightarrow> (\<exists>v i. ob = CeProcessList v i)"
  "kind_of ob = htTHSModule \<longleftrightarrow> (\<exists>v i. ob = CeModuleList v i)"
  "kind_of ob = htProcesHandle \<longleftrightarrow> (\<exists>p. ob = OpenProcessObj p)"
  "kind_of ob = htTHSThread \<longleftrightarrow> (\<exists>t. ob = ThreadListObj t)"
  by (cases ob; simp)+

lemma owned_not_empty:
  assumes "api_owns a" "find_handle h (ap_handles a) = Some i"
  shows "hi_type i \<noteq> htEmpty"
proof -
  have "kind_of ob \<noteq> htEmpty" for ob by (cases ob) simp_all
  with owns_live [of "\<lambda>t h. find_handle h t" kind_of "ap_handles a" "ap_heap a" h i] assms
  show ?thesis by (auto simp: api_owns_def)
qed

lemma handle_kinds:
  assumes "api_owns a"
  shows "GetHandleType h (ap_handles a) = htTHSProcess \<Longrightarrow>
      \<exists>v i. ap_heap a (GetPointerFromHandle h (ap_handles a)) = Some (CeProcessList v i)"
    "GetHandleType h (ap_handles a) = htTHSModule \<Longrightarrow>
      \<exists>v i. ap_heap a (GetPointerFromHandle h (ap_handles a)) = Some (CeModuleList v i)"
    "GetHandleType h (ap_handles a) = htProcesHandle \<Longrightarrow>
      \<exists>op. ap_heap a (GetPointerFromHandle h (ap_handles a)) = Some (OpenProcessObj op)"
    "GetHandleType h (ap_handles a) = htTHSThread \<Longrightarrow>
      \<exists>th. ap_heap a (GetPointerFromHandle h (ap_handles a)) = Some (ThreadListObj th)"
  by (erule handle_obj [OF assms], simp, auto simp: kind_of_cases)+

lemma pid_at_defined:
  assumes "api_owns a" "find_handle k (ap_handles a) = Some i" "hi_type i = htProcesHandle"
  shows "pid_at (ap_heap a) (hi_p i) \<noteq> None"
  using handle_kinds(3) [OF assms(1), of k] assms(2,3) by (auto simp: handle_sel pid_at_def)

lemma find_pid_result:
  assumes "api_owns a"
  shows "\<exists>h. FindHandleByPID (pid_at (ap_heap a)) pid (ap_handles a) = Some h \<and>
    (if h = HANDLE 0
     then \<forall>k i. find_handle k (ap_handles a) = Some i \<longrightarrow> hi_type i = htProcesHandle \<longrightarrow>
       pid_at (ap_heap a) (hi_p i) \<noteq> Some pid
     else (\<exists>i. find_handle h (ap_handles a) = Some i \<and> hi_type i = htProcesHandle \<and>
         pid_at (ap_heap a) (hi_p i) = Some pid) \<and>
       (\<forall>k i. find_handle k (ap_handles a) = Some i \<longrightarrow> k < h \<longrightarrow> hi_type i = htProcesHandle \<longrightarrow>
         pid_at (ap_heap a) (hi_p i) \<noteq> Some pid))"
proof (rule find_handle_by_pid_ok)
  show "handles_wf (ap_handles a)" using assms by (simp add: api_owns_def)
qed (rule pid_at_defined [OF assms])

lemma close_handle_cases:
  assumes "api_owns a"
  shows "Api_CloseHandle h a =
    (case find_handle h (ap_handles a) of
       None \<Rightarrow> Some a
     | Some i \<Rightarrow> Some (a\<lparr>ap_heap := (ap_heap a)(hi_p i := None),
                          ap_handles := RemoveHandle h (ap_handles a)\<rparr>))"
proof (cases "find_handle h (ap_handles a)")
  case None
  then show ?thesis
    by (simp add: Api_CloseHandle_def handle_sel Let_def RemoveHandle_def find_handle_def)
next
  case (Some i)
  have o: "owns (\<lambda>t h. find_handle h t) kind_of (ap_handles a) (ap_heap a)"
    using assms(1) by (simp add: api_owns_def)
  from owns_live [OF o Some] obtain ob where ob: "ap_heap a (hi_p i) = Some ob" "kind_of ob = hi_type i" by blast
  show ?thesis
    by (cases ob) (use ob Some in \<open>simp_all add: Api_CloseHandle_def handle_sel Let_def flip: ob(2)\<close>)
qed

lemma close_handle_owns [api_inv]:
  assumes "api_owns a" "Api_CloseHandle h a = Some a'"
  shows "api_owns a'"
proof (cases "find_handle h (ap_handles a)")
  case None
  with assms show ?thesis by (simp add: close_handle_cases)
next
  case (Some i)
  have w: "handles_wf (ap_handles a)" "owns (\<lambda>t h. find_handle h t) kind_of (ap_handles a) (ap_heap a)"
    using assms(1) by (simp_all add: api_owns_def)
  from assms Some ht.owns_remove [OF w Some] ht.remove_wf [OF w(1)] show ?thesis
    by (auto simp: close_handle_cases api_owns_def)
qed

lemma refresh_maps_shape:
  assumes "refresh_maps E op a = Some (op', a')"
  shows "ap_handles a' = ap_handles a" "ap_heap a' = ap_heap a" "m_Driver a' = m_Driver a"
    "op_pid op' = op_pid op" "u64DriverProcessHandle op' = u64DriverProcessHandle op"
  using assms by (auto simp: refresh_maps_def split: option.splits if_splits prod.splits)

lemma api_owns_cong:
  "ap_handles a' = ap_handles a \<Longrightarrow> ap_heap a' = ap_heap a \<Longrightarrow> api_owns a' = api_owns a"
  by (simp add: api_owns_def)

lemma process_first_owns [api_inv]:
  "api_owns a \<Longrightarrow> Process32First h a = Some (e, a') \<Longrightarrow> api_owns a'"
  by (auto simp: Process32First_def Let_def split: if_splits option.splits obj.splits intro: put_obj_owns)

lemma process_next_owns [api_inv]:
  "api_owns a \<Longrightarrow> Process32Next h a = Some (e, a') \<Longrightarrow> api_owns a'"
  by (auto simp: Process32Next_def Let_def split: if_splits option.splits obj.splits intro: put_obj_owns)

lemma module_first_owns [api_inv]:
  "api_owns a \<Longrightarrow> Module32First h a = Some (e, a') \<Longrightarrow> api_owns a'"
  by (auto simp: Module32First_def Let_def split: if_splits option.splits obj.splits intro: put_obj_owns)

lemma module_next_owns [api_inv]:
  "api_owns a \<Longrightarrow> Module32Next h a = Some (e, a') \<Longrightarrow> api_owns a'"
  by (auto simp: Module32Next_def Let_def split: if_splits option.splits obj.splits intro: put_obj_owns)

lemma open_process_owns [api_inv]:
  "new_fresh E \<Longrightarrow> api_owns a \<Longrightarrow> Api_OpenProcess E pid a = Some (h, a') \<Longrightarrow> api_owns a'"
  by (auto simp: Api_OpenProcess_def Let_def split: if_splits option.splits intro: new_handle_owns)

lemma snapshot_owns [api_inv]:
  "new_fresh E \<Longrightarrow> api_owns a \<Longrightarrow> CreateToolhelp32Snapshot E fl pid a = Some (h, a') \<Longrightarrow> api_owns a'"
  by (auto simp: CreateToolhelp32Snapshot_def split: if_splits option.splits obj.splits prod.splits
      elim!: new_handle_owns [rotated 2])

lemma query_full_owns [api_inv]:
  assumes "api_owns a" "Api_VirtualQueryExFull E h fl v a = Some (r, v', a')"
  shows "api_owns a'"
proof -
  have "api_owns (put_obj p (OpenProcessObj op') a1)"
    if "ap_heap a p = Some (OpenProcessObj op)" "refresh_maps E op a = Some (op', a1)" for p op op' a1
    using assms(1) that by (intro put_obj_owns [of _ _ "OpenProcessObj op"])
      (simp_all add: refresh_maps_shape [OF that(2)] api_owns_cong [OF refresh_maps_shape(1,2) [OF that(2)]])
  with assms show ?thesis
    by (auto simp: Api_VirtualQueryExFull_def Let_def split: if_splits option.splits obj.splits)
qed

lemma query_owns [api_inv]:
  assumes "api_owns a" "Api_VirtualQueryEx E h addr ri nm a = Some (r, ri', nm', a')"
  shows "api_owns a'"
proof -
  have k: "api_owns (put_obj p (OpenProcessObj op') a1)"
    if "ap_heap a p = Some (OpenProcessObj op)" "ap_handles a1 = ap_handles a" "ap_heap a1 = ap_heap a" for p op op' a1
    using assms(1) that by (intro put_obj_owns [of _ _ "OpenProcessObj op"]) (simp_all add: api_owns_cong [OF that(2,3)])
  from assms show ?thesis
    by (auto simp: Api_VirtualQueryEx_def Let_def split: if_splits option.splits obj.splits prod.splits
        intro!: k dest: refresh_maps_shape)
qed

lemma memory_owns [api_inv]:
  "api_owns a \<Longrightarrow> Api_ReadProcessMemory E h addr b n a = Some (r, b', a') \<Longrightarrow> api_owns a'"
  "api_owns a \<Longrightarrow> Api_WriteProcessMemory E h addr b n a = Some (r, a') \<Longrightarrow> api_owns a'"
  by (auto simp: Api_ReadProcessMemory_def Api_WriteProcessMemory_def
      split: if_splits option.splits obj.splits prod.splits)

inductive api_step :: "'s apienv \<Rightarrow> 's api \<Rightarrow> 's api \<Rightarrow> bool" for E where
  connect: "InitReadWriteDriver E name bypass a = (ok, a') \<Longrightarrow> api_step E a a'"
| snapshot: "CreateToolhelp32Snapshot E fl pid a = Some (h, a') \<Longrightarrow> api_step E a a'"
| process_first: "Process32First h a = Some (e, a') \<Longrightarrow> api_step E a a'"
| process_next: "Process32Next h a = Some (e, a') \<Longrightarrow> api_step E a a'"
| module_first: "Module32First h a = Some (m, a') \<Longrightarrow> api_step E a a'"
| module_next: "Module32Next h a = Some (m, a') \<Longrightarrow> api_step E a a'"
| open_process: "Api_OpenProcess E pid a = Some (h, a') \<Longrightarrow> api_step E a a'"
| close_handle: "Api_CloseHandle h a = Some a' \<Longrightarrow> api_step E a a'"
| query_full: "Api_VirtualQueryExFull E h fl v a = Some (r, v', a') \<Longrightarrow> api_step E a a'"
| query: "Api_VirtualQueryEx E h addr ri nm a = Some (b, ri', nm', a') \<Longrightarrow> api_step E a a'"
| read_memory: "Api_ReadProcessMemory E h addr buf n a = Some (got, buf', a') \<Longrightarrow> api_step E a a'"
| write_memory: "Api_WriteProcessMemory E h addr buf n a = Some (got, a') \<Longrightarrow> api_step E a a'"

definition api_start :: "reader \<Rightarrow> 's \<Rightarrow> 's api" where
  "api_start r s = \<lparr>ap_handles = no_handles, ap_heap = (\<lambda>_. None), m_Driver = r, ap_os = s\<rparr>"

lemma api_start_owns: "api_owns (api_start r s)"
  by (simp add: api_owns_def api_start_def owns_def find_handle_def no_handles_def handles_wf_def)

lemma api_step_owns:
  assumes "new_fresh E" "api_owns a" "api_step E a a'"
  shows "api_owns a'"
  using assms(3)
proof cases
  case (connect name bypass ok)
  with assms(2) show ?thesis by (auto simp: InitReadWriteDriver_def Let_def split: prod.splits)
qed (rule snapshot_owns [OF assms(1,2)] open_process_owns [OF assms(1,2)]
    process_first_owns [OF assms(2)] process_next_owns [OF assms(2)]
    module_first_owns [OF assms(2)] module_next_owns [OF assms(2)] close_handle_owns [OF assms(2)]
    query_full_owns [OF assms(2)] query_owns [OF assms(2)] memory_owns [OF assms(2)], assumption)+

lemma api_reach_owns:
  assumes "new_fresh E" "(api_step E)\<^sup>*\<^sup>* a a'" "api_owns a"
  shows "api_owns a'"
  using assms(2,3) by (induction rule: rtranclp_induct) (auto intro: api_step_owns [OF assms(1)])

text \<open>Whatever operations the server runs, in any order, every handle of the table names a live
  object of its kind, no object has two handles, and no object is left without one: nothing
  leaks and nothing dangles.\<close>

theorem api_handles_own_objects:
  assumes "new_fresh E" "(api_step E)\<^sup>*\<^sup>* (api_start r s) a"
  shows "(\<forall>h. GetHandleType h (ap_handles a) \<noteq> htEmpty \<longrightarrow>
      map_option kind_of (ap_heap a (GetPointerFromHandle h (ap_handles a))) =
        Some (GetHandleType h (ap_handles a))) \<and>
    (\<forall>p. ap_heap a p \<noteq> None \<longrightarrow>
      (\<exists>!h. GetHandleType h (ap_handles a) \<noteq> htEmpty \<and> GetPointerFromHandle h (ap_handles a) = p))"
proof -
  have own: "api_owns a" by (rule api_reach_owns [OF assms api_start_owns])
  then have o: "owns (\<lambda>t h. find_handle h t) kind_of (ap_handles a) (ap_heap a)"
    by (simp add: api_owns_def)
  have kind: "find_handle h (ap_handles a) = Some i \<Longrightarrow> hi_type i \<noteq> htEmpty" for h i
    by (rule owned_not_empty [OF own])
  have "\<exists>!h. GetHandleType h (ap_handles a) \<noteq> htEmpty \<and> GetPointerFromHandle h (ap_handles a) = p"
    if live: "ap_heap a p \<noteq> None" for p
  proof -
    obtain h i where h: "find_handle h (ap_handles a) = Some i" "hi_p i = p"
      using owns_all [OF o live] by blast
    show ?thesis
    proof (rule ex1I [of _ h])
      show "GetHandleType h (ap_handles a) \<noteq> htEmpty \<and> GetPointerFromHandle h (ap_handles a) = p"
        using h kind by (simp add: handle_sel)
      fix k assume "GetHandleType k (ap_handles a) \<noteq> htEmpty \<and> GetPointerFromHandle k (ap_handles a) = p"
      then obtain j where "find_handle k (ap_handles a) = Some j" "hi_p j = p"
        by (auto simp: handle_sel split: option.splits)
      with owns_inj [OF o] h show "k = h" by blast
    qed
  qed
  moreover have "map_option kind_of (ap_heap a (GetPointerFromHandle h (ap_handles a))) =
      Some (GetHandleType h (ap_handles a))" if "GetHandleType h (ap_handles a) \<noteq> htEmpty" for h
    by (rule handle_obj [OF own refl that]) simp
  ultimately show ?thesis by blast
qed

text \<open>A server with one open process and one snapshot, over the driver's model.\<close>

definition demo_api :: "bpw apienv" where
  "demo_api = \<lparr>ae_drv = kernel_drv 0x1000 (demo_ioenv (Inr 0)), ae_rd = (\<lambda>n. word_of_nat (1000 * n)),
     ae_new = (\<lambda>heap. if heap 0x1000 = None then Some 0x1000
                      else if heap 0x2000 = None then Some 0x2000 else None),
     ae_proc = (\<lambda>_. Some [([46], True), ([55], True), ([115, 121, 115], True), ([52, 50], True)]),
     ae_statm = (\<lambda>_ _. None), ae_cmdline = (\<lambda>_ pid. Some [104, 105, 0]),
     ae_task = (\<lambda>_ pid. Some [[46], [55], [57]]), ae_clock = (\<lambda>s. (100, 0, s)), ae_junk = 0xdead\<rparr>"

lemma demo_api_sel:
  "ae_rd demo_api n = word_of_nat (1000 * n)"
  "ae_new demo_api heap = (if heap 0x1000 = None then Some 0x1000
     else if heap 0x2000 = None then Some 0x2000 else None)"
  "ae_drv demo_api = kernel_drv 0x1000 (demo_ioenv (Inr 0))"
  "ae_clock demo_api w = (100, 0, w)" "ae_junk demo_api = 0xdead"
  "ae_proc demo_api w = Some [([46], True), ([55], True), ([115, 121, 115], True), ([52, 50], True)]"
  "ae_cmdline demo_api w pid = Some [104, 105, 0]" "ae_task demo_api w pid = Some [[46], [55], [57]]"
  by (simp_all add: demo_api_def)

lemma demo_new_fresh: "new_fresh demo_api"
  by (auto simp: new_fresh_def demo_api_sel split: if_splits)

definition demo_process :: CeOpenProcess where
  "demo_process = \<lparr>op_pid = 7, u64DriverProcessHandle = 7, vLastMaps = [], nLastGetMapsTime = 0\<rparr>"

definition demo_opened :: "'s \<Rightarrow> 's api" where
  "demo_opened s = (api_start demo_reader s)\<lparr>ap_handles := \<lparr>m_HandlePointList =
      [(HANDLE 10000, \<lparr>hi_p = 0x1000, hi_type = htProcesHandle\<rparr>)], rd_calls = 1\<rparr>,
     ap_heap := [0x1000 \<mapsto> OpenProcessObj demo_process]\<rparr>"

definition demo_open :: "bpw api" where
  "demo_open = demo_opened demo_bp0"

lemma demo_opened_owns: "api_owns (demo_opened s)"
  by (auto simp: api_owns_def demo_opened_def owns_def find_handle_def handles_wf_def split: if_splits)

lemma demo_open_owns: "api_owns demo_open"
  unfolding demo_open_def by (rule demo_opened_owns)

lemma pick_first: "map_of tbl (draw_handle (rd n)) = None \<Longrightarrow> pick_handle rd tbl n = Some (draw_handle (rd n), n + 1)"
  by (subst pick_handle.simps) (simp add: Let_def)

lemma draw_handle_demo: "draw_handle 0 = HANDLE 10000" "draw_handle 0x3e8 = HANDLE 10001"
  by (simp_all add: draw_handle_def word_sless_alt)

lemma demo_open_step: "Api_OpenProcess demo_api 7 (api_start demo_reader demo_bp0) = Some (HANDLE 10000, demo_open)"
  by (simp add: Api_OpenProcess_def api_start_def no_handles_def FindHandleByPID_def drv_OpenProcess_def
      new_handle_def demo_api_sel CreateHandleFromPointer_def pick_first draw_handle_demo
      demo_open_def demo_opened_def demo_process_def put_obj_def Let_def)

theorem api_handles_own_objects_witness:
  "map_option kind_of (ap_heap demo_open (GetPointerFromHandle (HANDLE 10000) (ap_handles demo_open))) =
      Some htProcesHandle \<and>
    (\<exists>!h. GetHandleType h (ap_handles demo_open) \<noteq> htEmpty \<and>
      GetPointerFromHandle h (ap_handles demo_open) = 0x1000)"
proof -
  have "(api_step demo_api)\<^sup>*\<^sup>* (api_start demo_reader demo_bp0) demo_open"
    using api_step.open_process [OF demo_open_step] by blast
  from api_handles_own_objects [OF demo_new_fresh this]
  have a: "\<And>h. GetHandleType h (ap_handles demo_open) \<noteq> htEmpty \<Longrightarrow>
      map_option kind_of (ap_heap demo_open (GetPointerFromHandle h (ap_handles demo_open))) =
        Some (GetHandleType h (ap_handles demo_open))"
    "\<And>p. ap_heap demo_open p \<noteq> None \<Longrightarrow> \<exists>!h. GetHandleType h (ap_handles demo_open) \<noteq> htEmpty \<and>
      GetPointerFromHandle h (ap_handles demo_open) = p" by blast+
  have t: "GetHandleType (HANDLE 10000) (ap_handles demo_open) = htProcesHandle"
    by (simp add: GetHandleType_def demo_open_def demo_opened_def)
  have "ap_heap demo_open 0x1000 \<noteq> None" by (simp add: demo_open_def demo_opened_def)
  from a(1) [of "HANDLE 10000"] t a(2) [OF this] show ?thesis by simp
qed

lemma close_handle_ok:
  assumes "api_owns a"
  shows "\<exists>a'. Api_CloseHandle h a = Some a' \<and> api_owns a' \<and> Api_CloseHandle h a' = Some a' \<and>
    GetHandleType h (ap_handles a') = htEmpty \<and>
    (\<forall>k. k \<noteq> h \<longrightarrow> GetHandleType k (ap_handles a') = GetHandleType k (ap_handles a) \<and>
      GetPointerFromHandle k (ap_handles a') = GetPointerFromHandle k (ap_handles a)) \<and>
    (\<forall>p. ap_heap a' p = (if GetHandleType h (ap_handles a) \<noteq> htEmpty \<and> p = GetPointerFromHandle h (ap_handles a)
      then None else ap_heap a p))"
proof (cases "find_handle h (ap_handles a)")
  case None
  with assms show ?thesis by (auto simp: close_handle_cases handle_sel)
next
  case (Some i)
  let ?a' = "a\<lparr>ap_heap := (ap_heap a)(hi_p i := None), ap_handles := RemoveHandle h (ap_handles a)\<rparr>"
  have c: "Api_CloseHandle h a = Some ?a'" using assms Some by (simp add: close_handle_cases)
  have w: "handles_wf (ap_handles a)" using assms by (simp add: api_owns_def)
  have own: "api_owns ?a'" by (rule close_handle_owns [OF assms c])
  note f = ht.remove_find [OF w]
  have "GetHandleType h (ap_handles a) \<noteq> htEmpty"
    using owned_not_empty [OF assms Some] Some by (simp add: handle_sel)
  with c own close_handle_cases [OF own] Some f show ?thesis by (simp add: handle_sel)
qed

text \<open>In a state where the handles own their objects, closing a handle frees exactly its object and
  forgets exactly that handle, closing an unknown or already closed handle does nothing, and no
  other handle or object changes.\<close>

theorem close_handle_exact:
  assumes "api_owns a"
  shows "\<exists>a'. Api_CloseHandle h a = Some a' \<and> api_owns a' \<and> Api_CloseHandle h a' = Some a' \<and>
    GetHandleType h (ap_handles a') = htEmpty \<and>
    (\<forall>k. k \<noteq> h \<longrightarrow> GetHandleType k (ap_handles a') = GetHandleType k (ap_handles a) \<and>
      GetPointerFromHandle k (ap_handles a') = GetPointerFromHandle k (ap_handles a)) \<and>
    (\<forall>p. ap_heap a' p = (if GetHandleType h (ap_handles a) \<noteq> htEmpty \<and> p = GetPointerFromHandle h (ap_handles a)
      then None else ap_heap a p))"
  using assms by (rule close_handle_ok)

theorem close_handle_exact_witness:
  "\<exists>a'. Api_CloseHandle (HANDLE 10000) demo_open = Some a' \<and> ap_heap a' 0x1000 = None \<and>
    GetHandleType (HANDLE 10000) (ap_handles a') = htEmpty"
  using close_handle_exact [OF demo_open_owns, of "HANDLE 10000"]
  by (auto simp: demo_open_def demo_opened_def GetHandleType_def GetPointerFromHandle_def)

end
