(* ===== verification/Ce_Sock.thy ===== *)
theory Ce_Sock
  imports Rw_Prelude
begin

text \<open>
  The sockets of the server (recvall and sendall of CEServer/main.cpp). What the kernel answers
  to the successive \<open>recv\<close> and \<open>send\<close> calls of a connection is a script in its state: data that
  may arrive in pieces of any size, interruptions, errors and the end of the stream; for \<open>send\<close>
  how much is taken. An exhausted script is a peer that has closed its side and a kernel that
  takes everything. Calls on a closed descriptor fail with EBADF.
\<close>

section \<open>The kernel's side\<close>

datatype recv_event = Data "byte list" | RecvError int

datatype send_event = Accept nat | SendError int

record conn =
  cn_in :: "recv_event list"
  cn_send :: "send_event list"
  cn_out :: "byte list"
  cn_closes :: nat
  cn_exit :: bool

definition EINTR :: int where "EINTR = 4"
definition EBADF :: int where "EBADF = 9"

text \<open>The result of a call, \<open>errno\<close>, the bytes delivered.\<close>

definition sock_recv :: "nat \<Rightarrow> conn \<Rightarrow> int \<times> int \<times> byte list \<times> conn" where
  "sock_recv n c =
     (if cn_closes c > 0 then (-1, EBADF, [], c)
      else (case cn_in c of
        [] \<Rightarrow> (0, 0, [], c)
      | Data bs # evs \<Rightarrow>
          if length bs \<le> n then (int (length bs), 0, bs, c\<lparr>cn_in := evs\<rparr>)
          else (int n, 0, take n bs, c\<lparr>cn_in := Data (drop n bs) # evs\<rparr>)
      | RecvError e # evs \<Rightarrow> (-1, e, [], c\<lparr>cn_in := evs\<rparr>)))"

definition sock_send :: "byte list \<Rightarrow> conn \<Rightarrow> int \<times> int \<times> conn" where
  "sock_send bs c =
     (if cn_closes c > 0 then (-1, EBADF, c)
      else (case cn_send c of
        [] \<Rightarrow> (int (length bs), 0, c\<lparr>cn_out := cn_out c @ bs\<rparr>)
      | Accept k # evs \<Rightarrow> (int (min k (length bs)), 0, c\<lparr>cn_out := cn_out c @ take k bs, cn_send := evs\<rparr>)
      | SendError e # evs \<Rightarrow> (-1, e, c\<lparr>cn_send := evs\<rparr>)))"

definition close_conn :: "conn \<Rightarrow> conn" where
  "close_conn c = c\<lparr>cn_closes := cn_closes c + 1\<rparr>"

section \<open>The loops\<close>

lemma sock_recv_measure:
  assumes "sock_recv n c = (i, err, bs, c')" "n \<noteq> 0"
  shows "i \<noteq> 0 \<Longrightarrow> i \<noteq> -1 \<Longrightarrow> n - nat i + length (cn_in c') < n + length (cn_in c)"
    "i = -1 \<Longrightarrow> err = EINTR \<Longrightarrow> length (cn_in c') < length (cn_in c)"
  using assms by (auto simp: sock_recv_def EINTR_def EBADF_def split: if_splits list.splits recv_event.splits)

function recv_loop :: "nat \<Rightarrow> byte list \<Rightarrow> conn \<Rightarrow> int \<times> byte list \<times> conn" where
  "recv_loop sizeleft buffer c =
     (if sizeleft = 0 then (int (length buffer), buffer, c)
      else (case sock_recv sizeleft c of (i, err, bs, c') \<Rightarrow>
        if i = 0 then (i, buffer, c')
        else if i = -1 then
          (if err = EINTR then recv_loop sizeleft buffer c' else (i, buffer, c'))
        else recv_loop (sizeleft - nat i) (buffer @ bs) c'))"
  by pat_completeness auto
termination
  by (relation "measure (\<lambda>(n, buffer, c). n + length (cn_in c))") (auto dest: sock_recv_measure [OF sym])

declare recv_loop.simps [simp del]

definition recvall :: "u64 \<Rightarrow> conn \<Rightarrow> int \<times> byte list \<times> conn" where
  "recvall sz c = recv_loop (nat (sint sz)) [] c"

lemma sock_send_measure:
  assumes "sock_send bs c = (i, err, c')" "bs \<noteq> []"
  shows "i \<noteq> 0 \<Longrightarrow> i \<noteq> -1 \<Longrightarrow> length bs - nat i + length (cn_send c') < length bs + length (cn_send c)"
    "i = -1 \<Longrightarrow> err = EINTR \<Longrightarrow> length (cn_send c') < length (cn_send c)"
  using assms by (auto simp: sock_send_def EINTR_def EBADF_def split: if_splits list.splits send_event.splits)

function send_loop :: "byte list \<Rightarrow> nat \<Rightarrow> conn \<Rightarrow> int \<times> conn" where
  "send_loop buffer totalsent c =
     (if buffer = [] then (int totalsent, c)
      else (case sock_send buffer c of (i, err, c') \<Rightarrow>
        if i = 0 then (i, c')
        else if i = -1 then
          (if err = EINTR then send_loop buffer totalsent c' else (i, c'))
        else send_loop (drop (nat i) buffer) (totalsent + nat i) c'))"
  by pat_completeness auto
termination
  by (relation "measure (\<lambda>(buffer, n, c). length buffer + length (cn_send c))")
    (auto dest: sock_send_measure [OF sym])

declare send_loop.simps [simp del]

definition sendall :: "byte list \<Rightarrow> conn \<Rightarrow> int \<times> conn" where
  "sendall buf c = send_loop buf 0 c"

section \<open>What they transfer\<close>

fun stream :: "recv_event list \<Rightarrow> byte list" where
  "stream [] = []"
| "stream (Data bs # evs) = bs @ stream evs"
| "stream (RecvError e # evs) = stream evs"

text \<open>A connection that only delays: pieces that are not empty, and interruptions.\<close>

fun recv_smooth :: "recv_event list \<Rightarrow> bool" where
  "recv_smooth [] = True"
| "recv_smooth (Data bs # evs) \<longleftrightarrow> bs \<noteq> [] \<and> recv_smooth evs"
| "recv_smooth (RecvError e # evs) \<longleftrightarrow> e = EINTR \<and> recv_smooth evs"

fun send_smooth :: "send_event list \<Rightarrow> bool" where
  "send_smooth [] = True"
| "send_smooth (Accept k # evs) \<longleftrightarrow> 0 < k \<and> send_smooth evs"
| "send_smooth (SendError e # evs) \<longleftrightarrow> e = EINTR \<and> send_smooth evs"

lemma sock_recv_ok:
  assumes "sock_recv n c = (i, err, bs, c')" "0 < n"
  shows "stream (cn_in c) = bs @ stream (cn_in c')" "length bs \<le> n"
    "i = -1 \<and> bs = [] \<or> i = int (length bs)"
    "recv_smooth (cn_in c) \<Longrightarrow> recv_smooth (cn_in c')"
    "cn_closes c = 0 \<Longrightarrow> recv_smooth (cn_in c) \<Longrightarrow> stream (cn_in c) \<noteq> [] \<Longrightarrow> i \<noteq> 0 \<and> (i = -1 \<longrightarrow> err = EINTR)"
    "cn_out c' = cn_out c" "cn_closes c' = cn_closes c" "cn_exit c' = cn_exit c" "cn_send c' = cn_send c"
  using assms by (auto simp: sock_recv_def split: if_splits list.splits recv_event.splits)

lemma recv_loop_ok:
  assumes "recv_loop n buf c = (r, buf', c')"
  shows "\<exists>bs. buf' = buf @ bs \<and> stream (cn_in c) = bs @ stream (cn_in c') \<and> length bs \<le> n \<and>
    (r = int (length buf + n) \<and> length bs = n \<or> (r = 0 \<or> r = -1) \<and> length bs < n) \<and>
    (cn_closes c = 0 \<longrightarrow> recv_smooth (cn_in c) \<longrightarrow> n \<le> length (stream (cn_in c)) \<longrightarrow> length bs = n) \<and>
    (recv_smooth (cn_in c) \<longrightarrow> recv_smooth (cn_in c')) \<and>
    cn_out c' = cn_out c \<and> cn_closes c' = cn_closes c \<and> cn_exit c' = cn_exit c \<and> cn_send c' = cn_send c"
  using assms
proof (induction n buf c rule: recv_loop.induct)
  case (1 n buf c)
  show ?case
  proof (cases "n = 0")
    case True
    with "1.prems" show ?thesis by (auto simp: recv_loop.simps)
  next
    case False
    obtain i err bs c1 where s: "sock_recv n c = (i, err, bs, c1)" by (metis prod_cases4)
    note ok = sock_recv_ok [OF s]
    have n: "0 < n" using False by simp
    note ok = ok [OF n]
    have stop: "n \<le> length (stream (cn_in c)) \<Longrightarrow> stream (cn_in c) \<noteq> []" using n by auto
    consider "i = 0" | "i = -1" "err \<noteq> EINTR" | "i = -1" "err = EINTR" | "i \<noteq> 0" "i \<noteq> -1" by blast
    then show ?thesis
    proof cases
      case 1
      with "1.prems" False s have "r = 0" "buf' = buf" "c' = c1" by (simp_all add: recv_loop.simps)
      with ok 1 n stop show ?thesis by auto
    next
      case 2
      with "1.prems" False s have "r = -1" "buf' = buf" "c' = c1" by (simp_all add: recv_loop.simps)
      with ok 2 n stop show ?thesis by auto
    next
      case 3
      with "1.prems" False s have l: "recv_loop n buf c1 = (r, buf', c')"
        by (simp add: recv_loop.simps [of n buf c])
      have "bs = []" using ok(3) 3 by auto
      have i0: "i \<noteq> 0" using 3 by simp
      with \<open>bs = []\<close> "1.IH" (1) [OF False s [symmetric] refl refl i0 3(1,2) l] 3 ok show ?thesis by auto
    next
      case 4
      with "1.prems" False s have l: "recv_loop (n - nat i) (buf @ bs) c1 = (r, buf', c')"
        by (simp add: recv_loop.simps [of n buf c])
      have i: "nat i = length bs" "length bs \<le> n" using ok(2,3) 4 by auto
      from "1.IH" (2) [OF False s [symmetric] refl refl 4 l] i ok(1,4,6-9) show ?thesis
        by (auto simp: length_append)
    qed
  qed
qed

lemma sock_send_ok:
  assumes "sock_send bs c = (i, err, c')"
  shows "i = -1 \<and> cn_out c' = cn_out c \<or>
      (0 \<le> i \<and> nat i \<le> length bs \<and> cn_out c' = cn_out c @ take (nat i) bs)"
    "send_smooth (cn_send c) \<Longrightarrow> send_smooth (cn_send c')"
    "cn_closes c = 0 \<Longrightarrow> send_smooth (cn_send c) \<Longrightarrow> bs \<noteq> [] \<Longrightarrow> i \<noteq> 0 \<and> (i = -1 \<longrightarrow> err = EINTR)"
    "cn_in c' = cn_in c" "cn_closes c' = cn_closes c" "cn_exit c' = cn_exit c"
  using assms by (auto simp: sock_send_def min_def split: if_splits list.splits send_event.splits)

lemma send_loop_ok:
  assumes "send_loop bs k c = (r, c')"
  shows "\<exists>m \<le> length bs. cn_out c' = cn_out c @ take m bs \<and>
    (r = int (k + length bs) \<and> m = length bs \<or> (r = 0 \<or> r = -1) \<and> m < length bs) \<and>
    (cn_closes c = 0 \<longrightarrow> send_smooth (cn_send c) \<longrightarrow> m = length bs) \<and>
    (send_smooth (cn_send c) \<longrightarrow> send_smooth (cn_send c')) \<and>
    cn_in c' = cn_in c \<and> cn_closes c' = cn_closes c \<and> cn_exit c' = cn_exit c"
  using assms
proof (induction bs k c rule: send_loop.induct)
  case (1 bs k c)
  show ?case
  proof (cases "bs = []")
    case True
    with "1.prems" show ?thesis by (auto simp: send_loop.simps)
  next
    case False
    obtain i err c1 where s: "sock_send bs c = (i, err, c1)" by (metis prod_cases3)
    note ok = sock_send_ok [OF s]
    have n: "0 < length bs" using False by simp
    consider "i = 0" | "i = -1" "err \<noteq> EINTR" | "i = -1" "err = EINTR" | "i \<noteq> 0" "i \<noteq> -1" by blast
    then show ?thesis
    proof cases
      case 1
      with "1.prems" False s have "r = 0" "c' = c1" by (simp_all add: send_loop.simps)
      with ok 1 n False show ?thesis by (intro exI [of _ 0]) auto
    next
      case 2
      with "1.prems" False s have "r = -1" "c' = c1" by (simp_all add: send_loop.simps)
      with ok 2 n False show ?thesis by (intro exI [of _ 0]) auto
    next
      case 3
      with "1.prems" False s have l: "send_loop bs k c1 = (r, c')"
        by (simp add: send_loop.simps [of bs k c])
      have i0: "i \<noteq> 0" using 3 by simp
      from "1.IH" (1) [OF False s [symmetric] refl i0 3(1,2) l] 3 ok show ?thesis by auto
    next
      case 4
      with "1.prems" False s have l: "send_loop (drop (nat i) bs) (k + nat i) c1 = (r, c')"
        by (simp add: send_loop.simps [of bs k c])
      have i: "0 \<le> i" "nat i \<le> length bs" "cn_out c1 = cn_out c @ take (nat i) bs" using ok(1) 4 by auto
      from "1.IH" (2) [OF False s [symmetric] refl 4 l]
      obtain m where m: "m \<le> length (drop (nat i) bs)" "cn_out c' = cn_out c1 @ take m (drop (nat i) bs)"
        "r = int (k + nat i + length (drop (nat i) bs)) \<and> m = length (drop (nat i) bs) \<or>
          (r = 0 \<or> r = -1) \<and> m < length (drop (nat i) bs)"
        "cn_closes c1 = 0 \<longrightarrow> send_smooth (cn_send c1) \<longrightarrow> m = length (drop (nat i) bs)"
        "send_smooth (cn_send c1) \<longrightarrow> send_smooth (cn_send c')"
        "cn_in c' = cn_in c1" "cn_closes c' = cn_closes c1" "cn_exit c' = cn_exit c1"
        by (elim exE conjE) (rule that; assumption)
      have "take (nat i + m) bs = take (nat i) bs @ take m (drop (nat i) bs)" by (simp add: take_add)
      then have "cn_out c' = cn_out c @ take (nat i + m) bs" using m(2) i(3) by simp
      moreover have "nat i + m \<le> length bs" using m(1) i(2) by simp
      moreover have "r = int (k + length bs) \<and> nat i + m = length bs \<or> (r = 0 \<or> r = -1) \<and> nat i + m < length bs"
        using m(3) i(2) by auto
      moreover have "cn_closes c = 0 \<longrightarrow> send_smooth (cn_send c) \<longrightarrow> nat i + m = length bs"
        using m(4) i(2) ok(2,5) by auto
      moreover have "send_smooth (cn_send c) \<longrightarrow> send_smooth (cn_send c')" using m(5) ok(2) by blast
      ultimately show ?thesis using m(6-8) ok(4-6) by (intro exI [of _ "nat i + m"]) simp
    qed
  qed
qed

text \<open>What a handler of a command relies on.\<close>

lemma recvall_ok:
  assumes "recvall sz c = (r, buf, c')"
  shows "stream (cn_in c) = buf @ stream (cn_in c')" "length buf \<le> nat (sint sz)"
    "0 < r \<Longrightarrow> r = sint sz \<and> length buf = nat (sint sz)"
    "r \<le> 0 \<Longrightarrow> r = 0 \<or> r = -1"
    "cn_closes c = 0 \<Longrightarrow> recv_smooth (cn_in c) \<Longrightarrow> nat (sint sz) \<le> length (stream (cn_in c)) \<Longrightarrow>
      0 < sint sz \<Longrightarrow> r = sint sz"
    "recv_smooth (cn_in c) \<Longrightarrow> recv_smooth (cn_in c')"
    "cn_out c' = cn_out c" "cn_closes c' = cn_closes c" "cn_exit c' = cn_exit c" "cn_send c' = cn_send c"
  using recv_loop_ok [OF assms [unfolded recvall_def]] by (auto simp: int_nat_eq split: if_splits)

lemma sendall_ok:
  assumes "sendall bs c = (r, c')"
  shows "\<exists>m \<le> length bs. cn_out c' = cn_out c @ take m bs \<and>
      (r = int (length bs) \<and> m = length bs \<or> (r = 0 \<or> r = -1) \<and> m < length bs) \<and>
      (cn_closes c = 0 \<longrightarrow> send_smooth (cn_send c) \<longrightarrow> m = length bs)"
    "send_smooth (cn_send c) \<Longrightarrow> send_smooth (cn_send c')"
    "cn_in c' = cn_in c" "cn_closes c' = cn_closes c" "cn_exit c' = cn_exit c"
  using send_loop_ok [OF assms [unfolded sendall_def]] by auto

lemma sendall_smooth:
  assumes "cn_closes c = 0" "send_smooth (cn_send c)"
  obtains c' where "sendall bs c = (int (length bs), c')" "cn_out c' = cn_out c @ bs" "cn_in c' = cn_in c"
    "cn_closes c' = 0" "cn_exit c' = cn_exit c" "send_smooth (cn_send c')"
proof -
  obtain r c' where s: "sendall bs c = (r, c')" by fastforce
  note ok = sendall_ok [OF s]
  from ok(1) assms have "cn_out c' = cn_out c @ bs" "r = int (length bs)" by auto
  with s ok assms that show ?thesis by auto
qed

text \<open>C36. \<open>recvall\<close> and \<open>sendall\<close> transfer exactly what they are asked for, in order, however the
  kernel cuts it up: a positive result of \<open>recvall\<close> is the whole size, with the next bytes of
  the stream in the buffer and nothing consumed beyond them, otherwise it is 0 or -1; bytes
  reach the peer as a prefix of the buffer, the whole of it when \<open>sendall\<close> returns its size;
  and on an open connection that is only cut up or interrupted both succeed.\<close>

theorem socket_transfers_exact:
  assumes "0 < sint sz" "bs \<noteq> []" "recvall sz c = (r, buf, c1)" "sendall bs d = (q, d1)"
  shows "stream (cn_in c) = buf @ stream (cn_in c1) \<and> (if 0 < r then r = sint sz else r = 0 \<or> r = -1) \<and>
    (0 < r \<longleftrightarrow> length buf = nat (sint sz)) \<and> cn_out c1 = cn_out c \<and>
    (\<exists>m \<le> length bs. cn_out d1 = cn_out d @ take m bs \<and> (0 < q \<longleftrightarrow> m = length bs)) \<and>
    (if 0 < q then q = int (length bs) else q = 0 \<or> q = -1) \<and> cn_in d1 = cn_in d \<and>
    (cn_closes c = 0 \<and> recv_smooth (cn_in c) \<and> nat (sint sz) \<le> length (stream (cn_in c)) \<longrightarrow> 0 < r) \<and>
    (cn_closes d = 0 \<and> send_smooth (cn_send d) \<longrightarrow> 0 < q)"
proof -
  have r: "0 < r \<longleftrightarrow> length buf = nat (sint sz)"
    using recv_loop_ok [OF assms(3) [unfolded recvall_def]] assms(1) by auto
  have bs: "0 < length bs" using assms(2) by simp
  obtain m where m: "m \<le> length bs" "cn_out d1 = cn_out d @ take m bs"
    "q = int (length bs) \<and> m = length bs \<or> (q = 0 \<or> q = -1) \<and> m < length bs"
    "cn_closes d = 0 \<longrightarrow> send_smooth (cn_send d) \<longrightarrow> m = length bs"
    using sendall_ok(1) [OF assms(4)] by (elim exE conjE) (rule that; assumption)
  have q: "0 < q \<longleftrightarrow> m = length bs" using m(3) bs by auto
  have "(if 0 < r then r = sint sz else r = 0 \<or> r = -1)" using recvall_ok(3,4) [OF assms(3)] by simp
  moreover have "\<exists>m \<le> length bs. cn_out d1 = cn_out d @ take m bs \<and> (0 < q \<longleftrightarrow> m = length bs)"
    using m(1,2) q by blast
  moreover have "(if 0 < q then q = int (length bs) else q = 0 \<or> q = -1)" using m(3) bs by auto
  moreover have "cn_closes c = 0 \<and> recv_smooth (cn_in c) \<and> nat (sint sz) \<le> length (stream (cn_in c)) \<longrightarrow> 0 < r"
    using recvall_ok(5) [OF assms(3)] assms(1) by auto
  moreover have "cn_closes d = 0 \<and> send_smooth (cn_send d) \<longrightarrow> 0 < q" using m(4) q by blast
  ultimately show ?thesis
    using r recvall_ok(1,7) [OF assms(3)] sendall_ok(3) [OF assms(4)] by blast
qed

definition demo_conn :: conn where
  "demo_conn = \<lparr>cn_in = [Data [9, 1], RecvError EINTR, Data [2, 3, 4]], cn_send = [Accept 1, SendError EINTR],
     cn_out = [], cn_closes = 0, cn_exit = False\<rparr>"

theorem socket_transfers_exact_witness:
  "\<exists>buf c1 d1. recvall 4 demo_conn = (4, buf, c1) \<and> length buf = 4 \<and> [9, 1, 2, 3, 4] = buf @ stream (cn_in c1) \<and>
    sendall [5, 6, 7] demo_conn = (3, d1) \<and> cn_out d1 = [5, 6, 7]"
proof -
  obtain r buf c1 where r: "recvall 4 demo_conn = (r, buf, c1)" by (metis prod_cases3)
  obtain q d1 where q: "sendall [5, 6, 7] demo_conn = (q, d1)" by fastforce
  from socket_transfers_exact [OF _ _ r q] r q show ?thesis by (auto simp: demo_conn_def)
qed

end
