(* ===== verification/Ce_Compress.thy ===== *)
theory Ce_Compress
  imports Rw_Prelude
begin

text \<open>
  The compression of a memory read for the client (the compressed branch of
  CMD_READPROCESSMEMORY in CEServer/main.cpp): the data goes through zlib's \<open>deflate\<close> into blocks
  of 64 KiB, whose pointer array is doubled when it is too short. zlib is a parameter: a state,
  \<open>deflateInit\<close> and \<open>deflate\<close>, which returns a code, the new state, the number of input bytes used
  and the bytes produced. A loop that does not end and a store outside the pointer array are
  \<open>None\<close>. \<open>zlib_ok\<close> is zlib's documented contract.
\<close>

definition Z_NO_FLUSH :: int where "Z_NO_FLUSH = 0"
definition Z_FINISH :: int where "Z_FINISH = 4"
definition Z_OK :: int where "Z_OK = 0"
definition Z_STREAM_END :: int where "Z_STREAM_END = 1"

definition COMPRESS_BLOCKSIZE :: nat where "COMPRESS_BLOCKSIZE = 64 * 1024"

record 'z zlib =
  deflateInit :: "byte \<Rightarrow> 'z"
  deflate :: "'z \<Rightarrow> int \<Rightarrow> byte list \<Rightarrow> nat \<Rightarrow> int \<times> 'z \<times> nat \<times> byte list"

text \<open>\<open>strm\<close> with its input, the full blocks, the bytes of the current block and the length of the
  pointer array.\<close>

record 'z zstream =
  strm :: 'z
  next_in :: "byte list"
  total_out :: nat
  compressedBlocks :: "byte list list"
  current_out :: "byte list"
  maxBlocks :: nat

definition avail_out :: "'z zstream \<Rightarrow> nat" where
  "avail_out st = COMPRESS_BLOCKSIZE - length (current_out st)"

definition deflate_call :: "'z zlib \<Rightarrow> int \<Rightarrow> 'z zstream \<Rightarrow> int \<times> 'z zstream" where
  "deflate_call Z flush st =
     (case deflate Z (strm st) flush (next_in st) (avail_out st) of (r, z, used, out) \<Rightarrow>
        (r, st\<lparr>strm := z, next_in := drop used (next_in st), total_out := total_out st + length out,
               current_out := current_out st @ out\<rparr>))"

definition next_block :: "'z zstream \<Rightarrow> 'z zstream option" where
  "next_block st =
     (let currentBlock = length (compressedBlocks st) + 1;
          mx = (if currentBlock \<ge> maxBlocks st then maxBlocks st * 2 else maxBlocks st)
      in if currentBlock \<ge> mx then None
         else Some (st\<lparr>compressedBlocks := compressedBlocks st @ [current_out st], current_out := [],
                       maxBlocks := mx\<rparr>))"

partial_function (option) deflate_loop :: "'z zlib \<Rightarrow> 'z zstream \<Rightarrow> 'z zstream option" where
  "deflate_loop Z st =
     (if next_in st = [] then Some st
      else (case deflate_call Z Z_NO_FLUSH st of (r, st1) \<Rightarrow>
        if r \<noteq> Z_OK then Some st1
        else if avail_out st1 = 0 then
          (case next_block st1 of None \<Rightarrow> None | Some st2 \<Rightarrow> deflate_loop Z st2)
        else deflate_loop Z st1))"

partial_function (option) finish_loop :: "'z zlib \<Rightarrow> 'z zstream \<Rightarrow> 'z zstream option" where
  "finish_loop Z st =
     (case deflate_call Z Z_FINISH st of (r, st1) \<Rightarrow>
        if r = Z_STREAM_END then Some st1
        else if r \<noteq> Z_OK then Some st1
        else if avail_out st1 = 0 then
          (case next_block st1 of None \<Rightarrow> None | Some st2 \<Rightarrow> finish_loop Z st2)
        else finish_loop Z st1)"

definition compress_start :: "'z zlib \<Rightarrow> byte \<Rightarrow> u32 \<Rightarrow> byte list \<Rightarrow> 'z zstream" where
  "compress_start Z level sz uncompressed =
     \<lparr>strm = deflateInit Z level, next_in = uncompressed, total_out = 0, compressedBlocks = [],
      current_out = [], maxBlocks = 1 + unat sz div COMPRESS_BLOCKSIZE\<rparr>"

definition compress_data :: "'z zlib \<Rightarrow> byte \<Rightarrow> u32 \<Rightarrow> byte list \<Rightarrow> 'z zstream option" where
  "compress_data Z level sz uncompressed =
     (case deflate_loop Z (compress_start Z level sz uncompressed) of
        None \<Rightarrow> None | Some st \<Rightarrow> finish_loop Z st)"

text \<open>The buffers that are sent for it, in order.\<close>

definition compressed_reply :: "byte list \<Rightarrow> 'z zstream \<Rightarrow> byte list list" where
  "compressed_reply uncompressed st =
     [u32_bytes (word_of_nat (length uncompressed)), u32_bytes (word_of_nat (total_out st))] @
     compressedBlocks st @ [current_out st]"

section \<open>The contract of zlib\<close>

text \<open>
  \<open>taken\<close> and \<open>given\<close> are the bytes a state has consumed and produced. \<open>deflate\<close> takes a prefix of
  its input and produces at most the space it is given; without flush it stops when the input
  is used up or the output is full; asked to finish it returns Z_STREAM_END with the whole input
  consumed and a stream that inflates to it, or fills the output and returns Z_OK; and what it
  produces is bounded (\<open>deflateBound\<close>) in the length of the data.
\<close>

definition zlib_ok :: "'z zlib \<Rightarrow> (byte list \<Rightarrow> byte list option) \<Rightarrow> ('z \<Rightarrow> bool) \<Rightarrow>
    ('z \<Rightarrow> byte list) \<Rightarrow> ('z \<Rightarrow> byte list) \<Rightarrow> (nat \<Rightarrow> nat) \<Rightarrow> byte \<Rightarrow> bool" where
  "zlib_ok Z inflate open taken given bound level \<longleftrightarrow>
     open (deflateInit Z level) \<and> taken (deflateInit Z level) = [] \<and> given (deflateInit Z level) = [] \<and>
     (\<forall>z f inp n r z' used out. open z \<longrightarrow> 0 < n \<longrightarrow> deflate Z z f inp n = (r, z', used, out) \<longrightarrow>
       used \<le> length inp \<and> length out \<le> n \<and> taken z' = taken z @ take used inp \<and> given z' = given z @ out \<and>
       length (given z') \<le> bound (length (taken z) + length inp) \<and>
       (r = Z_OK \<longrightarrow> open z') \<and>
       (f = Z_NO_FLUSH \<longrightarrow> inp \<noteq> [] \<longrightarrow> r = Z_OK \<and> (used = length inp \<or> length out = n)) \<and>
       (f = Z_FINISH \<longrightarrow> r = Z_STREAM_END \<and> used = length inp \<and> inflate (given z') = Some (taken z') \<or>
          r = Z_OK \<and> length out = n))"

section \<open>The stream that is sent\<close>

definition stream_inv :: "'z zlib \<Rightarrow> ('z \<Rightarrow> byte list) \<Rightarrow> ('z \<Rightarrow> byte list) \<Rightarrow> byte list \<Rightarrow> 'z zstream \<Rightarrow> bool" where
  "stream_inv Z taken given data st \<longleftrightarrow>
     taken (strm st) @ next_in st = data \<and> given (strm st) = concat (compressedBlocks st) @ current_out st \<and>
     total_out st = length (given (strm st)) \<and> length (current_out st) \<le> COMPRESS_BLOCKSIZE \<and>
     (\<forall>b \<in> set (compressedBlocks st). length b = COMPRESS_BLOCKSIZE) \<and>
     length (compressedBlocks st) < maxBlocks st"

lemma deflate_call_ok:
  assumes "zlib_ok Z inflate open taken given bound level" "stream_inv Z taken given data st"
    "open (strm st)" "avail_out st \<noteq> 0" "deflate_call Z f st = (r, st')"
  shows "stream_inv Z taken given data st'"
    "length (given (strm st)) \<le> length (given (strm st')) \<and> length (given (strm st')) \<le> bound (length data)"
    "r = Z_OK \<Longrightarrow> open (strm st')"
    "f = Z_NO_FLUSH \<Longrightarrow> next_in st \<noteq> [] \<Longrightarrow> r = Z_OK \<and> (next_in st' = [] \<or> avail_out st' = 0 \<and>
      length (given (strm st)) < length (given (strm st')))"
    "f = Z_FINISH \<Longrightarrow> r = Z_STREAM_END \<and> inflate (given (strm st')) = Some data \<or>
      r = Z_OK \<and> avail_out st' = 0 \<and> length (given (strm st)) < length (given (strm st'))"
proof -
  obtain z' used out where d: "deflate Z (strm st) f (next_in st) (avail_out st) = (r, z', used, out)"
    "st' = st\<lparr>strm := z', next_in := drop used (next_in st), total_out := total_out st + length out,
               current_out := current_out st @ out\<rparr>"
    using assms(5) by (auto simp: deflate_call_def split: prod.splits)
  have n: "0 < avail_out st" using assms(4) by simp
  have z: "used \<le> length (next_in st)" "length out \<le> avail_out st"
    "taken z' = taken (strm st) @ take used (next_in st)" "given z' = given (strm st) @ out"
    "length (given z') \<le> bound (length (taken (strm st)) + length (next_in st))"
    "r = Z_OK \<Longrightarrow> open z'"
    "f = Z_NO_FLUSH \<Longrightarrow> next_in st \<noteq> [] \<Longrightarrow> r = Z_OK \<and> (used = length (next_in st) \<or> length out = avail_out st)"
    "f = Z_FINISH \<Longrightarrow> r = Z_STREAM_END \<and> used = length (next_in st) \<and> inflate (given z') = Some (taken z') \<or>
          r = Z_OK \<and> length out = avail_out st"
    using assms(1,3) n d(1) unfolding zlib_ok_def by blast+
  have data: "data = taken (strm st) @ next_in st" using assms(2) by (simp add: stream_inv_def)
  show "stream_inv Z taken given data st'"
    using assms(2) z(1-4) n by (auto simp: stream_inv_def d(2) avail_out_def)
  show "length (given (strm st)) \<le> length (given (strm st')) \<and> length (given (strm st')) \<le> bound (length data)"
    using z(4,5) by (simp add: d(2) data)
  show "r = Z_OK \<Longrightarrow> open (strm st')" using z(6) by (simp add: d(2))
  show "f = Z_NO_FLUSH \<Longrightarrow> next_in st \<noteq> [] \<Longrightarrow> r = Z_OK \<and> (next_in st' = [] \<or> avail_out st' = 0 \<and>
      length (given (strm st)) < length (given (strm st')))"
    using z(4,7) n by (auto simp: d(2) avail_out_def)
  show "f = Z_FINISH \<Longrightarrow> r = Z_STREAM_END \<and> inflate (given (strm st')) = Some data \<or>
      r = Z_OK \<and> avail_out st' = 0 \<and> length (given (strm st)) < length (given (strm st'))"
    using z(3,4,8) n by (auto simp: d(2) avail_out_def data)
qed

lemma next_block_ok:
  assumes "stream_inv Z taken given data st" "avail_out st = 0"
  obtains st' where "next_block st = Some st'" "stream_inv Z taken given data st'" "strm st' = strm st"
    "avail_out st' \<noteq> 0" "next_in st' = next_in st"
proof -
  let ?mx = "if length (compressedBlocks st) + 1 \<ge> maxBlocks st then maxBlocks st * 2 else maxBlocks st"
  let ?st' = "st\<lparr>compressedBlocks := compressedBlocks st @ [current_out st], current_out := [], maxBlocks := ?mx\<rparr>"
  have l: "length (compressedBlocks st) < maxBlocks st" using assms(1) by (simp add: stream_inv_def)
  then have mx: "length (compressedBlocks st) + 1 < ?mx" by auto
  then have "next_block st = Some ?st'" by (simp only: next_block_def Let_def not_le [symmetric] if_False)
  moreover have "stream_inv Z taken given data ?st'"
    using assms mx by (auto simp: stream_inv_def avail_out_def)
  ultimately show ?thesis using that by (simp add: avail_out_def COMPRESS_BLOCKSIZE_def)
qed

lemma deflate_loop_ok:
  assumes Z: "zlib_ok Z inflate open taken given bound level"
    and "stream_inv Z taken given data st" "open (strm st)" "avail_out st \<noteq> 0"
  shows "\<exists>st'. deflate_loop Z st = Some st' \<and> stream_inv Z taken given data st' \<and> open (strm st') \<and>
    avail_out st' \<noteq> 0 \<and> next_in st' = []"
  using assms(2-)
proof (induction "bound (length data) + 1 - length (given (strm st)) + (if next_in st = [] then 0 else 1)"
    arbitrary: st rule: less_induct)
  case less
  show ?case
  proof (cases "next_in st = []")
    case True
    with less.prems show ?thesis by (subst deflate_loop.simps) simp
  next
    case False
    obtain r st1 where c: "deflate_call Z Z_NO_FLUSH st = (r, st1)" by fastforce
    note ok = deflate_call_ok [OF Z less.prems c]
    from ok(4) [OF refl False] have r: "r = Z_OK"
      and p: "next_in st1 = [] \<or> avail_out st1 = 0 \<and> length (given (strm st)) < length (given (strm st1))" by auto
    note g = ok(2)
    let ?m = "\<lambda>st. bound (length data) + 1 - length (given (strm st)) + (if next_in st = [] then 0 else (1::nat))"
    show ?thesis
    proof (cases "avail_out st1 = 0")
      case True
      obtain st2 where b: "next_block st1 = Some st2" "stream_inv Z taken given data st2" "strm st2 = strm st1"
        "avail_out st2 \<noteq> 0" "next_in st2 = next_in st1" by (rule next_block_ok [OF ok(1) True])
      have "?m st2 < ?m st" using False p g b(3,5) by auto
      from less.hyps [OF this b(2)] ok(3) [OF r] b(3,4) False c r True b(1) show ?thesis
        by (subst deflate_loop.simps) simp
    next
      case False': False
      then have "?m st1 < ?m st" using False p g by auto
      from less.hyps [OF this ok(1) ok(3) [OF r] False'] False c r False' show ?thesis
        by (subst deflate_loop.simps) simp
    qed
  qed
qed

lemma finish_loop_ok:
  assumes Z: "zlib_ok Z inflate open taken given bound level"
    and "stream_inv Z taken given data st" "open (strm st)" "avail_out st \<noteq> 0"
  shows "\<exists>st'. finish_loop Z st = Some st' \<and> stream_inv Z taken given data st' \<and>
    inflate (given (strm st')) = Some data"
  using assms(2-)
proof (induction "bound (length data) + 1 - length (given (strm st))" arbitrary: st rule: less_induct)
  case less
  obtain r st1 where c: "deflate_call Z Z_FINISH st = (r, st1)" by fastforce
  note ok = deflate_call_ok [OF Z less.prems c]
  from ok(5) [OF refl] consider "r = Z_STREAM_END" "inflate (given (strm st1)) = Some data"
    | "r = Z_OK" "avail_out st1 = 0" "length (given (strm st)) < length (given (strm st1))" by auto
  then show ?case
  proof cases
    case 1
    with c ok(1) show ?thesis by (subst finish_loop.simps) simp
  next
    case 2
    obtain st2 where b: "next_block st1 = Some st2" "stream_inv Z taken given data st2" "strm st2 = strm st1"
      "avail_out st2 \<noteq> 0" by (rule next_block_ok [OF ok(1) 2(2)])
    have "bound (length data) + 1 - length (given (strm st2)) < bound (length data) + 1 - length (given (strm st))"
      using 2(3) ok(2) b(3) by auto
    from less.hyps [OF this b(2) _ b(4)] ok(3) [OF 2(1)] b(1,3) c 2 show ?thesis
      by (subst finish_loop.simps) (simp add: Z_OK_def Z_STREAM_END_def)
  qed
qed

lemma compress_data_ok:
  assumes "zlib_ok Z inflate open taken given bound level"
  shows "\<exists>st. compress_data Z level sz data = Some st \<and>
    inflate (concat (compressedBlocks st) @ current_out st) = Some data \<and>
    total_out st = length (concat (compressedBlocks st) @ current_out st) \<and>
    (\<forall>b \<in> set (compressedBlocks st). length b = COMPRESS_BLOCKSIZE) \<and>
    length (current_out st) \<le> COMPRESS_BLOCKSIZE \<and> length (compressedBlocks st) < maxBlocks st"
proof -
  let ?st = "compress_start Z level sz data"
  have "stream_inv Z taken given data ?st" "open (strm ?st)" "avail_out ?st \<noteq> 0"
    using assms by (simp_all add: stream_inv_def compress_start_def zlib_ok_def avail_out_def COMPRESS_BLOCKSIZE_def)
  from deflate_loop_ok [OF assms this] obtain st1 where l: "deflate_loop Z ?st = Some st1"
    "stream_inv Z taken given data st1" "open (strm st1)" "avail_out st1 \<noteq> 0" by blast
  from finish_loop_ok [OF assms l(2-4)] obtain st2 where "finish_loop Z st1 = Some st2"
    "stream_inv Z taken given data st2" "inflate (given (strm st2)) = Some data" by blast
  with l(1) show ?thesis by (auto simp: compress_data_def stream_inv_def)
qed


text \<open>The compressor that stores its input.\<close>

definition store_zlib :: "(byte list) zlib" where
  "store_zlib = \<lparr>deflateInit = (\<lambda>_. []),
     deflate = (\<lambda>z f inp n. (if f = Z_FINISH \<and> length inp \<le> n then Z_STREAM_END else Z_OK,
       z @ take n inp, min n (length inp), take n inp))\<rparr>"

lemma store_zlib_ok: "zlib_ok store_zlib Some (\<lambda>_. True) id id id level"
  by (auto simp: zlib_ok_def store_zlib_def Z_OK_def Z_STREAM_END_def Z_NO_FLUSH_def Z_FINISH_def
      min_def take_all split: if_splits)


end
