(* ===== verification/Ce_Server.thy ===== *)
theory Ce_Server
  imports Api_Handles Ce_Sock Ce_Compress
begin

text \<open>
  The command server (CEServer/main.cpp and the wire structures of ceserver.h): one handler per
  command, the dispatcher, the thread that serves a connection, the main loop that shares the
  server's state between connections, and the thread that answers broadcasts. A handler takes
  the state of the server and of its connection; \<open>None\<close> is an access outside an object. What the
  build selects (architecture, Android, pointer size), zlib, and the contents of uninitialised
  stack structures are in the parameter \<open>srvenv\<close>. Commands are atomic: the code runs
  them in one thread per connection without a lock on the handle table.
\<close>

section \<open>Commands\<close>

definition CMD_GETVERSION :: byte where "CMD_GETVERSION = 0"
definition CMD_CLOSECONNECTION :: byte where "CMD_CLOSECONNECTION = 1"
definition CMD_TERMINATESERVER :: byte where "CMD_TERMINATESERVER = 2"
definition CMD_OPENPROCESS :: byte where "CMD_OPENPROCESS = 3"
definition CMD_CREATETOOLHELP32SNAPSHOT :: byte where "CMD_CREATETOOLHELP32SNAPSHOT = 4"
definition CMD_PROCESS32FIRST :: byte where "CMD_PROCESS32FIRST = 5"
definition CMD_PROCESS32NEXT :: byte where "CMD_PROCESS32NEXT = 6"
definition CMD_CLOSEHANDLE :: byte where "CMD_CLOSEHANDLE = 7"
definition CMD_VIRTUALQUERYEX :: byte where "CMD_VIRTUALQUERYEX = 8"
definition CMD_READPROCESSMEMORY :: byte where "CMD_READPROCESSMEMORY = 9"
definition CMD_WRITEPROCESSMEMORY :: byte where "CMD_WRITEPROCESSMEMORY = 10"
definition CMD_STARTDEBUG :: byte where "CMD_STARTDEBUG = 11"
definition CMD_WAITFORDEBUGEVENT :: byte where "CMD_WAITFORDEBUGEVENT = 13"
definition CMD_CONTINUEFROMDEBUGEVENT :: byte where "CMD_CONTINUEFROMDEBUGEVENT = 14"
definition CMD_SETBREAKPOINT :: byte where "CMD_SETBREAKPOINT = 15"
definition CMD_REMOVEBREAKPOINT :: byte where "CMD_REMOVEBREAKPOINT = 16"
definition CMD_SUSPENDTHREAD :: byte where "CMD_SUSPENDTHREAD = 17"
definition CMD_RESUMETHREAD :: byte where "CMD_RESUMETHREAD = 18"
definition CMD_GETTHREADCONTEXT :: byte where "CMD_GETTHREADCONTEXT = 19"
definition CMD_SETTHREADCONTEXT :: byte where "CMD_SETTHREADCONTEXT = 20"
definition CMD_GETARCHITECTURE :: byte where "CMD_GETARCHITECTURE = 21"
definition CMD_MODULE32FIRST :: byte where "CMD_MODULE32FIRST = 22"
definition CMD_MODULE32NEXT :: byte where "CMD_MODULE32NEXT = 23"
definition CMD_GETSYMBOLLISTFROMFILE :: byte where "CMD_GETSYMBOLLISTFROMFILE = 24"
definition CMD_LOADEXTENSION :: byte where "CMD_LOADEXTENSION = 25"
definition CMD_ALLOC :: byte where "CMD_ALLOC = 26"
definition CMD_FREE :: byte where "CMD_FREE = 27"
definition CMD_CREATETHREAD :: byte where "CMD_CREATETHREAD = 28"
definition CMD_LOADMODULE :: byte where "CMD_LOADMODULE = 29"
definition CMD_SPEEDHACK_SETSPEED :: byte where "CMD_SPEEDHACK_SETSPEED = 30"
definition CMD_VIRTUALQUERYEXFULL :: byte where "CMD_VIRTUALQUERYEXFULL = 31"
definition CMD_GETREGIONINFO :: byte where "CMD_GETREGIONINFO = 32"
definition CMD_GETABI :: byte where "CMD_GETABI = 33"
definition CMD_CREATETOOLHELP32SNAPSHOTEX :: byte where "CMD_CREATETOOLHELP32SNAPSHOTEX = 35"
definition CMD_GETOPTIONS :: byte where "CMD_GETOPTIONS = 37"
definition CMD_ISANDROID :: byte where "CMD_ISANDROID = 45"
definition CMD_AOBSCAN :: byte where "CMD_AOBSCAN = 200"

lemmas cmd_defs = CMD_GETVERSION_def CMD_CLOSECONNECTION_def CMD_TERMINATESERVER_def
  CMD_OPENPROCESS_def CMD_CREATETOOLHELP32SNAPSHOT_def CMD_PROCESS32FIRST_def CMD_PROCESS32NEXT_def
  CMD_CLOSEHANDLE_def CMD_VIRTUALQUERYEX_def CMD_READPROCESSMEMORY_def CMD_WRITEPROCESSMEMORY_def
  CMD_STARTDEBUG_def CMD_WAITFORDEBUGEVENT_def CMD_CONTINUEFROMDEBUGEVENT_def CMD_SETBREAKPOINT_def
  CMD_REMOVEBREAKPOINT_def CMD_SUSPENDTHREAD_def CMD_RESUMETHREAD_def CMD_GETTHREADCONTEXT_def
  CMD_SETTHREADCONTEXT_def CMD_GETARCHITECTURE_def CMD_MODULE32FIRST_def CMD_MODULE32NEXT_def
  CMD_GETSYMBOLLISTFROMFILE_def CMD_LOADEXTENSION_def CMD_ALLOC_def CMD_FREE_def
  CMD_CREATETHREAD_def CMD_LOADMODULE_def CMD_SPEEDHACK_SETSPEED_def CMD_VIRTUALQUERYEXFULL_def
  CMD_GETREGIONINFO_def CMD_GETABI_def CMD_CREATETOOLHELP32SNAPSHOTEX_def CMD_GETOPTIONS_def
  CMD_ISANDROID_def CMD_AOBSCAN_def

section \<open>The wire structures\<close>

record ('s, 'z) srvenv =
  sv_api :: "'s apienv"
  sv_zlib :: "'z zlib"
  sv_arch :: byte
  sv_android :: byte
  sv_ptr32 :: bool
  sv_rinfo :: RegionInfo
  sv_junk :: "nat \<Rightarrow> byte list"

definition PORT :: u16 where "PORT = 3168"

definition versionstring :: "byte list" where "versionstring = str_bytes ''CHEATENGINE Network 2.3''"

definition CeVersion :: "u32 \<Rightarrow> byte \<Rightarrow> byte list" where
  "CeVersion version stringsize = u32_bytes version @ [stringsize]"

definition CeProcessEntry :: "u32 \<Rightarrow> u32 \<Rightarrow> u32 \<Rightarrow> byte list" where
  "CeProcessEntry result pid processnamesize = u32_bytes result @ u32_bytes pid @ u32_bytes processnamesize"

definition CeModuleEntry :: "u32 \<Rightarrow> u64 \<Rightarrow> u32 \<Rightarrow> u32 \<Rightarrow> u32 \<Rightarrow> u32 \<Rightarrow> byte list" where
  "CeModuleEntry result modulebase modulepart modulesize modulefileoffset modulenamesize =
     u32_bytes result @ u64_bytes modulebase @ u32_bytes modulepart @ u32_bytes modulesize @
     u32_bytes modulefileoffset @ u32_bytes modulenamesize"

definition CeVirtualQueryExOutput :: "byte \<Rightarrow> RegionInfo \<Rightarrow> byte list" where
  "CeVirtualQueryExOutput result r = [result] @ u32_bytes (ri_protection r) @ u32_bytes (ri_type r) @
     u64_bytes (ri_baseaddress r) @ u64_bytes (ri_size r)"

definition RegionInfo_bytes :: "RegionInfo \<Rightarrow> byte list" where
  "RegionInfo_bytes r = u64_bytes (ri_baseaddress r) @ u64_bytes (ri_size r) @
     u32_bytes (ri_protection r) @ u32_bytes (ri_type r)"

definition sends :: "byte list \<Rightarrow> conn \<Rightarrow> conn" where
  "sends bs c = snd (sendall bs c)"

definition name_size :: "byte list \<Rightarrow> u32" where
  "name_size name = word_of_nat (length name)"

section \<open>Handlers\<close>

definition cmd_getversion :: "conn \<Rightarrow> conn" where
  "cmd_getversion c =
     sends (CeVersion 6 (word_of_nat (length versionstring)) @ versionstring) c"

definition cmd_getarchitecture :: "('s, 'z) srvenv \<Rightarrow> conn \<Rightarrow> conn" where
  "cmd_getarchitecture E c = (case recvall 4 c of (r, h, c1) \<Rightarrow> sends [sv_arch E] c1)"

definition cmd_closehandle :: "'s api \<Rightarrow> conn \<Rightarrow> ('s api \<times> conn) option" where
  "cmd_closehandle a c =
     (case recvall 4 c of (r, h, c1) \<Rightarrow>
      if r > 0 then
        (case Api_CloseHandle (HANDLE (u32_of h)) a of
           None \<Rightarrow> None
         | Some a' \<Rightarrow> Some (a', sends (u32_bytes 1) c1))
      else Some (a, close_conn c1))"

definition cmd_snapshot :: "('s, 'z) srvenv \<Rightarrow> 's api \<Rightarrow> conn \<Rightarrow> ('s api \<times> conn) option" where
  "cmd_snapshot E a c =
     (case recvall 8 c of (r, params, c1) \<Rightarrow>
      if r > 0 then
        (case CreateToolhelp32Snapshot (sv_api E) (u32_of (get_bytes 0 4 params))
                (u32_of (get_bytes 4 4 params)) a of
           None \<Rightarrow> None
         | Some (result, a') \<Rightarrow> Some (a', sends (u32_bytes (raw result)) c1))
      else Some (a, close_conn c1))"

definition cmd_process32 :: "bool \<Rightarrow> 's api \<Rightarrow> conn \<Rightarrow> ('s api \<times> conn) option" where
  "cmd_process32 is_first a c =
     (case recvall 4 c of (r, snap, c1) \<Rightarrow>
      if r > 0 then
        (case (if is_first then Process32First (HANDLE (u32_of snap)) a
               else Process32Next (HANDLE (u32_of snap)) a) of
           None \<Rightarrow> None
         | Some (Some pe, a') \<Rightarrow>
             Some (a', sends (CeProcessEntry 1 (PID pe) (name_size (ProcessName pe)) @ ProcessName pe) c1)
         | Some (None, a') \<Rightarrow> Some (a', sends (CeProcessEntry 0 0 0) c1))
      else Some (a, c1))"

definition cmd_module32 :: "bool \<Rightarrow> 's api \<Rightarrow> conn \<Rightarrow> ('s api \<times> conn) option" where
  "cmd_module32 is_first a c =
     (case recvall 4 c of (r, snap, c1) \<Rightarrow>
      if r > 0 then
        (case (if is_first then Module32First (HANDLE (u32_of snap)) a
               else Module32Next (HANDLE (u32_of snap)) a) of
           None \<Rightarrow> None
         | Some (Some me, a') \<Rightarrow>
             Some (a', sends (CeModuleEntry 1 (baseAddress me) 0 (moduleSize me) 0
                                (name_size (moduleName me)) @ moduleName me) c1)
         | Some (None, a') \<Rightarrow> Some (a', sends (CeModuleEntry 0 0 0 0 0 0) c1))
      else Some (a, c1))"

definition cmd_openprocess :: "('s, 'z) srvenv \<Rightarrow> 's api \<Rightarrow> conn \<Rightarrow> ('s api \<times> conn) option" where
  "cmd_openprocess E a c =
     (case recvall 4 c of (r, pid, c1) \<Rightarrow>
      if r > 0 then
        (case Api_OpenProcess (sv_api E) (u32_of pid) a of
           None \<Rightarrow> None
         | Some (h, a') \<Rightarrow> Some (a', sends (u32_bytes (raw h)) c1))
      else Some (a, close_conn c1))"

fun send_each :: "byte list list \<Rightarrow> conn \<Rightarrow> conn" where
  "send_each [] c = c"
| "send_each (b # bs) c = send_each bs (sends b c)"

definition cmd_readmemory :: "('s, 'z) srvenv \<Rightarrow> 's api \<Rightarrow> conn \<Rightarrow> ('s api \<times> conn) option" where
  "cmd_readmemory E a c =
     (case recvall 17 c of (r, inp, c1) \<Rightarrow>
      if r > 0 then
        (let handle = u32_of (get_bytes 0 4 inp); address = u64_of (get_bytes 4 8 inp);
             sz = u32_of (get_bytes 12 4 inp); compress = inp ! 16
         in case Api_ReadProcessMemory (sv_api E) (HANDLE handle) address (replicate (unat sz) 0) sz a of
              None \<Rightarrow> None
            | Some (got, buf, a') \<Rightarrow>
                if unat got > length buf then None
                else if compress \<noteq> 0 then
                  (case compress_data (sv_zlib E) compress sz (take (unat got) buf) of
                     None \<Rightarrow> None
                   | Some st \<Rightarrow> Some (a', send_each (compressed_reply (take (unat got) buf) st) c1))
                else Some (a', sends (u32_bytes got @ take (unat got) buf) c1))
      else Some (a, c1))"

definition cmd_writememory :: "('s, 'z) srvenv \<Rightarrow> 's api \<Rightarrow> conn \<Rightarrow> ('s api \<times> conn) option" where
  "cmd_writememory E a c =
     (case recvall 16 c of (r, inp, c1) \<Rightarrow>
      if r > 0 then
        (let handle = u32_of (get_bytes 0 4 inp); address = u64_of (get_bytes 4 8 inp);
             sz = u32_of (get_bytes 12 4 inp)
         in if sz \<noteq> 0 then
              (case recvall (scast sz) c1 of (r2, buf, c2) \<Rightarrow>
               if r2 > 0 then
                 (case Api_WriteProcessMemory (sv_api E) (HANDLE handle) address buf sz a of
                    None \<Rightarrow> None
                  | Some (written, a') \<Rightarrow> Some (a', sends (u32_bytes written) c2))
               else Some (a, c2))
            else Some (a, sends (u32_bytes 0) c1))
      else Some (a, c1))"

definition cmd_queryfull :: "('s, 'z) srvenv \<Rightarrow> 's api \<Rightarrow> conn \<Rightarrow> ('s api \<times> conn) option" where
  "cmd_queryfull E a c =
     (case recvall 5 c of (r, inp, c1) \<Rightarrow>
      if r > 0 then
        (case Api_VirtualQueryExFull (sv_api E) (HANDLE (u32_of (get_bytes 0 4 inp))) (ucast (inp ! 4)) [] a of
           None \<Rightarrow> None
         | Some (ok, v, a') \<Rightarrow>
             if ok \<noteq> 0 then
               Some (a', send_each (u32_bytes (word_of_nat (length v)) # map RegionInfo_bytes v) c1)
             else Some (a', sends (u32_bytes 0) c1))
      else Some (a, c1))"

definition cmd_query :: "('s, 'z) srvenv \<Rightarrow> bool \<Rightarrow> 's api \<Rightarrow> conn \<Rightarrow> ('s api \<times> conn) option" where
  "cmd_query E want_name a c =
     (case recvall 12 c of (r, inp, c1) \<Rightarrow>
      if r > 0 then
        (let base = u64_of (get_bytes 4 8 inp) in
         if sv_ptr32 E \<and> base > 0xFFFFFFFF then Some (a, sends ([0] @ sv_junk E 24) c1)
         else (case Api_VirtualQueryEx (sv_api E) (HANDLE (u32_of (get_bytes 0 4 inp))) base (sv_rinfo E) [] a of
           None \<Rightarrow> None
         | Some (found, rinfo, mapsline, a') \<Rightarrow>
             (let c2 = sends (CeVirtualQueryExOutput (if found then 1 else 0) rinfo) c1 in
              if want_name then
                (let sz = (word_of_nat (length mapsline) :: byte);
                     c3 = sends [sz] c2
                 in Some (a', if sz \<noteq> 0 then sends (take (unat sz) mapsline) c3 else c3))
              else Some (a', c2))))
      else Some (a, c1))"

text \<open>\<open>malloc(symbolpathsize + 1)\<close> is computed in 32 bits, and the comparison with ''/dev/'' reads five
  bytes of the path whatever its length.\<close>

definition cmd_symbols :: "'s api \<Rightarrow> conn \<Rightarrow> ('s api \<times> conn) option" where
  "cmd_symbols a c =
     (case recvall 4 c of (r, n, c1) \<Rightarrow>
      if r > 0 then
        (let symbolpathsize = u32_of n in
         if symbolpathsize + 1 = 0 then None
         else (case recvall (ucast symbolpathsize) c1 of (r2, symbolpath, c2) \<Rightarrow>
           if r2 > 0 then (if symbolpathsize + 1 < 5 then None else Some (a, sends (u64_bytes 0) c2))
           else Some (a, close_conn c2)))
      else Some (a, c1))"

text \<open>The size \<open>n * 2\<close> is an \<open>int\<close>; the copies of \<open>n\<close> bytes are outside the buffer when it has
  wrapped around.\<close>

definition cmd_aobscan :: "'s api \<Rightarrow> conn \<Rightarrow> ('s api \<times> conn) option" where
  "cmd_aobscan a c =
     (case recvall 32 c of (r, inp, c1) \<Rightarrow>
      if r > 0 then
        (let n = u32_of (get_bytes 28 4 inp) in
         case recvall (scast (n * 2)) c1 of (r2, data, c2) \<Rightarrow>
         if r2 > 0 then
           (if sint n < 0 then None else Some (a, sends [] (sends (u32_bytes 0) c2)))
         else Some (a, c2))
      else Some (a, c1))"

text \<open>The stream of module records: a buffer of 64 KiB that is flushed when a record does not fit.\<close>

definition module_record :: "ModuleListEntry \<Rightarrow> byte list" where
  "module_record me = CeModuleEntry 1 (baseAddress me) 0 (moduleSize me) 0 (name_size (moduleName me)) @
     moduleName me"

partial_function (option) module_stream ::
    "HANDLE \<Rightarrow> ModuleListEntry \<Rightarrow> byte list \<Rightarrow> 's api \<Rightarrow> conn \<Rightarrow> (byte list \<times> 's api \<times> conn) option" where
  "module_stream r me outputstream a c =
     (case (if length outputstream + 28 + length (moduleName me) > 65536
            then ([], sends outputstream c) else (outputstream, c)) of
        (out1, c1) \<Rightarrow>
          if length out1 + 28 + length (moduleName me) > 65536 then None
          else (case Module32Next r a of
            None \<Rightarrow> None
          | Some (None, a') \<Rightarrow> Some (out1 @ module_record me, a', c1)
          | Some (Some me', a') \<Rightarrow> module_stream r me' (out1 @ module_record me) a' c1))"

definition send_threads :: "HANDLE \<Rightarrow> 's api \<Rightarrow> conn \<Rightarrow> ('s api \<times> conn) option" where
  "send_threads r a c =
     (if raw r \<noteq> 0 then
        (case ap_heap a (GetPointerFromHandle r (ap_handles a)) of
           Some (ThreadListObj th) \<Rightarrow>
             if threadCount th > length (threadList th) then None
             else
               (let c1 = sends (u32_bytes (word_of_nat (threadCount th))) c;
                    c2 = sends (concat (map u32_bytes (take (threadCount th) (threadList th)))) c1
                in map_option (\<lambda>a'. (a', c2)) (Api_CloseHandle r a))
         | _ \<Rightarrow> None)
      else Some (a, sends (u32_bytes 0) c))"

definition send_modules :: "('s, 'z) srvenv \<Rightarrow> HANDLE \<Rightarrow> 's api \<Rightarrow> conn \<Rightarrow> ('s api \<times> conn) option" where
  "send_modules E r a c =
     (case (if raw r \<noteq> 0 then
              (case Module32First r a of
                 None \<Rightarrow> None
               | Some (None, a1) \<Rightarrow> Some ([], a1, c)
               | Some (Some me, a1) \<Rightarrow> module_stream r me [] a1 c)
            else Some ([], a, c)) of
        None \<Rightarrow> None
      | Some (out, a1, c1) \<Rightarrow>
          (let c2 = (if out \<noteq> [] then sends out c1 else c1);
               eol = u32_bytes 0 @ sv_junk E 20 @ u32_bytes 0;
               c3 = sends eol c2
           in if raw r \<noteq> 0 then map_option (\<lambda>a2. (a2, c3)) (Api_CloseHandle r a1)
              else Some (a1, c3)))"

definition cmd_snapshotex :: "('s, 'z) srvenv \<Rightarrow> 's api \<Rightarrow> conn \<Rightarrow> ('s api \<times> conn) option" where
  "cmd_snapshotex E a c =
     (case recvall 8 c of (r, params, c1) \<Rightarrow>
      if r > 0 then
        (let dwFlags = u32_of (get_bytes 0 4 params) in
         case CreateToolhelp32Snapshot (sv_api E) dwFlags (u32_of (get_bytes 4 4 params)) a of
           None \<Rightarrow> None
         | Some (h, a') \<Rightarrow>
             if dwFlags AND TH32CS_SNAPTHREAD = TH32CS_SNAPTHREAD then send_threads h a' c1
             else if dwFlags AND TH32CS_SNAPMODULE = TH32CS_SNAPMODULE then send_modules E h a' c1
             else Some (a', sends (u32_bytes (raw h)) c1))
      else Some (a, close_conn c1))"

definition cmd_getoptions :: "conn \<Rightarrow> conn" where
  "cmd_getoptions c = sends (u16_bytes 0) c"

definition cmd_getabi :: "conn \<Rightarrow> conn" where
  "cmd_getabi c = sends [1] c"

definition cmd_isandroid :: "('s, 'z) srvenv \<Rightarrow> conn \<Rightarrow> conn" where
  "cmd_isandroid E c = sends [sv_android E] c"

section \<open>Dispatch\<close>

definition not_supported :: "byte \<Rightarrow> bool" where
  "not_supported command \<longleftrightarrow> command \<in>
     {CMD_STARTDEBUG, CMD_WAITFORDEBUGEVENT, CMD_CONTINUEFROMDEBUGEVENT, CMD_SETBREAKPOINT,
      CMD_REMOVEBREAKPOINT, CMD_GETTHREADCONTEXT, CMD_SETTHREADCONTEXT, CMD_SUSPENDTHREAD,
      CMD_RESUMETHREAD, CMD_LOADEXTENSION, CMD_ALLOC, CMD_FREE, CMD_CREATETHREAD, CMD_LOADMODULE,
      CMD_SPEEDHACK_SETSPEED}"

definition DispatchCommand ::
    "('s, 'z) srvenv \<Rightarrow> byte \<Rightarrow> 's api \<Rightarrow> conn \<Rightarrow> ('s api \<times> conn) option" where
  "DispatchCommand E command a c =
     (if command = CMD_GETVERSION then Some (a, cmd_getversion c)
      else if command = CMD_GETARCHITECTURE then Some (a, cmd_getarchitecture E c)
      else if command = CMD_CLOSECONNECTION then Some (a, close_conn c)
      else if command = CMD_TERMINATESERVER then Some (a, (close_conn c)\<lparr>cn_exit := True\<rparr>)
      else if not_supported command then Some (a, c)
      else if command = CMD_CLOSEHANDLE then cmd_closehandle a c
      else if command = CMD_CREATETOOLHELP32SNAPSHOT then cmd_snapshot E a c
      else if command = CMD_PROCESS32FIRST \<or> command = CMD_PROCESS32NEXT
      then cmd_process32 (command = CMD_PROCESS32FIRST) a c
      else if command = CMD_MODULE32FIRST \<or> command = CMD_MODULE32NEXT
      then cmd_module32 (command = CMD_MODULE32FIRST) a c
      else if command = CMD_OPENPROCESS then cmd_openprocess E a c
      else if command = CMD_READPROCESSMEMORY then cmd_readmemory E a c
      else if command = CMD_WRITEPROCESSMEMORY then cmd_writememory E a c
      else if command = CMD_VIRTUALQUERYEXFULL then cmd_queryfull E a c
      else if command = CMD_GETREGIONINFO \<or> command = CMD_VIRTUALQUERYEX
      then cmd_query E (command = CMD_GETREGIONINFO) a c
      else if command = CMD_GETSYMBOLLISTFROMFILE then cmd_symbols a c
      else if command = CMD_AOBSCAN then cmd_aobscan a c
      else if command = CMD_CREATETOOLHELP32SNAPSHOTEX then cmd_snapshotex E a c
      else if command = CMD_GETOPTIONS then Some (a, cmd_getoptions c)
      else if command = CMD_GETABI then Some (a, cmd_getabi c)
      else if command = CMD_ISANDROID then Some (a, cmd_isandroid E c)
      else Some (a, c))"

section \<open>Threads\<close>

text \<open>One round of the connection thread; the first component tells whether it goes on.\<close>

definition thread_round ::
    "('s, 'z) srvenv \<Rightarrow> 's api \<Rightarrow> conn \<Rightarrow> (bool \<times> 's api \<times> conn) option" where
  "thread_round E a c =
     (case recvall 1 c of (r, command, c1) \<Rightarrow>
      if r > 0 then
        (case DispatchCommand E (command ! 0) a c1 of
           None \<Rightarrow> None
         | Some (a', c') \<Rightarrow> Some (\<not> cn_exit c', a', c'))
      else Some (False, a, close_conn c1))"

text \<open>\<open>Some None\<close> is undefined behaviour in a command; \<open>None\<close> would be a thread that never ends.\<close>

partial_function (option) newConnectionThread ::
    "('s, 'z) srvenv \<Rightarrow> 's api \<Rightarrow> conn \<Rightarrow> ('s api \<times> conn) option option" where
  "newConnectionThread E a c =
     (case thread_round E a c of
        None \<Rightarrow> Some None
      | Some (go, a', c') \<Rightarrow> if go then newConnectionThread E a' c' else Some (Some (a', c')))"

text \<open>The answer to a broadcast datagram: the packet buffer keeps what a short datagram leaves.\<close>

definition identify :: "byte list \<Rightarrow> byte list \<Rightarrow> byte list" where
  "identify packet datagram =
     (let p = put_bytes 0 (take 6 datagram) packet
      in u32_bytes (u32_of (get_bytes 0 4 p) * 0xce) @ u16_bytes PORT)"

fun IdentifierThread :: "byte list \<Rightarrow> byte list option list \<Rightarrow> byte list list" where
  "IdentifierThread packet [] = []"
| "IdentifierThread packet (None # ds) = IdentifierThread packet ds"
| "IdentifierThread packet (Some d # ds) = (let p = identify packet d in p # IdentifierThread p ds)"

text \<open>The connections of the server and the state they share.\<close>

record 's server =
  sr_api :: "'s api"
  sr_conns :: "conn list"

definition start_server :: "('s, 'z) srvenv \<Rightarrow> string option \<Rightarrow> reader \<Rightarrow> 's \<Rightarrow> 's server option" where
  "start_server E argv1 r s =
     (case InitReadWriteDriver (sv_api E) argv1 False (api_start r s) of
        (ok, a) \<Rightarrow> if ok then Some \<lparr>sr_api = a, sr_conns = []\<rparr> else None)"

inductive server_step :: "('s, 'z) srvenv \<Rightarrow> 's server \<Rightarrow> 's server \<Rightarrow> bool" for E where
  accept: "cn_closes c = 0 \<Longrightarrow> \<not> cn_exit c \<Longrightarrow>
    server_step E sv (sv\<lparr>sr_conns := sr_conns sv @ [c]\<rparr>)"
| serve: "i < length (sr_conns sv) \<Longrightarrow> thread_round E (sr_api sv) (sr_conns sv ! i) = Some (True, a', c') \<Longrightarrow>
    server_step E sv (sv\<lparr>sr_api := a', sr_conns := (sr_conns sv)[i := c']\<rparr>)"
| leave: "i < length (sr_conns sv) \<Longrightarrow> thread_round E (sr_api sv) (sr_conns sv ! i) = Some (False, a', c') \<Longrightarrow>
    \<not> cn_exit c' \<Longrightarrow>
    server_step E sv (sv\<lparr>sr_api := a', sr_conns := take i (sr_conns sv) @ drop (i + 1) (sr_conns sv)\<rparr>)"

end
