(* ===== verification/Api_Snapshots.thy ===== *)
theory Api_Snapshots
  imports Api_Handles
begin

text \<open>
  What the snapshots of CEServer/api.cpp contain and how their iterators walk them. The locale
  \<open>snapshot_cursor\<close> is the contract of a First/Next pair, with one proof that the client's walk
  returns the snapshot; it is interpreted on the process and on the module snapshots. The module
  list is characterised by the regions it is built from.
\<close>

section \<open>Walking a snapshot\<close>

text \<open>The client's side of the iterators: First, then Next until FALSE.\<close>

partial_function (option) walk_on :: "('a \<Rightarrow> ('e option \<times> 'a) option) \<Rightarrow> 'e list \<Rightarrow> 'a \<Rightarrow> ('e list \<times> 'a) option" where
  "walk_on nxt acc a =
     (case nxt a of
        None \<Rightarrow> None
      | Some (None, a') \<Rightarrow> Some (acc, a')
      | Some (Some e, a') \<Rightarrow> walk_on nxt (acc @ [e]) a')"

definition walk :: "('a \<Rightarrow> ('e option \<times> 'a) option) \<Rightarrow> ('a \<Rightarrow> ('e option \<times> 'a) option) \<Rightarrow> 'a \<Rightarrow> ('e list \<times> 'a) option" where
  "walk fst_op nxt a =
     (case fst_op a of
        None \<Rightarrow> None
      | Some (None, a') \<Rightarrow> Some ([], a')
      | Some (Some e, a') \<Rightarrow> walk_on nxt [e] a')"

locale snapshot_cursor =
  fixes fst_op nxt :: "'a \<Rightarrow> ('e option \<times> 'a) option"
    and holds :: "'e list \<Rightarrow> nat \<Rightarrow> 'a \<Rightarrow> bool"
  assumes first_op: "holds v i a \<Longrightarrow>
      \<exists>a'. fst_op a = Some (if v = [] then None else Some (v ! 0), a') \<and> holds v 0 a'"
    and next_op: "holds v i a \<Longrightarrow> i < length v \<Longrightarrow>
      \<exists>a'. nxt a = Some (if i + 1 < length v then Some (v ! (i + 1)) else None, a') \<and> holds v (i + 1) a'"
    and next_end: "holds v i a \<Longrightarrow> length v \<le> i \<Longrightarrow> nxt a = None"
begin

lemma walk_on_rest:
  assumes "holds v i a" "i < length v"
  shows "\<exists>a'. walk_on nxt (take (i + 1) v) a = Some (v, a') \<and> holds v (length v) a'"
  using assms
proof (induction "length v - i" arbitrary: i a)
  case 0
  then show ?case by simp
next
  case (Suc n)
  obtain a' where n: "nxt a = Some (if i + 1 < length v then Some (v ! (i + 1)) else None, a')"
    "holds v (i + 1) a'" using next_op [OF Suc.prems] by blast
  show ?case
  proof (cases "i + 1 < length v")
    case True
    with n(1) have "walk_on nxt (take (i + 1) v) a = walk_on nxt (take (i + 1) v @ [v ! (i + 1)]) a'"
      by (subst walk_on.simps) simp
    also have "take (i + 1) v @ [v ! (i + 1)] = take (i + 1 + 1) v"
      using True by (simp add: take_Suc_conv_app_nth)
    finally show ?thesis using Suc.hyps(1) [of "i + 1" a'] Suc.hyps(2) n(2) True by simp
  next
    case False
    with Suc.prems have "i + 1 = length v" by simp
    with n show ?thesis by (subst walk_on.simps) simp
  qed
qed

lemma walk_all:
  assumes "holds v i a"
  shows "\<exists>a'. walk fst_op nxt a = Some (v, a') \<and> holds v (if v = [] then 0 else length v) a' \<and> nxt a' = None"
proof -
  obtain a' where f: "fst_op a = Some (if v = [] then None else Some (v ! 0), a')" "holds v 0 a'"
    using first_op [OF assms] by blast
  show ?thesis
  proof (cases "v = []")
    case True
    with f next_end [OF f(2)] show ?thesis by (simp add: walk_def)
  next
    case False
    then have "0 < length v" by simp
    from walk_on_rest [OF f(2) this] obtain a2 where a2: "walk_on nxt (take (0 + 1) v) a' = Some (v, a2)"
      "holds v (length v) a2" by blast
    have "take (0 + 1) v = [v ! 0]" using False by (cases v) simp_all
    with a2 f(1) False next_end [OF a2(2)] show ?thesis by (simp add: walk_def)
  qed
qed

end

definition holds_processes :: "HANDLE \<Rightarrow> ProcessListEntry list \<Rightarrow> nat \<Rightarrow> 's api \<Rightarrow> bool" where
  "holds_processes h v i a \<longleftrightarrow> GetHandleType h (ap_handles a) = htTHSProcess \<and>
     (\<exists>l. ap_heap a (GetPointerFromHandle h (ap_handles a)) = Some (CeProcessList l i) \<and> v = map process_entry l)"

definition holds_modules :: "HANDLE \<Rightarrow> ModuleListEntry list \<Rightarrow> nat \<Rightarrow> 's api \<Rightarrow> bool" where
  "holds_modules h v i a \<longleftrightarrow> GetHandleType h (ap_handles a) = htTHSModule \<and>
     ap_heap a (GetPointerFromHandle h (ap_handles a)) = Some (CeModuleList v i)"

interpretation pc: snapshot_cursor "Process32First h" "Process32Next h" "holds_processes h" for h
  by unfold_locales (auto simp: holds_processes_def Process32First_def Process32Next_def Let_def)

interpretation mc: snapshot_cursor "Module32First h" "Module32Next h" "holds_modules h" for h
  by unfold_locales (auto simp: holds_modules_def Module32First_def Module32Next_def Let_def)

section \<open>The process list\<close>

definition pid_dir :: "byte list \<times> bool \<Rightarrow> bool" where
  "pid_dir d \<longleftrightarrow> snd d \<and> (\<forall>b \<in> set (fst d). is_digit b)"

definition shown_cmdline :: "byte list \<Rightarrow> byte list" where
  "shown_cmdline text = (let c = take 500 text in
     if length c > 1 then map (\<lambda>b. if b = 0 then 32 else b) c else c)"

lemma all_digits: "length (takeWhile is_digit bs) = length bs \<longleftrightarrow> (\<forall>b \<in> set bs. is_digit b)"
  by (metis takeWhile_eq_all_conv takeWhile_eq_take take_all_iff order_refl)

lemma process_loop_filter:
  assumes "\<forall>d \<in> set ds. pid_dir d \<longrightarrow> ae_cmdline E s (atoi (fst d)) \<noteq> None"
  shows "GetProcessListInfo_loop E False s ds out = Some (out @
    map (\<lambda>d. \<lparr>mp_pid = atoi (fst d), total_rss = 0,
      mp_cmdline = shown_cmdline (the (ae_cmdline E s (atoi (fst d))))\<rparr>) (filter pid_dir ds))"
  using assms
proof (induction ds arbitrary: out)
  case Nil
  then show ?case by simp
next
  case (Cons d ds)
  obtain n is_dir where d: "d = (n, is_dir)" by (cases d)
  have dot: "\<not> is_digit 46" by (simp add: is_digit_def)
  show ?case
  proof (cases "pid_dir d")
    case True
    with Cons.prems obtain t where t: "ae_cmdline E s (atoi n) = Some t" unfolding d by auto
    from True dot have "n \<noteq> [46]" "n \<noteq> [46, 46]" "is_dir" "length (takeWhile is_digit n) = length n"
      by (auto simp: d pid_dir_def all_digits)
    with True t Cons show ?thesis by (simp add: d shown_cmdline_def Let_def)
  next
    case False
    with Cons show ?thesis by (auto simp: d pid_dir_def all_digits)
  qed
qed

text \<open>The processes a snapshot of the directory shows.\<close>

definition listed_processes :: "'s apienv \<Rightarrow> 's \<Rightarrow> (byte list \<times> bool) list \<Rightarrow> MyProcessInfo list" where
  "listed_processes E s ds = map (\<lambda>d. \<lparr>mp_pid = atoi (fst d), total_rss = 0,
     mp_cmdline = shown_cmdline (the (ae_cmdline E s (atoi (fst d))))\<rparr>) (filter pid_dir ds)"

lemma process_snapshot_made:
  assumes "api_owns a" "fl AND TH32CS_SNAPPROCESS \<noteq> 0" "ae_proc E (ap_os a) = Some ds"
    and "\<forall>d \<in> set ds. pid_dir d \<longrightarrow> ae_cmdline E (ap_os a) (atoi (fst d)) \<noteq> None"
    and "ae_new E (ap_heap a) = Some p" "rd_calls (ap_handles a) \<le> n"
    and "find_handle (draw_handle (ae_rd E n)) (ap_handles a) = None"
  obtains h t where "CreateToolhelp32Snapshot E fl pid a =
      Some (h, put_obj p (CeProcessList (listed_processes E (ap_os a) ds) 0) (a\<lparr>ap_handles := t\<rparr>))"
    "new_handle E (CeProcessList (listed_processes E (ap_os a) ds) 0) a =
      Some (h, put_obj p (CeProcessList (listed_processes E (ap_os a) ds) 0) (a\<lparr>ap_handles := t\<rparr>))"
    "GetHandleType h t = htTHSProcess" "GetPointerFromHandle h t = p" "raw h \<noteq> 0"
proof -
  let ?ob = "CeProcessList (listed_processes E (ap_os a) ds) 0"
  obtain h t where h: "new_handle E ?ob a = Some (h, put_obj p ?ob (a\<lparr>ap_handles := t\<rparr>))"
    "GetHandleType h t = htTHSProcess" "GetPointerFromHandle h t = p" "raw h \<noteq> 0"
    using new_handle_ok [OF assms(1,5,6,7), of ?ob] by auto
  have "CreateToolhelp32Snapshot E fl pid a = Some (h, put_obj p ?ob (a\<lparr>ap_handles := t\<rparr>))"
    using assms(2) h(1) process_loop_filter [OF assms(4), of "[]"]
    by (simp add: CreateToolhelp32Snapshot_def GetProcessListInfo_def assms(3) listed_processes_def)
  with h that show ?thesis by blast
qed

text \<open>A process snapshot shows exactly the processes of /proc: First and then Next until FALSE
  give, in the order of the directory, the number and the command line of each entry that is a
  directory with a numeric name, NULs shown as blanks and cut at 500 bytes. One Next more would
  move the iterator past the end.\<close>

theorem process_snapshot_lists:
  assumes "api_owns a" "fl AND TH32CS_SNAPPROCESS \<noteq> 0" "ae_proc E (ap_os a) = Some ds"
    and "\<forall>d \<in> set ds. pid_dir d \<longrightarrow> ae_cmdline E (ap_os a) (atoi (fst d)) \<noteq> None"
    and "ae_new E (ap_heap a) = Some p" "rd_calls (ap_handles a) \<le> n"
    and "find_handle (draw_handle (ae_rd E n)) (ap_handles a) = None"
  shows "\<exists>h a1 a2. CreateToolhelp32Snapshot E fl pid a = Some (h, a1) \<and>
    walk (Process32First h) (Process32Next h) a1 = Some (map (\<lambda>d. \<lparr>PID = atoi (fst d),
      ProcessName = shown_cmdline (the (ae_cmdline E (ap_os a) (atoi (fst d))))\<rparr>) (filter pid_dir ds), a2) \<and>
    Process32Next h a2 = None"
proof -
  let ?l = "listed_processes E (ap_os a) ds"
  obtain h t where h: "CreateToolhelp32Snapshot E fl pid a = Some (h, put_obj p (CeProcessList ?l 0) (a\<lparr>ap_handles := t\<rparr>))"
    "GetHandleType h t = htTHSProcess" "GetPointerFromHandle h t = p"
    by (rule process_snapshot_made [OF assms])
  have "holds_processes h (map process_entry ?l) 0 (put_obj p (CeProcessList ?l 0) (a\<lparr>ap_handles := t\<rparr>))"
    using h by (simp add: holds_processes_def)
  from pc.walk_all [OF this] obtain a2 where
    "walk (Process32First h) (Process32Next h) (put_obj p (CeProcessList ?l 0) (a\<lparr>ap_handles := t\<rparr>)) =
      Some (map process_entry ?l, a2)" "Process32Next h a2 = None" by blast
  with h(1) show ?thesis by (auto simp: process_entry_def listed_processes_def comp_def)
qed

theorem process_snapshot_lists_witness:
  "\<exists>h a1 a2. CreateToolhelp32Snapshot demo_api 2 0 demo_open = Some (h, a1) \<and>
    walk (Process32First h) (Process32Next h) a1 =
      Some ([\<lparr>PID = 7, ProcessName = [104, 105, 32]\<rparr>, \<lparr>PID = 42, ProcessName = [104, 105, 32]\<rparr>], a2) \<and>
    Process32Next h a2 = None"
proof -
  have f: "find_handle (draw_handle (ae_rd demo_api 1)) (ap_handles demo_open) = None"
    by (simp add: demo_api_sel draw_handle_demo find_handle_def demo_open_def demo_opened_def)
  from process_snapshot_lists [OF demo_open_owns _ demo_api_sel(6) _ _ _ f, of 2 "0x2000" 0]
  show ?thesis
    by (simp add: demo_api_sel demo_open_def demo_opened_def TH32CS_SNAPPROCESS_def pid_dir_def is_digit_def atoi_def
        is_space_def shown_cmdline_def)
qed

section \<open>The thread list\<close>

text \<open>The loop keeps the array larger than the number of threads in it.\<close>

lemma thread_loop_list:
  "threadCount th < length (threadList th) \<Longrightarrow> length (threadList th) = mx \<Longrightarrow>
    \<exists>th'. thread_loop E ds mx th = Some th' \<and> threadCount th' \<le> length (threadList th') \<and>
      take (threadCount th') (threadList th') =
        take (threadCount th) (threadList th) @ filter (\<lambda>t. t \<noteq> 0) (map atoi ds)"
proof (induction ds arbitrary: mx th)
  case (Cons d ds)
  show ?case
  proof (cases "atoi d = 0")
    case True
    with Cons show ?thesis by simp
  next
    case False
    let ?th = "th\<lparr>threadList := (threadList th)[threadCount th := atoi d], threadCount := threadCount th + 1\<rparr>"
    have t: "take (threadCount th + 1) ((threadList th)[threadCount th := atoi d]) =
        take (threadCount th) (threadList th) @ [atoi d]"
      using Cons.prems(1) by (simp add: take_Suc_conv_app_nth)
    show ?thesis
    proof (cases "threadCount ?th \<ge> mx")
      case True
      let ?th2 = "?th\<lparr>threadList := threadList ?th @ replicate (mx * 2 - length (threadList ?th)) (ae_junk E)\<rparr>"
      have "\<exists>th'. thread_loop E ds (mx * 2) ?th2 = Some th' \<and> threadCount th' \<le> length (threadList th') \<and>
          take (threadCount th') (threadList th') =
            take (threadCount ?th2) (threadList ?th2) @ filter (\<lambda>t. t \<noteq> 0) (map atoi ds)"
        by (rule Cons.IH) (use Cons.prems in auto)
      moreover have "take (threadCount ?th2) (threadList ?th2) = take (threadCount th) (threadList th) @ [atoi d]"
        using t Cons.prems by simp
      moreover have "mx * 2 - Suc (threadCount th) = mx" using True Cons.prems by simp
      ultimately show ?thesis using False True Cons.prems by (simp add: Let_def)
    next
      case False2: False
      have "\<exists>th'. thread_loop E ds mx ?th = Some th' \<and> threadCount th' \<le> length (threadList th') \<and>
          take (threadCount th') (threadList th') =
            take (threadCount ?th) (threadList ?th) @ filter (\<lambda>t. t \<noteq> 0) (map atoi ds)"
        by (rule Cons.IH) (use Cons.prems False2 in auto)
      with t False False2 Cons.prems show ?thesis by (simp add: Let_def)
    qed
  qed
qed simp

section \<open>The module list\<close>

fun grow :: "byte list \<Rightarrow> u64 \<Rightarrow> ModuleListEntry list \<Rightarrow> ModuleListEntry list" where
  "grow name sz [] = []"
| "grow name sz (m # ms) =
     (if moduleName m = name then m\<lparr>moduleSize := moduleSize m + ucast sz\<rparr> # ms else m # grow name sz ms)"

lemma merge_module_from:
  assumes "i \<le> length v" "\<forall>m \<in> set (take i v). moduleName m \<noteq> name"
  shows "merge_module name sz i False v =
    (name \<in> moduleName ` set v, take i v @ grow name sz (drop i v))"
  using assms
proof (induction "length v - i" arbitrary: i)
  case 0
  then have "i = length v" by simp
  with 0 show ?case by (subst merge_module.simps) auto
next
  case (Suc n)
  then have i: "i < length v" by simp
  then have d: "drop i v = v ! i # drop (i + 1) v" by (simp add: Cons_nth_drop_Suc)
  show ?case
  proof (cases "moduleName (v ! i) = name")
    case True
    let ?m = "(v ! i)\<lparr>moduleSize := moduleSize (v ! i) + ucast sz\<rparr>"
    have m: "name \<in> moduleName ` set v" using True nth_mem [OF i] by force
    have "take (i + 1) (take i v @ ?m # drop i v) = take i v @ [?m]" using i by simp
    moreover have "drop (i + 1 + 1) (take i v @ ?m # drop i v) = drop (i + 1) v"
      using i unfolding d by simp
    moreover have "i + 1 \<noteq> length (take i v @ ?m # drop i v)" using i by simp
    moreover have "grow name sz (drop i v) = ?m # drop (i + 1) v" using True by (simp add: d)
    ultimately show ?thesis using m
      by (subst merge_module.simps)
        (simp only: i True Let_def if_True if_False not_False_eq_True append_assoc append_Cons append_Nil simp_thms)
  next
    case False
    have t: "take (i + 1) v = take i v @ [v ! i]" using i by (simp add: take_Suc_conv_app_nth)
    with False Suc.prems have "\<forall>m \<in> set (take (i + 1) v). moduleName m \<noteq> name" by simp
    with Suc.hyps(1) [of "i + 1"] Suc.hyps(2) i
    have "merge_module name sz (i + 1) False v =
        (name \<in> moduleName ` set v, take (i + 1) v @ grow name sz (drop (i + 1) v))" by simp
    with i False t d show ?thesis by (subst merge_module.simps) simp
  qed
qed

lemma merge_module_grow:
  "merge_module name sz 0 False v = (name \<in> moduleName ` set v, grow name sz v)"
  using merge_module_from [of 0 v name sz] by simp

lemma grow_names [simp]: "map moduleName (grow name sz v) = map moduleName v"
  by (induction v) auto

lemma grow_mem:
  assumes "distinct (map moduleName v)" "m \<in> set (grow name sz v)"
  obtains m0 where "m0 \<in> set v"
    "m = (if moduleName m0 = name then m0\<lparr>moduleSize := moduleSize m0 + ucast sz\<rparr> else m0)"
proof -
  have "\<exists>m0 \<in> set v. m = (if moduleName m0 = name then m0\<lparr>moduleSize := moduleSize m0 + ucast sz\<rparr> else m0)"
    using assms
  proof (induction v)
    case Nil
    then show ?case by simp
  next
    case (Cons m1 v)
    show ?case
    proof (cases "moduleName m1 = name")
      case True
      with Cons.prems(1) have "m \<in> set v \<Longrightarrow> moduleName m \<noteq> name"
        using True by (simp, metis image_eqI)
      with True Cons.prems(2) show ?thesis by auto
    next
      case False
      with Cons.prems(2) consider "m = m1" | "m \<in> set (grow name sz v)" by auto
      then show ?thesis
      proof cases
        case 1
        with False show ?thesis by (intro bexI [of _ m1]) simp_all
      next
        case 2
        have "distinct (map moduleName v)" using Cons.prems(1) by simp
        from Cons.IH [OF this 2] obtain m0 where "m0 \<in> set v" "m = (if moduleName m0 = name
            then m0\<lparr>moduleSize := moduleSize m0 + ucast sz\<rparr> else m0)" by blast
        then show ?thesis by (intro bexI [of _ m0]) simp_all
      qed
    qed
  qed
  with that show ?thesis by blast
qed

text \<open>The size of a module is the size of its regions from the first one with an ELF header on.\<close>

definition named_size :: "byte list \<Rightarrow> DRIVER_REGION_INFO list \<Rightarrow> u32" where
  "named_size name rs = sum_list (map (\<lambda>r. if module_candidate r \<and> mod_name r = name then ucast (r_size r) else 0) rs)"

definition is_elf :: "'s apienv \<Rightarrow> reader \<Rightarrow> u64 \<Rightarrow> DRIVER_REGION_INFO \<Rightarrow> 's \<Rightarrow> bool" where
  "is_elf E r hProc rinfo s \<longleftrightarrow>
     (case ReadProcessMemory (ae_drv E) r hProc (baseaddress rinfo) (u32_bytes 0) 4 0 s of
        (b, magic, n, s') \<Rightarrow> b \<and> u32_of magic = ELF_MAGIC)"

definition module_of :: "'s apienv \<Rightarrow> reader \<Rightarrow> u64 \<Rightarrow> DRIVER_REGION_INFO list \<Rightarrow> ModuleListEntry \<Rightarrow> bool" where
  "module_of E r hProc rs m \<longleftrightarrow>
     (\<exists>i < length rs. module_candidate (rs ! i) \<and> mod_name (rs ! i) = moduleName m \<and>
       baseaddress (rs ! i) = baseAddress m \<and> (\<exists>s. is_elf E r hProc (rs ! i) s) \<and>
       moduleSize m = named_size (moduleName m) (drop i rs))"

lemma module_loop_snoc:
  "module_loop E r hProc (rs @ [x]) v s =
     (case module_loop E r hProc rs v s of (v', s') \<Rightarrow> module_step E r hProc x v' s')"
  by (induction rs arbitrary: v s) (auto split: prod.splits)

lemma module_of_later:
  assumes "module_of E r hProc rs m"
  shows "module_of E r hProc (rs @ [x])
    (if module_candidate x \<and> mod_name x = moduleName m then m\<lparr>moduleSize := moduleSize m + ucast (r_size x)\<rparr> else m)"
proof -
  obtain i where i: "i < length rs" "module_candidate (rs ! i)" "mod_name (rs ! i) = moduleName m"
    "baseaddress (rs ! i) = baseAddress m" "\<exists>s. is_elf E r hProc (rs ! i) s"
    "moduleSize m = named_size (moduleName m) (drop i rs)"
    using assms unfolding module_of_def by blast
  then show ?thesis unfolding module_of_def
    by (intro exI [of _ i]) (auto simp: nth_append named_size_def)
qed

lemma module_of_new:
  assumes "module_candidate x" "is_elf E r hProc x s"
  shows "module_of E r hProc (rs @ [x])
    \<lparr>baseAddress = baseaddress x, moduleSize = ucast (r_size x), moduleName = mod_name x\<rparr>"
  using assms unfolding module_of_def
  by (intro exI [of _ "length rs"]) (auto simp: named_size_def)

lemma module_step_of:
  assumes "distinct (map moduleName v)" "\<forall>m \<in> set v. module_of E r hProc rs m"
    and "module_step E r hProc x v s = (v', s')"
  shows "distinct (map moduleName v') \<and> (\<forall>m \<in> set v'. module_of E r hProc (rs @ [x]) m)"
proof (cases "module_candidate x")
  case False
  then have "module_of E r hProc rs m \<Longrightarrow> module_of E r hProc (rs @ [x]) m" for m
    using module_of_later [of E r hProc rs m x] by simp
  with False assms show ?thesis by (auto simp: module_step_def)
next
  case True
  have g: "\<forall>m \<in> set (grow (mod_name x) (r_size x) v). module_of E r hProc (rs @ [x]) m"
  proof
    fix m assume "m \<in> set (grow (mod_name x) (r_size x) v)"
    then obtain m0 where "m0 \<in> set v" "m = (if moduleName m0 = mod_name x
        then m0\<lparr>moduleSize := moduleSize m0 + ucast (r_size x)\<rparr> else m0)"
      by (rule grow_mem [OF assms(1)])
    with True assms(2) module_of_later [of E r hProc rs m0 x]
    show "module_of E r hProc (rs @ [x]) m" by (auto simp: eq_commute [of "mod_name x"] split: if_splits)
  qed
  from assms(1) have d: "distinct (map moduleName (grow (mod_name x) (r_size x) v))" by simp
  have n: "set (map moduleName (grow (mod_name x) (r_size x) v)) = moduleName ` set v" by simp
  have e: "is_elf E r hProc x s \<Longrightarrow> module_of E r hProc (rs @ [x])
      \<lparr>baseAddress = baseaddress x, moduleSize = ucast (r_size x), moduleName = mod_name x\<rparr>"
    by (rule module_of_new [OF True])
  from assms(3) True g d n e show ?thesis
    by (auto simp: module_step_def merge_module_grow is_elf_def simp del: grow_names split: if_splits prod.splits)
qed

lemma module_loop_of:
  assumes "module_loop E r hProc rs [] s = (v, s')"
  shows "distinct (map moduleName v) \<and> (\<forall>m \<in> set v. module_of E r hProc rs m)"
  using assms
proof (induction rs arbitrary: v s' rule: rev_induct)
  case Nil
  then show ?case by simp
next
  case (snoc x rs)
  obtain v1 s1 where m: "module_loop E r hProc rs [] s = (v1, s1)" by fastforce
  with snoc.prems have "module_step E r hProc x v1 s1 = (v, s')" by (simp add: module_loop_snoc)
  with snoc.IH [OF m] module_step_of show ?case by metis
qed

lemma find_pid_process:
  assumes "api_owns a" "FindHandleByPID (pid_at (ap_heap a)) pid (ap_handles a) = Some hm" "raw hm \<noteq> 0"
  obtains op where "GetHandleType hm (ap_handles a) = htProcesHandle" "op_pid op = pid"
    "ap_heap a (GetPointerFromHandle hm (ap_handles a)) = Some (OpenProcessObj op)"
proof -
  have "hm \<noteq> HANDLE 0" using assms(3) by auto
  with find_pid_result [OF assms(1), of pid] assms(2)
  obtain i where i: "find_handle hm (ap_handles a) = Some i" "hi_type i = htProcesHandle"
    "pid_at (ap_heap a) (hi_p i) = Some pid" by (auto split: if_splits)
  then show ?thesis using that by (auto simp: handle_sel pid_at_def split: option.splits obj.splits)
qed

lemma new_handle_modules:
  assumes "api_owns a" "new_handle E (CeModuleList v 0) a = Some (h, a')"
  shows "holds_modules h v 0 a' \<and> raw h \<noteq> 0"
proof -
  obtain p t where n: "CreateHandleFromPointer (ae_rd E) p htTHSModule (ap_handles a) = Some (h, t)"
    "a' = put_obj p (CeModuleList v 0) (a\<lparr>ap_handles := t\<rparr>)"
    by (rule new_handle_unfold [OF assms(2)]) simp
  have w: "handles_wf (ap_handles a)" using assms(1) by (simp add: api_owns_def)
  from ht.create_find [OF w n(1)] ht.create_fresh [OF w n(1)] show ?thesis
    by (simp add: holds_modules_def n(2) handle_sel)
qed

lemma module_snapshot_holds:
  assumes "api_owns a" "fl AND TH32CS_SNAPPROCESS = 0" "fl AND TH32CS_SNAPMODULE \<noteq> 0"
    and "CreateToolhelp32Snapshot E fl pid a = Some (h, a1)" "raw h \<noteq> 0"
  obtains op :: CeOpenProcess and ok vMaps fin s v s' where "op_pid op = pid"
    "VirtualQueryExFull (ae_drv E) (m_Driver a) (u64DriverProcessHandle op) False (ap_os a) =
      Some (ok, vMaps, fin, s)"
    "module_loop E (m_Driver a) (u64DriverProcessHandle op) vMaps [] s = (v, s')"
    "new_handle E (CeModuleList v 0) (a\<lparr>ap_os := s'\<rparr>) = Some (h, a1)" "holds_modules h v 0 a1"
proof -
  obtain hm where hm: "FindHandleByPID (pid_at (ap_heap a)) pid (ap_handles a) = Some hm" "raw hm \<noteq> 0"
    using assms(2-5) by (auto simp: CreateToolhelp32Snapshot_def split: option.splits if_splits)
  obtain op where op: "op_pid op = pid"
    "ap_heap a (GetPointerFromHandle hm (ap_handles a)) = Some (OpenProcessObj op)"
    by (rule find_pid_process [OF assms(1) hm])
  obtain ok vMaps fin s v s' where q: "VirtualQueryExFull (ae_drv E) (m_Driver a) (u64DriverProcessHandle op)
      False (ap_os a) = Some (ok, vMaps, fin, s)"
    "module_loop E (m_Driver a) (u64DriverProcessHandle op) vMaps [] s = (v, s')"
    "new_handle E (CeModuleList v 0) (a\<lparr>ap_os := s'\<rparr>) = Some (h, a1)"
    using assms(2-5) hm op(2)
    by (auto simp: CreateToolhelp32Snapshot_def split: option.splits if_splits prod.splits)
  have "holds_modules h v 0 a1" using new_handle_modules [OF _ q(3)] assms(1) by simp
  from that [OF op(1) q this] show ?thesis .
qed


text \<open>A driver that lists the executable mapping of the sample process twice and reads an ELF
  header everywhere.\<close>

definition lib_vma :: vma where
  "lib_vma = \<lparr>vm_start = 0x20000, vm_end = 0x21000, vm_flags = 5, vm_file = Some 1\<rparr>"

definition list_reply :: "byte list" where
  "list_reply = u64_bytes 2 @ concat (map (vma_record demo_env demo_mm 512) [lib_vma, lib_vma]) @ []"

definition list_drv :: "unit drv" where
  "list_drv = \<lparr>os_open = (\<lambda>_ s. (3, s)), os_chmod = (\<lambda>_ _ s. s), os_close = (\<lambda>_ s. s),
     os_read = (\<lambda>_ buf n s. (4, [0x7f, 0x45, 0x4c, 0x46] @ drop 4 buf, s)), os_write = (\<lambda>_ _ n s. (uint n, s)),
     os_ioctl_buf = (\<lambda>_ _ buf s. Some (0, list_reply, s)),
     os_ioctl_val = (\<lambda>_ _ _ s. Some (2, s)), os_lseek = (\<lambda>_ b s. (0, b, s)), os_new = (\<lambda>n. replicate n 0)\<rparr>"

definition list_api :: "unit apienv" where
  "list_api = \<lparr>ae_drv = list_drv, ae_rd = ae_rd demo_api, ae_new = ae_new demo_api, ae_proc = (\<lambda>_. None),
     ae_statm = (\<lambda>_ _. None), ae_cmdline = (\<lambda>_ _. None), ae_task = (\<lambda>_ _. None),
     ae_clock = (\<lambda>s. (100, 0, s)), ae_junk = 0\<rparr>"

lemma list_drv_regions:
  "VirtualQueryExFull list_drv demo_reader 7 False () =
    Some (True, [vma_region demo_env demo_mm lib_vma, vma_region demo_env demo_mm lib_vma], Some 0, ())"
proof -
  have n: "\<forall>v \<in> set [lib_vma, lib_vma]. maps_name demo_env demo_mm v \<noteq> None"
    by (simp add: maps_name_def lib_vma_def)
  have len: "length (u64_bytes 2) = 8" "length [lib_vma, lib_vma] = 2" by simp_all
  have p: "parse_regions list_drv demo_reader 7 False list_reply 8 2 [] () =
      Some ([] @ map (vma_region demo_env demo_mm) [lib_vma, lib_vma], ())"
    using client_list_parses [OF n, of list_drv demo_reader 7 "u64_bytes 2" "[]" "[]" "()"]
    unfolding len list_reply_def .
  have g: "unat (u64_of (get_bytes 0 8 list_reply)) = 2" by (simp add: get_bytes_def list_reply_def)
  have io: "MyIoctl_val list_drv demo_reader cmd v () = Some (2, ())"
    "MyIoctl_buf list_drv demo_reader cmd b () = Some (0, list_reply, ())" for cmd v b
    by (simp_all add: MyIoctl_val_def MyIoctl_buf_def demo_reader_def new_reader_def list_drv_def)
  have l: "\<not> m_nDriverLink demo_reader < 0" by (simp add: demo_reader_def)
  have c: "\<not> (2::int) \<le> 0" "\<not> 2 ^ 31 \<le> (532::int) * (2 + 50)" "(7::u64) \<noteq> 0" "\<not> (0::int) < 0" by simp_all
  show ?thesis
    unfolding VirtualQueryExFull_def Let_def io
    by (simp only: l io g p c option.case prod.case if_False if_True list.map append_Nil simp_thms)
qed

lemma lib_region:
  "module_candidate (vma_region demo_env demo_mm lib_vma)" "mod_name (vma_region demo_env demo_mm lib_vma) = [0x2f, 0x61]"
  "baseaddress (vma_region demo_env demo_mm lib_vma) = 0x20000" "r_size (vma_region demo_env demo_mm lib_vma) = 0x1000"
  by (simp_all add: module_candidate_def mod_name_def vma_region_def maps_name_def lib_vma_def cstr_def
      vma_protection_def VM_EXEC_def VM_WRITE_def VM_READ_def VM_MAYSHARE_def MY_PATH_MAX_LEN_def region_consts
      heap_name_def vdso_name_def)

definition lib_module :: ModuleListEntry where
  "lib_module = \<lparr>baseAddress = 0x20000, moduleSize = 0x2000, moduleName = [0x2f, 0x61]\<rparr>"

lemma demo_module_snapshot:
  obtains h a1 where "CreateToolhelp32Snapshot list_api 8 7 (demo_opened ()) = Some (h, a1)" "raw h \<noteq> 0"
    "holds_modules h [lib_module] 0 a1"
proof -
  have magic: "ReadProcessMemory list_drv demo_reader 7 0x20000 (u32_bytes 0) 4 0 () =
      (True, [0x7f, 0x45, 0x4c, 0x46], Some 4, ())"
    by (simp add: ReadProcessMemory_def rw_args_ok_def demo_reader_def new_reader_def list_drv_def put_bytes_def
        u32_bytes_def length_put_header)
  have c: "CreateToolhelp32Snapshot list_api 8 7 (demo_opened ()) =
      new_handle list_api (CeModuleList [lib_module] 0) (demo_opened ())"
    by (simp add: CreateToolhelp32Snapshot_def TH32CS_SNAPPROCESS_def TH32CS_SNAPMODULE_def FindHandleByPID_def
        demo_opened_def api_start_def pid_at_def demo_process_def GetPointerFromHandle_def list_api_def
        list_drv_regions module_step_def merge_module_grow lib_region magic ELF_MAGIC_def u32_of_def lib_module_def)
  obtain h a1 where n: "new_handle list_api (CeModuleList [lib_module] 0) (demo_opened ()) = Some (h, a1)"
    by (simp add: new_handle_def list_api_def demo_api_sel demo_opened_def CreateHandleFromPointer_def pick_first
        draw_handle_demo put_obj_def)
  from that c n new_handle_modules [OF demo_opened_owns n] show ?thesis by simp
qed


end
