(* ===== verification/Api_Regions.thy ===== *)
theory Api_Regions
  imports Api_Handles
begin

text \<open>
  Opening processes, the region queries and memory access of CEServer/api.cpp: a process is
  opened once, the cached query answers with the region or the gap an address lies in, and a
  read through the server's handle is a read of the target, down to the driver's model.
\<close>

section \<open>Opening a process\<close>

lemma scast_zero: "scast (w :: u32) = (0 :: u64) \<Longrightarrow> w = 0"
proof -
  assume "scast w = (0 :: u64)"
  then have "sint (scast w :: u64) = 0" by simp
  moreover have "sint (scast w :: u64) = sint w" by (rule sint_up_scast) (simp add: is_up)
  ultimately have "sint w = sint (0 :: u32)" by simp
  then show "w = 0" by (rule signed_word_eqI)
qed

text \<open>A process is opened once: opening a pid gives a handle, not null, of an open-process object
  for that pid, and opening the pid again gives the same handle and changes nothing.\<close>

theorem open_process_once:
  assumes "new_fresh E" "api_owns a" "pid \<noteq> 0" "ae_new E (ap_heap a) = Some p"
    and "rd_calls (ap_handles a) \<le> n" "find_handle (draw_handle (ae_rd E n)) (ap_handles a) = None"
  shows "\<exists>h a' (op :: CeOpenProcess). Api_OpenProcess E pid a = Some (h, a') \<and> raw h \<noteq> 0 \<and>
    GetHandleType h (ap_handles a') = htProcesHandle \<and> op_pid op = pid \<and>
    ap_heap a' (GetPointerFromHandle h (ap_handles a')) = Some (OpenProcessObj op) \<and>
    Api_OpenProcess E pid a' = Some (h, a')"
proof -
  obtain h0 where f: "FindHandleByPID (pid_at (ap_heap a)) pid (ap_handles a) = Some h0"
    and r: "if h0 = HANDLE 0
     then \<forall>k i. find_handle k (ap_handles a) = Some i \<longrightarrow> hi_type i = htProcesHandle \<longrightarrow>
       pid_at (ap_heap a) (hi_p i) \<noteq> Some pid
     else (\<exists>i. find_handle h0 (ap_handles a) = Some i \<and> hi_type i = htProcesHandle \<and>
         pid_at (ap_heap a) (hi_p i) = Some pid)"
    using find_pid_result [OF assms(2), of pid] by (auto split: if_splits)
  show ?thesis
  proof (cases "h0 = HANDLE 0")
    case False
    with f have o: "Api_OpenProcess E pid a = Some (h0, a)" "raw h0 \<noteq> 0"
      by (auto simp: Api_OpenProcess_def intro: HANDLE.expand)
    from False r obtain i where "find_handle h0 (ap_handles a) = Some i" "hi_type i = htProcesHandle"
      "pid_at (ap_heap a) (hi_p i) = Some pid" by auto
    then obtain op where "ap_heap a (hi_p i) = Some (OpenProcessObj op)" "op_pid op = pid"
      by (auto simp: pid_at_def split: option.splits obj.splits)
    with o \<open>find_handle h0 (ap_handles a) = Some i\<close> \<open>hi_type i = htProcesHandle\<close> show ?thesis
      by (intro exI [of _ h0] exI [of _ a] exI [of _ op]) (simp add: handle_sel)
  next
    case True
    let ?op = "\<lparr>op_pid = pid, u64DriverProcessHandle = scast pid, vLastMaps = [], nLastGetMapsTime = 0\<rparr>"
    obtain h t where n: "new_handle E (OpenProcessObj ?op) a =
        Some (h, put_obj p (OpenProcessObj ?op) (a\<lparr>ap_handles := t\<rparr>))" "raw h \<noteq> 0"
      "GetHandleType h t = htProcesHandle" "GetPointerFromHandle h t = p"
      "\<And>k. find_handle k t = (if k = h then Some \<lparr>hi_p = p, hi_type = htProcesHandle\<rparr>
        else find_handle k (ap_handles a))"
      using new_handle_ok [OF assms(2,4-6), of "OpenProcessObj ?op"] by auto
    let ?a' = "put_obj p (OpenProcessObj ?op) (a\<lparr>ap_handles := t\<rparr>)"
    have "scast pid \<noteq> (0::u64)" using assms(3) scast_zero by blast
    with f True n(1) have o: "Api_OpenProcess E pid a = Some (h, ?a')"
      by (simp add: Api_OpenProcess_def drv_OpenProcess_def)
    have own: "api_owns ?a'" by (rule new_handle_owns [OF assms(1,2) n(1)])
    have dead: "ap_heap a p = None" using assms(1,4) by (simp add: new_fresh_def)
    obtain h2 where f2: "FindHandleByPID (pid_at (ap_heap ?a')) pid (ap_handles ?a') = Some h2"
      and r2: "if h2 = HANDLE 0
       then \<forall>k i. find_handle k (ap_handles ?a') = Some i \<longrightarrow> hi_type i = htProcesHandle \<longrightarrow>
         pid_at (ap_heap ?a') (hi_p i) \<noteq> Some pid
       else (\<exists>i. find_handle h2 (ap_handles ?a') = Some i \<and> hi_type i = htProcesHandle \<and>
           pid_at (ap_heap ?a') (hi_p i) = Some pid)"
      using find_pid_result [OF own, of pid] by (auto split: if_splits)
    have new: "pid_at (ap_heap ?a') p = Some pid" by (simp add: pid_at_def)
    have old: "pid_at (ap_heap ?a') (hi_p i) \<noteq> Some pid"
      if "find_handle k (ap_handles a) = Some i" "hi_type i = htProcesHandle" for k i
    proof -
      have "pid_at (ap_heap a) (hi_p i) \<noteq> Some pid" using r True that by simp
      moreover have "hi_p i \<noteq> p" using pid_at_defined [OF assms(2) that] dead by (auto simp: pid_at_def)
      ultimately show ?thesis by (simp add: pid_at_def)
    qed
    have "h2 \<noteq> HANDLE 0"
    proof
      assume "h2 = HANDLE 0"
      with r2 have "find_handle h t = Some i \<Longrightarrow> hi_type i = htProcesHandle \<Longrightarrow>
        pid_at (ap_heap ?a') (hi_p i) \<noteq> Some pid" for i by simp
      with n(5) [of h] new show False by simp
    qed
    with r2 n(5) old have "h2 = h" by (auto split: if_splits)
    with f2 n(2) have "Api_OpenProcess E pid ?a' = Some (h, ?a')" by (simp add: Api_OpenProcess_def)
    with o n(2-4) show ?thesis
      by (intro exI [of _ h] exI [of _ ?a'] exI [of _ ?op]) simp
  qed
qed

theorem open_process_once_witness:
  "\<exists>h a'. Api_OpenProcess demo_api 9 demo_open = Some (h, a') \<and> Api_OpenProcess demo_api 9 a' = Some (h, a')"
proof -
  have f: "find_handle (draw_handle (ae_rd demo_api 1)) (ap_handles demo_open) = None"
    by (simp add: demo_api_sel draw_handle_demo find_handle_def demo_open_def demo_opened_def)
  have "\<exists>h a' (op :: CeOpenProcess). Api_OpenProcess demo_api 9 demo_open = Some (h, a') \<and> raw h \<noteq> 0 \<and>
    GetHandleType h (ap_handles a') = htProcesHandle \<and> op_pid op = 9 \<and>
    ap_heap a' (GetPointerFromHandle h (ap_handles a')) = Some (OpenProcessObj op) \<and>
    Api_OpenProcess demo_api 9 a' = Some (h, a')"
    by (rule open_process_once [OF demo_new_fresh demo_open_owns _ _ _ f, of 9 "0x2000"])
      (simp_all add: demo_api_sel demo_open_def demo_opened_def)
  then show ?thesis by blast
qed

section \<open>The cached query\<close>

definition maps_sorted :: "DRIVER_REGION_INFO list \<Rightarrow> bool" where
  "maps_sorted rs \<longleftrightarrow>
     (\<forall>r \<in> set rs. 0 < unat (r_size r) \<and> unat (baseaddress r) + unat (r_size r) < 2 ^ 64) \<and>
     sorted_wrt (\<lambda>r q. unat (baseaddress r) + unat (r_size r) \<le> unat (baseaddress q)) rs"

definition in_region :: "u64 \<Rightarrow> DRIVER_REGION_INFO \<Rightarrow> bool" where
  "in_region x r \<longleftrightarrow> unat (baseaddress r) \<le> unat x \<and> unat x < unat (baseaddress r) + unat (r_size r)"

lemma find_region_sorted:
  assumes "maps_sorted rs" "ri_baseaddress ri = x"
  shows "find_region x ri nm rs =
    (case filter (\<lambda>r. unat x < unat (baseaddress r) + unat (r_size r)) rs of
       [] \<Rightarrow> (False, ri, nm)
     | r # _ \<Rightarrow> (True,
         (if in_region x r
          then ri\<lparr>ri_protection := protection r, ri_type := r_type r, ri_size := baseaddress r + r_size r - x\<rparr>
          else ri\<lparr>ri_size := baseaddress r - x, ri_protection := PAGE_NOACCESS, ri_type := 0\<rparr>),
         cstr (r_name r)))"
  using assms
proof (induction rs)
  case Nil
  then show ?case by simp
next
  case (Cons r rs)
  have "unat (baseaddress r + r_size r) = unat (baseaddress r) + unat (r_size r)"
    using Cons.prems(1) by (auto simp: maps_sorted_def unat_word_ariths)
  then have c: "baseaddress r + r_size r > x \<longleftrightarrow> unat x < unat (baseaddress r) + unat (r_size r)"
    "x \<ge> baseaddress r \<longleftrightarrow> unat (baseaddress r) \<le> unat x"
    by (simp_all add: word_less_nat_alt word_le_nat_alt)
  have "maps_sorted rs" using Cons.prems(1) by (simp add: maps_sorted_def)
  with Cons c show ?case by (simp add: Let_def in_region_def)
qed

lemma sorted_others:
  assumes "maps_sorted rs" "filter (\<lambda>r. unat x < unat (baseaddress r) + unat (r_size r)) rs = r0 # tail"
    and "q \<in> set rs"
  shows "q = r0 \<or> unat (baseaddress q) + unat (r_size q) \<le> unat x \<or>
    unat (baseaddress r0) + unat (r_size r0) \<le> unat (baseaddress q)"
proof -
  obtain us vs where rs: "rs = us @ r0 # vs"
    "\<forall>u \<in> set us. \<not> unat x < unat (baseaddress u) + unat (r_size u)"
    using assms(2) unfolding filter_eq_Cons_iff by blast
  with assms(1,3) show ?thesis by (auto simp: maps_sorted_def sorted_wrt_append not_less)
qed

text \<open>With a fresh cache of the driver's regions, sorted and disjoint as the kernel lists them, the
  query answers for the page of the address without asking the driver: inside a region with
  its protection, type, name and the distance to its end; in a gap with no access, up to the
  start of the next region, no address of the gap being in a region; and it fails exactly when
  every region ends at or below the page.\<close>

theorem virtual_query_region:
  assumes "GetHandleType h (ap_handles a) = htProcesHandle"
    and "ap_heap a (GetPointerFromHandle h (ap_handles a)) = Some (OpenProcessObj op)"
    and "ae_clock E (ap_os a) = (tv_sec, tv_nsec, s)"
    and "clock_ms tv_sec tv_nsec - nLastGetMapsTime op \<le> 60000"
    and "maps_sorted (vLastMaps op)" "page = addr AND NOT 0xfff"
  shows "\<exists>found ri nm'. Api_VirtualQueryEx E h addr ri0 nm a = Some (found, ri, nm', a\<lparr>ap_os := s\<rparr>) \<and>
    ri_baseaddress ri = page \<and>
    (found \<longleftrightarrow> (\<exists>r \<in> set (vLastMaps op). unat page < unat (baseaddress r) + unat (r_size r))) \<and>
    (\<forall>r \<in> set (vLastMaps op). in_region page r \<longrightarrow> ri_protection ri = protection r \<and> ri_type ri = r_type r \<and>
      unat page + unat (ri_size ri) = unat (baseaddress r) + unat (r_size r) \<and> nm' = cstr (r_name r)) \<and>
    (found \<and> (\<forall>r \<in> set (vLastMaps op). \<not> in_region page r) \<longrightarrow>
      ri_protection ri = PAGE_NOACCESS \<and> ri_type ri = 0 \<and>
      (\<exists>r \<in> set (vLastMaps op). unat page + unat (ri_size ri) = unat (baseaddress r) \<and> nm' = cstr (r_name r)) \<and>
      (\<forall>r \<in> set (vLastMaps op). \<forall>x. unat page \<le> unat x \<and> unat x < unat page + unat (ri_size ri) \<longrightarrow>
        \<not> in_region x r))"
proof -
  let ?rs = "vLastMaps op"
  let ?ri = "ri0\<lparr>ri_protection := 0, ri_baseaddress := page\<rparr>"
  let ?F = "filter (\<lambda>r. unat page < unat (baseaddress r) + unat (r_size r)) ?rs"
  have same: "put_obj (GetPointerFromHandle h (ap_handles a)) (OpenProcessObj op) (a\<lparr>ap_os := s\<rparr>) = a\<lparr>ap_os := s\<rparr>"
    using assms(2) by (simp add: put_obj_def fun_upd_idem)
  have fresh: "\<not> 1000 * 60 < clock_ms tv_sec tv_nsec - nLastGetMapsTime op"
    using assms(4) by (simp add: not_less)
  have q: "Api_VirtualQueryEx E h addr ri0 nm a =
      (case find_region page ?ri nm ?rs of (found, ri, nm') \<Rightarrow> Some (found, ri, nm', a\<lparr>ap_os := s\<rparr>))"
    by (simp only: Api_VirtualQueryEx_def Let_def assms(1-3) assms(6) [symmetric] fresh same simp_thms
        option.case obj.case prod.case if_False)
  have find: "find_region page ?ri nm ?rs = (case ?F of [] \<Rightarrow> (False, ?ri, nm)
     | r # _ \<Rightarrow> (True,
         (if in_region page r
          then ?ri\<lparr>ri_protection := protection r, ri_type := r_type r, ri_size := baseaddress r + r_size r - page\<rparr>
          else ?ri\<lparr>ri_size := baseaddress r - page, ri_protection := PAGE_NOACCESS, ri_type := 0\<rparr>),
         cstr (r_name r)))"
    by (rule find_region_sorted [OF assms(5)]) simp
  show ?thesis
  proof (cases ?F)
    case Nil
    then have "\<not> (\<exists>r \<in> set ?rs. unat page < unat (baseaddress r) + unat (r_size r))"
      by (simp add: filter_empty_conv)
    with q find Nil show ?thesis by (auto simp: in_region_def)
  next
    case (Cons r0 tail)
    have r0: "r0 \<in> set ?rs" "unat page < unat (baseaddress r0) + unat (r_size r0)"
      using Cons by (auto simp: filter_eq_Cons_iff)
    note other = sorted_others [OF assms(5) Cons]
    have e: "unat (baseaddress r0 + r_size r0) = unat (baseaddress r0) + unat (r_size r0)"
      using assms(5) r0(1) by (auto simp: maps_sorted_def unat_word_ariths)
    show ?thesis
    proof (cases "in_region page r0")
      case True
      then have le: "page \<le> baseaddress r0 + r_size r0" by (simp add: word_le_nat_alt e in_region_def)
      let ?out = "?ri\<lparr>ri_protection := protection r0, ri_type := r_type r0, ri_size := baseaddress r0 + r_size r0 - page\<rparr>"
      have sz: "unat page + unat (ri_size ?out) = unat (baseaddress r0) + unat (r_size r0)"
        using unat_le_sub [OF le] e True by (simp add: in_region_def)
      have "\<forall>r \<in> set ?rs. in_region page r \<longrightarrow> r = r0"
        using other r0(2) by (fastforce simp: in_region_def)
      with sz have inside: "\<forall>r \<in> set ?rs. in_region page r \<longrightarrow> ri_protection ?out = protection r \<and>
          ri_type ?out = r_type r \<and> unat page + unat (ri_size ?out) = unat (baseaddress r) + unat (r_size r) \<and>
          cstr (r_name r0) = cstr (r_name r)" by (auto dest!: bspec)
      have "Api_VirtualQueryEx E h addr ri0 nm a = Some (True, ?out, cstr (r_name r0), a\<lparr>ap_os := s\<rparr>)"
        using True by (simp add: q find Cons)
      moreover have "ri_baseaddress ?out = page" by simp
      ultimately show ?thesis using inside True r0 by blast
    next
      case False
      with r0(2) have lt: "unat page < unat (baseaddress r0)" by (simp add: in_region_def)
      let ?out = "?ri\<lparr>ri_size := baseaddress r0 - page, ri_protection := PAGE_NOACCESS, ri_type := 0\<rparr>"
      have sz: "unat page + unat (ri_size ?out) = unat (baseaddress r0)"
        using lt by (simp add: unat_sub word_le_nat_alt)
      have no: "\<forall>r \<in> set ?rs. \<forall>x. unat page \<le> unat x \<and> unat x < unat page + unat (ri_size ?out) \<longrightarrow> \<not> in_region x r"
        unfolding sz using other lt by (fastforce simp: in_region_def)
      then have none: "\<forall>r \<in> set ?rs. \<not> in_region page r" using lt sz by simp
      have gap: "ri_protection ?out = PAGE_NOACCESS" "ri_type ?out = 0" by simp_all
      have "Api_VirtualQueryEx E h addr ri0 nm a = Some (True, ?out, cstr (r_name r0), a\<lparr>ap_os := s\<rparr>)"
        using False by (simp add: q find Cons)
      moreover have "ri_baseaddress ?out = page" by simp
      ultimately show ?thesis using no none gap sz r0 by blast
    qed
  qed
qed

definition demo_info :: RegionInfo where
  "demo_info = \<lparr>ri_baseaddress = 0, ri_size = 0, ri_protection = 0, ri_type = 0\<rparr>"

definition demo_maps :: "DRIVER_REGION_INFO list" where
  "demo_maps = [empty_region\<lparr>baseaddress := 0x20000, r_size := 0x2000, protection := PAGE_READWRITE\<rparr>,
     empty_region\<lparr>baseaddress := 0x30000, r_size := 0x1000, protection := PAGE_READONLY\<rparr>]"

theorem virtual_query_region_witness:
  "\<exists>found ri nm. Api_VirtualQueryEx demo_api (HANDLE 10000) 0x24abc demo_info []
      (demo_open\<lparr>ap_heap := [0x1000 \<mapsto> OpenProcessObj (demo_process\<lparr>vLastMaps := demo_maps, nLastGetMapsTime := 50000\<rparr>)]\<rparr>) =
    Some (found, ri, nm, demo_open\<lparr>ap_heap := [0x1000 \<mapsto> OpenProcessObj (demo_process\<lparr>vLastMaps := demo_maps, nLastGetMapsTime := 50000\<rparr>)]\<rparr>) \<and>
    found \<and> ri_protection ri = PAGE_NOACCESS \<and> 0x24000 + unat (ri_size ri) \<in> {0x20000, 0x30000}"
proof -
  let ?op = "demo_process\<lparr>vLastMaps := demo_maps, nLastGetMapsTime := 50000\<rparr>"
  let ?a = "demo_open\<lparr>ap_heap := [0x1000 \<mapsto> OpenProcessObj ?op]\<rparr>"
  have p: "(0x24000 :: u64) = 0x24abc AND NOT 0xfff" by simp
  have g: "GetHandleType (HANDLE 10000) (ap_handles ?a) = htProcesHandle"
    "ap_heap ?a (GetPointerFromHandle (HANDLE 10000) (ap_handles ?a)) = Some (OpenProcessObj ?op)"
    by (simp_all add: demo_open_def demo_opened_def GetHandleType_def GetPointerFromHandle_def)
  have s: "maps_sorted (vLastMaps ?op)" by (simp add: maps_sorted_def demo_maps_def)
  have f: "clock_ms 100 0 - nLastGetMapsTime ?op \<le> 60000" by (simp add: clock_ms_def)
  have "vLastMaps ?op = demo_maps" by simp
  moreover have "?a\<lparr>ap_os := ap_os ?a\<rparr> = ?a" by simp
  ultimately show ?thesis
    using virtual_query_region [OF g demo_api_sel(4) f s p, of demo_info "[]"]
    by (fastforce simp: demo_maps_def in_region_def)
qed

text \<open>A query soon after start-up finds nothing: while the monotonic clock is within the first minute
  the empty cache of a process that was just opened counts as fresh, so the query fails for
  every address without asking the driver.\<close>

theorem query_early_boot:
  assumes "GetHandleType h (ap_handles a) = htProcesHandle"
    and "ap_heap a (GetPointerFromHandle h (ap_handles a)) = Some (OpenProcessObj op)"
    and "ae_clock E (ap_os a) = (tv_sec, tv_nsec, s)" "clock_ms tv_sec tv_nsec \<le> 60000"
    and "vLastMaps op = []" "nLastGetMapsTime op = 0"
  shows "\<exists>ri. Api_VirtualQueryEx E h addr ri0 nm a = Some (False, ri, nm, a\<lparr>ap_os := s\<rparr>) \<and>
    ri_size ri = ri_size ri0 \<and> ri_type ri = ri_type ri0"
proof -
  have same: "put_obj (GetPointerFromHandle h (ap_handles a)) (OpenProcessObj op) (a\<lparr>ap_os := s\<rparr>) = a\<lparr>ap_os := s\<rparr>"
    using assms(2) by (simp add: put_obj_def fun_upd_idem)
  have "\<not> 1000 * 60 < clock_ms tv_sec tv_nsec - nLastGetMapsTime op" using assms(4,6) by (simp add: not_less)
  then show ?thesis
    by (simp only: Api_VirtualQueryEx_def Let_def assms(1-3,5) same simp_thms find_region.simps
        option.case obj.case prod.case if_False) simp
qed

theorem query_early_boot_witness:
  "\<exists>ri. Api_VirtualQueryEx (demo_api\<lparr>ae_clock := \<lambda>w. (30, 0, w)\<rparr>) (HANDLE 10000) 0x10000 demo_info [] demo_open =
    Some (False, ri, [], demo_open)"
proof -
  have g: "GetHandleType (HANDLE 10000) (ap_handles demo_open) = htProcesHandle"
    "ap_heap demo_open (GetPointerFromHandle (HANDLE 10000) (ap_handles demo_open)) = Some (OpenProcessObj demo_process)"
    by (simp_all add: demo_open_def demo_opened_def GetHandleType_def GetPointerFromHandle_def)
  have "ae_clock (demo_api\<lparr>ae_clock := \<lambda>w. (30, 0, w)\<rparr>) (ap_os demo_open) = (30, 0, ap_os demo_open)" by simp
  from query_early_boot [OF g this, of "0x10000" demo_info "[]"]
  show ?thesis by (simp add: clock_ms_def demo_process_def) blast
qed

section \<open>Memory\<close>

lemma scast_small:
  assumes "unat (n :: u32) < 2 ^ 31"
  shows "scast n = (word_of_nat (unat n) :: u64)"
proof -
  have "unat n < 2147483648" using assms by simp
  then have "int (unat n) < 2147483648" by linarith
  moreover have "- 2147483648 \<le> int (unat n)" by linarith
  ultimately have "sint n = int (unat n)"
    unfolding sint_uint by (subst signed_take_bit_int_eq_self) simp_all
  then show ?thesis by (simp add: scast_eq)
qed

lemma api_reads_ok:
  assumes "GetHandleType h (ap_handles a) = htProcesHandle"
    and "ap_heap a (GetPointerFromHandle h (ap_handles a)) = Some (OpenProcessObj op)"
    and "ae_drv E = kernel_drv u K" "0 \<le> m_nDriverLink (m_Driver a)" "u64DriverProcessHandle op \<noteq> 0"
    and "va \<noteq> 0" "0 < unat (n :: u32)" "unat n < 2 ^ 31" "length buf = unat n"
    and "kernel_content K (ap_os a) (u64DriverProcessHandle op) va (unat n) False = Some bs"
  shows "\<exists>w. Api_ReadProcessMemory E h va buf n a = Some (n, bs, a\<lparr>ap_os := w\<rparr>)"
proof -
  have un: "unat (scast n :: u64) = unat n"
    unfolding scast_small [OF assms(8)] by (rule unat_u64_of_nat) (use assms(8) in simp)
  have pos: "0 < (scast n :: u64)" using assms(7) un by (simp add: word_less_nat_alt)
  have "\<exists>w. ReadProcessMemory (kernel_drv u K) (m_Driver a) (u64DriverProcessHandle op) va buf (scast n) 0 (ap_os a) =
      (True, bs, Some (int (unat (scast n :: u64))), w)"
    using kr.ReadProcessMemory_content [OF refl assms(4,5,6) pos] assms(8-10) un by simp
  then show ?thesis using assms(1-3) un by (auto simp: Api_ReadProcessMemory_def)
qed

text \<open>A read through the server's handle is a read of the target: with the driver of this
  development below, for a handle of an open process and a size of the signed 32-bit range,
  the call returns the size and the bytes at the target's addresses.\<close>

theorem api_reads_target:
  assumes "GetHandleType h (ap_handles a) = htProcesHandle"
    and "ap_heap a (GetPointerFromHandle h (ap_handles a)) = Some (OpenProcessObj op)"
    and "ae_drv E = kernel_drv u K" "0 \<le> m_nDriverLink (m_Driver a)" "u64DriverProcessHandle op \<noteq> 0"
    and "va \<noteq> 0" "0 < unat (n :: u32)" "unat n < 2 ^ 31" "length buf = unat n"
    and "kernel_content K (ap_os a) (u64DriverProcessHandle op) va (unat n) False = Some bs"
  shows "\<exists>w. Api_ReadProcessMemory E h va buf n a = Some (n, bs, a\<lparr>ap_os := w\<rparr>)"
  using assms by (rule api_reads_ok)

theorem api_reads_target_witness:
  "\<exists>w. Api_ReadProcessMemory demo_api (HANDLE 10000) 0x10ffe [0, 0, 0, 0] 4 demo_open =
    Some (4, [0xfe, 0xff, 0, 1], demo_open\<lparr>ap_os := w\<rparr>)"
proof -
  have g: "GetHandleType (HANDLE 10000) (ap_handles demo_open) = htProcesHandle"
    "ap_heap demo_open (GetPointerFromHandle (HANDLE 10000) (ap_handles demo_open)) = Some (OpenProcessObj demo_process)"
    by (simp_all add: demo_open_def demo_opened_def GetHandleType_def GetPointerFromHandle_def)
  have r: "m_Driver demo_open = demo_reader" "ap_os demo_open = demo_bp0"
    by (simp_all add: demo_open_def demo_opened_def api_start_def)
  have "kernel_content (demo_ioenv (Inr 0)) (ap_os demo_open) (u64DriverProcessHandle demo_process) 0x10ffe
      (unat (4 :: u32)) False = Some [0xfe, 0xff, 0, 1]"
    using demo_content by (simp add: r demo_process_def)
  from api_reads_target [OF g demo_api_sel(3) _ _ _ _ _ _ this, of "[0, 0, 0, 0]"]
  show ?thesis by (simp add: r demo_reader_def demo_process_def)
qed

end
