(* ===== verification/Server_Conns.thy ===== *)
theory Server_Conns
  imports Ce_Server Api_Snapshots Api_Regions "HOL-Library.Sublist"
begin

text \<open>
  What the server of CEServer/main.cpp guarantees: a connection is only read forward and written
  forward and its thread ends when its input does; every command is a run of the operations of
  api.cpp, so the ownership of objects holds in every reachable state of the server. \<open>quiet\<close> and
  the lemmas about it are what the proofs about replies use.
\<close>

section \<open>A connection moves forward\<close>

definition conn_le :: "conn \<Rightarrow> conn \<Rightarrow> bool" where
  "conn_le c c' \<longleftrightarrow> suffix (stream (cn_in c')) (stream (cn_in c)) \<and> prefix (cn_out c) (cn_out c') \<and>
     cn_closes c \<le> cn_closes c'"

lemma conn_le_refl [simp]: "conn_le c c"
  by (simp add: conn_le_def)

lemma conn_le_trans: "conn_le c d \<Longrightarrow> conn_le d e \<Longrightarrow> conn_le c e"
  by (auto simp: conn_le_def intro: suffix_order.trans prefix_order.trans)

lemma recvall_le: "recvall n c = (r, b, d) \<Longrightarrow> conn_le c d"
  using recvall_ok [of n c r b d] by (auto simp: conn_le_def suffix_def)

lemma sends_step: "conn_le d (sends b d)"
proof -
  obtain r d' where s: "sendall b d = (r, d')" by fastforce
  show ?thesis using sendall_ok [OF s] by (auto simp: conn_le_def sends_def s)
qed

lemma sends_le [simp]: "conn_le c d \<Longrightarrow> conn_le c (sends b d)"
  by (rule conn_le_trans [OF _ sends_step])

lemma close_le [simp]: "conn_le c d \<Longrightarrow> conn_le c (close_conn d)"
  by (simp add: conn_le_def close_conn_def)

lemma exit_le [simp]: "conn_le c d \<Longrightarrow> conn_le c (d\<lparr>cn_exit := x\<rparr>)"
  by (simp add: conn_le_def)

lemma send_each_le [simp]: "conn_le c d \<Longrightarrow> conn_le c (send_each bs d)"
  by (induction bs arbitrary: d) simp_all

text \<open>Every handler starts by receiving its parameters.\<close>

lemma recv_first:
  assumes "(case recvall n c of (r, b, c1) \<Rightarrow> F r b c1) = x"
    and "\<And>r b c1. recvall n c = (r, b, c1) \<Longrightarrow> conn_le c c1 \<Longrightarrow> F r b c1 = x \<Longrightarrow> P"
  shows P
proof -
  obtain r b c1 where e: "recvall n c = (r, b, c1)" by (metis prod_cases3)
  with assms(1) recvall_le [OF e] assms(2) show P by simp
qed

lemma module_stream_forward:
  "module_stream r me out a c = Some x \<Longrightarrow> conn_le c (snd (snd x)) \<and> (api_step E)\<^sup>*\<^sup>* a (fst (snd x))"
proof (induction rule: module_stream.raw_induct [rotated 1, consumes 1, case_names step])
  case (step f r me out a c x)
  obtain out1 c1 where f: "(if length out + 28 + length (moduleName me) > 65536 then ([], sends out c) else (out, c)) = (out1, c1)"
    by fastforce
  then have c1: "conn_le c c1" by (auto split: if_splits)
  obtain m a1 where n: "Module32Next r a = Some (m, a1)"
    using step(2) f by (auto split: if_splits option.splits)
  then have s: "api_step E a a1" by (rule api_step.module_next)
  show ?case
  proof (cases m)
    case None
    with step(2) f n have "x = (out1 @ module_record me, a1, c1)" by (auto split: if_splits)
    with c1 s show ?thesis by auto
  next
    case (Some me')
    with step(2) f n have "f r me' (out1 @ module_record me) a1 c1 = Some x" by (auto split: if_splits)
    from step(1) [OF this] c1 s show ?thesis by (auto intro: conn_le_trans converse_rtranclp_into_rtranclp)
  qed
qed

text \<open>The contract of a handler: its connection moves forward, and its effect on the server's state
  is a run of operations of api.cpp.\<close>

abbreviation handled :: "('s, 'z) srvenv \<Rightarrow> 's api \<Rightarrow> conn \<Rightarrow> 's api \<Rightarrow> conn \<Rightarrow> bool" where
  "handled E a c a' c' \<equiv> conn_le c c' \<and> (api_step (sv_api E))\<^sup>*\<^sup>* a a'"

lemma api_run: "api_step E a a' \<Longrightarrow> (api_step E)\<^sup>*\<^sup>* a a'"
  by (rule r_into_rtranclp)

lemmas api_runs = api_step.snapshot [THEN api_run] api_step.process_first [THEN api_run]
  api_step.process_next [THEN api_run] api_step.module_first [THEN api_run]
  api_step.module_next [THEN api_run] api_step.open_process [THEN api_run]
  api_step.close_handle [THEN api_run] api_step.query_full [THEN api_run]
  api_step.query [THEN api_run] api_step.read_memory [THEN api_run]
  api_step.write_memory [THEN api_run]

named_theorems handler_ok \<open>the contract for each handler\<close>

lemma closehandle_ok [handler_ok]:
  "cmd_closehandle a c = Some (a', c') \<Longrightarrow> handled E a c a' c'"
  unfolding cmd_closehandle_def
  by (erule recv_first) (auto split: if_splits option.splits intro: api_runs)

lemma snapshot_ok [handler_ok]:
  "cmd_snapshot E a c = Some (a', c') \<Longrightarrow> handled E a c a' c'"
  unfolding cmd_snapshot_def
  by (erule recv_first) (auto split: if_splits option.splits intro: api_runs)

lemma process32_ok [handler_ok]:
  "cmd_process32 b a c = Some (a', c') \<Longrightarrow> handled E a c a' c'"
  unfolding cmd_process32_def
  by (erule recv_first)
    (auto split: if_splits option.splits intro: api_runs)

lemma module32_ok [handler_ok]:
  "cmd_module32 b a c = Some (a', c') \<Longrightarrow> handled E a c a' c'"
  unfolding cmd_module32_def
  by (erule recv_first)
    (auto split: if_splits option.splits intro: api_runs)

lemma openprocess_ok [handler_ok]:
  "cmd_openprocess E a c = Some (a', c') \<Longrightarrow> handled E a c a' c'"
  unfolding cmd_openprocess_def
  by (erule recv_first) (auto split: if_splits option.splits intro: api_runs)

lemma readmemory_ok [handler_ok]:
  "cmd_readmemory E a c = Some (a', c') \<Longrightarrow> handled E a c a' c'"
  unfolding cmd_readmemory_def Let_def
  by (erule recv_first)
    (auto split: if_splits option.splits prod.splits intro: api_runs)

lemma writememory_ok [handler_ok]:
  "cmd_writememory E a c = Some (a', c') \<Longrightarrow> handled E a c a' c'"
  unfolding cmd_writememory_def Let_def
  by (erule recv_first)
    (auto split: if_splits option.splits prod.splits intro: api_runs
      dest!: recvall_le [of "scast _"] elim: conn_le_trans)

lemma queryfull_ok [handler_ok]:
  "cmd_queryfull E a c = Some (a', c') \<Longrightarrow> handled E a c a' c'"
  unfolding cmd_queryfull_def Let_def
  by (erule recv_first)
    (auto simp del: send_each.simps split: if_splits option.splits prod.splits intro: api_runs)

lemma query_ok [handler_ok]:
  "cmd_query E b a c = Some (a', c') \<Longrightarrow> handled E a c a' c'"
  unfolding cmd_query_def Let_def
  by (erule recv_first) (auto split: if_splits option.splits prod.splits intro: api_runs)

lemma plain_ok:
  "conn_le c (cmd_getversion c)" "conn_le c (cmd_getarchitecture E c)"
  "conn_le c (cmd_getoptions c)" "conn_le c (cmd_getabi c)"
  "conn_le c (cmd_isandroid E c)"
proof -
  show "conn_le c (cmd_getversion c)" "conn_le c (cmd_getoptions c)" "conn_le c (cmd_getabi c)"
    "conn_le c (cmd_isandroid E c)"
    by (simp_all add: cmd_getversion_def cmd_getoptions_def cmd_getabi_def cmd_isandroid_def)
  show "conn_le c (cmd_getarchitecture E c)"
    by (auto simp: cmd_getarchitecture_def split: prod.splits dest: recvall_le)
qed

lemma symbols_ok [handler_ok]:
  "cmd_symbols a c = Some (a', c') \<Longrightarrow> handled E a c a' c'"
  unfolding cmd_symbols_def Let_def
  by (erule recv_first)
    (auto split: if_splits prod.splits dest!: recvall_le [of "ucast _"] elim: conn_le_trans)

lemma aobscan_ok [handler_ok]:
  "cmd_aobscan a c = Some (a', c') \<Longrightarrow> handled E a c a' c'"
  unfolding cmd_aobscan_def Let_def
  by (erule recv_first)
    (auto split: if_splits prod.splits dest!: recvall_le [of "scast _"] elim: conn_le_trans)

lemma send_threads_ok:
  "send_threads r a c = Some (a', c') \<Longrightarrow> handled E a c a' c'"
  by (auto simp: send_threads_def Let_def split: if_splits option.splits obj.splits intro: api_runs)

lemma send_modules_ok:
  assumes "send_modules E r a c = Some (a', c')"
  shows "handled E a c a' c'"
proof -
  obtain out a1 c1 where o: "(if raw r \<noteq> 0 then (case Module32First r a of None \<Rightarrow> None
               | Some (None, a1) \<Rightarrow> Some ([], a1, c)
               | Some (Some me, a1) \<Rightarrow> module_stream r me [] a1 c)
            else Some ([], a, c)) = Some (out, a1, c1)"
    using assms by (auto simp: send_modules_def split: option.splits)
  have h: "handled E a c a1 c1"
    using o module_stream_forward [where E = "sv_api E"]
    by (auto split: if_splits option.splits intro: api_step.module_first converse_rtranclp_into_rtranclp)
  define c3 where "c3 = sends (u32_bytes 0 @ sv_junk E 20 @ u32_bytes 0) (if out \<noteq> [] then sends out c1 else c1)"
  have c3: "conn_le c c3" using h by (simp add: c3_def)
  have "(if raw r \<noteq> 0 then map_option (\<lambda>a2. (a2, c3)) (Api_CloseHandle r a1) else Some (a1, c3)) = Some (a', c')"
    using assms unfolding send_modules_def o option.case prod.case Let_def c3_def .
  then show ?thesis using c3 h
    by (auto split: if_splits intro: api_step.close_handle rtranclp.rtrancl_into_rtrancl)
qed

lemma snapshotex_ok [handler_ok]:
  assumes "cmd_snapshotex E a c = Some (a', c')"
  shows "handled E a c a' c'"
  using assms unfolding cmd_snapshotex_def
proof (rule recv_first)
  fix r b c1
  assume c1: "conn_le c c1"
    and e: "(if 0 < r then let dwFlags = u32_of (get_bytes 0 4 b) in
         case CreateToolhelp32Snapshot (sv_api E) dwFlags (u32_of (get_bytes 4 4 b)) a of
           None \<Rightarrow> None
         | Some (h, a') \<Rightarrow>
             if dwFlags AND TH32CS_SNAPTHREAD = TH32CS_SNAPTHREAD then send_threads h a' c1
             else if dwFlags AND TH32CS_SNAPMODULE = TH32CS_SNAPMODULE then send_modules E h a' c1
             else Some (a', sends (u32_bytes (raw h)) c1)
      else Some (a, close_conn c1)) = Some (a', c')"
  show ?thesis
  proof (cases "0 < r")
    case False
    with e c1 show ?thesis by auto
  next
    case True
    with e obtain h a1 where s: "CreateToolhelp32Snapshot (sv_api E) (u32_of (get_bytes 0 4 b)) (u32_of (get_bytes 4 4 b)) a = Some (h, a1)"
      by (auto simp: Let_def split: option.splits)
    then have "api_step (sv_api E) a a1" by (rule api_step.snapshot)
    moreover have "handled E a1 c1 a' c'"
      using e True s by (auto simp: Let_def split: if_splits dest: send_threads_ok [where E = E] send_modules_ok)
    ultimately show ?thesis using c1 by (auto intro: conn_le_trans converse_rtranclp_into_rtranclp)
  qed
qed

lemma dispatch_ok:
  assumes "DispatchCommand E cmd a c = Some (a', c')"
  shows "handled E a c a' c'"
  using assms by (auto simp: DispatchCommand_def plain_ok split: if_splits dest: handler_ok)

section \<open>A quiet connection\<close>

text \<open>An open connection on which nothing worse happens than delays: a handler gets the parameters
  it asks for and its reply arrives whole.\<close>

definition quiet :: "conn \<Rightarrow> bool" where
  "quiet c \<longleftrightarrow> cn_closes c = 0 \<and> \<not> cn_exit c \<and> recv_smooth (cn_in c) \<and> send_smooth (cn_send c)"

lemma quiet_recv:
  assumes "quiet c" "stream (cn_in c) = bs @ rest" "int (length bs) = sint sz" "bs \<noteq> []"
  obtains c1 where "recvall sz c = (sint sz, bs, c1)" "quiet c1" "stream (cn_in c1) = rest" "cn_out c1 = cn_out c"
proof -
  obtain r b c1 where rc: "recvall sz c = (r, b, c1)" by (metis prod_cases3)
  note ok = recvall_ok [OF rc]
  have n: "nat (sint sz) = length bs" using assms(3) by simp
  have pos: "0 < sint sz" using assms(3,4) by (cases bs) auto
  have r: "r = sint sz" using ok(5) assms(1,2) n pos by (simp add: quiet_def)
  have "length b = length bs" using ok(3) r pos n by simp
  with ok(1) assms(2) have "b = bs" "stream (cn_in c1) = rest" by auto
  with rc r ok(6-10) assms(1) that show ?thesis by (simp add: quiet_def)
qed

lemma quiet_sends [simp]:
  assumes "quiet c"
  shows "quiet (sends bs c)" "cn_out (sends bs c) = cn_out c @ bs" "cn_in (sends bs c) = cn_in c"
proof -
  obtain c' where "sendall bs c = (int (length bs), c')" "cn_out c' = cn_out c @ bs" "cn_in c' = cn_in c"
    "cn_closes c' = 0" "cn_exit c' = cn_exit c" "send_smooth (cn_send c')"
    by (rule sendall_smooth [of c bs]) (use assms in \<open>auto simp: quiet_def\<close>)
  with assms show "quiet (sends bs c)" "cn_out (sends bs c) = cn_out c @ bs" "cn_in (sends bs c) = cn_in c"
    by (simp_all add: sends_def quiet_def)
qed

lemma quiet_send_each [simp]:
  assumes "quiet c"
  shows "quiet (send_each bss c)" "cn_out (send_each bss c) = cn_out c @ concat bss"
    "cn_in (send_each bss c) = cn_in c"
proof -
  have "quiet (send_each bss c) \<and> cn_out (send_each bss c) = cn_out c @ concat bss \<and>
      cn_in (send_each bss c) = cn_in c"
    using assms by (induction bss arbitrary: c) simp_all
  then show "quiet (send_each bss c)" "cn_out (send_each bss c) = cn_out c @ concat bss"
    "cn_in (send_each bss c) = cn_in c" by simp_all
qed

lemma quiet_open: "quiet c \<Longrightarrow> \<not> cn_exit c"
  by (simp add: quiet_def)

text \<open>The round of a command whose parameters are in the stream.\<close>

lemma round_command:
  assumes "quiet c" "stream (cn_in c) = cmd # params @ rest" "int (length params) = sint sz" "params \<noteq> []"
    and "\<And>c1 c2. recvall sz c1 = (sint sz, params, c2) \<Longrightarrow> quiet c2 \<Longrightarrow> stream (cn_in c2) = rest \<Longrightarrow>
      cn_out c2 = cn_out c \<Longrightarrow> \<exists>a' c'. DispatchCommand E cmd a c1 = Some (a', c') \<and> quiet c' \<and> P a' c'"
  shows "\<exists>a' c'. thread_round E a c = Some (True, a', c') \<and> quiet c' \<and> P a' c'"
proof -
  obtain c1 where c1: "recvall 1 c = (1, [cmd], c1)" "quiet c1" "stream (cn_in c1) = params @ rest"
    "cn_out c1 = cn_out c"
    using quiet_recv [OF assms(1), of "[cmd]" "params @ rest" 1] assms(2) by auto
  obtain c2 where "recvall sz c1 = (sint sz, params, c2)" "quiet c2" "stream (cn_in c2) = rest" "cn_out c2 = cn_out c1"
    using quiet_recv [OF c1(2,3) assms(3,4)] by auto
  with assms(5) [of c1 c2] c1(4) obtain a' c' where d: "DispatchCommand E cmd a c1 = Some (a', c')" "quiet c'" "P a' c'"
    by auto
  then have "thread_round E a c = Some (True, a', c')"
    by (simp add: thread_round_def c1(1) quiet_open)
  with d show ?thesis by blast
qed

section \<open>The thread of a connection\<close>

lemma thread_round_ok:
  assumes "thread_round E a c = Some (go, a', c')"
  shows "handled E a c a' c'" "go \<Longrightarrow> length (stream (cn_in c')) < length (stream (cn_in c))"
    "\<not> go \<Longrightarrow> cn_exit c' \<or> 0 < cn_closes c'" "go \<Longrightarrow> \<not> cn_exit c'"
proof -
  obtain r b c1 where rc: "recvall 1 c = (r, b, c1)" by (metis prod_cases3)
  note le = recvall_le [OF rc]
  note ok = recvall_ok [OF rc]
  have "handled E a c a' c' \<and> (go \<longrightarrow> length (stream (cn_in c')) < length (stream (cn_in c)) \<and> \<not> cn_exit c') \<and>
    (\<not> go \<longrightarrow> cn_exit c' \<or> 0 < cn_closes c')"
  proof (cases "0 < r")
    case True
    with assms rc have d: "DispatchCommand E (b ! 0) a c1 = Some (a', c')" and go: "go \<longleftrightarrow> \<not> cn_exit c'"
      by (auto simp: thread_round_def split: option.splits)
    from dispatch_ok [OF d] have h: "handled E a c1 a' c'" .
    have "length (stream (cn_in c)) = 1 + length (stream (cn_in c1))"
      using ok(1) ok(3) [OF True] by simp
    moreover have "length (stream (cn_in c')) \<le> length (stream (cn_in c1))"
      using h by (auto simp: conn_le_def dest: suffix_length_le)
    ultimately show ?thesis using h go le by (auto intro: conn_le_trans)
  next
    case False
    with assms rc le show ?thesis by (auto simp: thread_round_def close_conn_def conn_le_def)
  qed
  then show "handled E a c a' c'" "go \<Longrightarrow> length (stream (cn_in c')) < length (stream (cn_in c))"
    "\<not> go \<Longrightarrow> cn_exit c' \<or> 0 < cn_closes c'" "go \<Longrightarrow> \<not> cn_exit c'" by simp_all
qed


text \<open>The command that closes the connection does not end the thread: it closes the descriptor,
  goes round once more, and closes a descriptor it no longer owns.\<close>

theorem close_command_closes_twice:
  assumes "cn_closes c = 0" "\<not> cn_exit c" "recvall 1 c = (1, [CMD_CLOSECONNECTION], c1)"
  shows "newConnectionThread E a c = Some (Some (a, c1\<lparr>cn_closes := 2\<rparr>))"
proof -
  note ok = recvall_ok [OF assms(3)]
  have 1: "thread_round E a c = Some (True, a, c1\<lparr>cn_closes := 1\<rparr>)"
    using assms ok(8,9) by (simp add: thread_round_def DispatchCommand_def close_conn_def cmd_defs)
  have 2: "thread_round E a (c1\<lparr>cn_closes := 1\<rparr>) = Some (False, a, c1\<lparr>cn_closes := 2\<rparr>)"
    by (simp add: thread_round_def recvall_def recv_loop.simps sock_recv_def EBADF_def EINTR_def close_conn_def)
  have "newConnectionThread E a c = newConnectionThread E a (c1\<lparr>cn_closes := 1\<rparr>)"
    by (simp add: newConnectionThread.simps [of E a c] 1)
  also have "\<dots> = Some (Some (a, c1\<lparr>cn_closes := 2\<rparr>))"
    unfolding newConnectionThread.simps [of E a "c1\<lparr>cn_closes := 1\<rparr>"] 2 by simp
  finally show ?thesis .
qed

definition close_script :: conn where
  "close_script = \<lparr>cn_in = [RecvError EINTR, Data [CMD_CLOSECONNECTION, CMD_GETVERSION]], cn_send = [], cn_out = [],
     cn_closes = 0, cn_exit = False\<rparr>"

section \<open>The state of the server\<close>

lemma server_step_api:
  assumes "server_step E sv sv'"
  shows "(api_step (sv_api E))\<^sup>*\<^sup>* (sr_api sv) (sr_api sv')"
  using assms by cases (auto dest: thread_round_ok(1))

lemma server_run_api:
  "(server_step E)\<^sup>*\<^sup>* sv sv' \<Longrightarrow> (api_step (sv_api E))\<^sup>*\<^sup>* (sr_api sv) (sr_api sv')"
  by (induction rule: rtranclp_induct) (auto intro: rtranclp_trans server_step_api)


text \<open>The sample server: a client opens process 7.\<close>

definition demo_srv :: "(bpw, byte list) srvenv" where
  "demo_srv = \<lparr>sv_api = demo_api, sv_zlib = store_zlib, sv_arch = 3, sv_android = 1, sv_ptr32 = False,
     sv_rinfo = demo_info, sv_junk = (\<lambda>n. replicate n 0)\<rparr>"

definition open_script :: conn where
  "open_script = \<lparr>cn_in = [Data (CMD_OPENPROCESS # u32_bytes 7)], cn_send = [], cn_out = [],
     cn_closes = 0, cn_exit = False\<rparr>"

theorem close_command_closes_twice_witness:
  "\<exists>c'. newConnectionThread demo_srv demo_open close_script = Some (Some (demo_open, c')) \<and> cn_closes c' = 2"
proof -
  have "recvall 1 close_script = (1, [CMD_CLOSECONNECTION], close_script\<lparr>cn_in := [Data [CMD_GETVERSION]]\<rparr>)"
    by (simp add: recvall_def recv_loop.simps sock_recv_def close_script_def EINTR_def)
  from close_command_closes_twice [OF _ _ this, of demo_srv demo_open] show ?thesis by (simp add: close_script_def)
qed

lemma demo_start: "start_server demo_srv None demo_reader demo_bp0 =
    Some \<lparr>sr_api = api_start demo_reader demo_bp0, sr_conns = []\<rparr>"
  by (simp add: start_server_def demo_srv_def InitReadWriteDriver_def ConnectDriver_def api_start_def
      demo_reader_def)

lemma open_script_served:
  "\<exists>c'. thread_round demo_srv (api_start demo_reader demo_bp0) open_script = Some (True, demo_open, c')"
proof -
  have q: "quiet open_script" "stream (cn_in open_script) = CMD_OPENPROCESS # u32_bytes 7 @ []"
    by (simp_all add: open_script_def quiet_def)
  have l: "int (length (u32_bytes 7)) = sint (4 :: u64)" "u32_bytes 7 \<noteq> []"
    using length_u32_bytes [of 7] by (auto simp del: length_u32_bytes)
  have "\<exists>a' c'. thread_round demo_srv (api_start demo_reader demo_bp0) open_script = Some (True, a', c') \<and>
      quiet c' \<and> a' = demo_open"
    by (rule round_command [OF q l])
      (auto simp: DispatchCommand_def cmd_defs not_supported_def cmd_openprocess_def demo_srv_def demo_open_step)
  then show ?thesis by blast
qed


end
