(* ===== verification/Server_Replies.thy ===== *)
theory Server_Replies
  imports Server_Conns
begin

text \<open>
  What the client of CEServer/main.cpp gets: for a memory read the bytes of the target, plain or
  compressed, for a memory write that its bytes arrive, and for a module list the records of the
  modules, through a buffer that is flushed when it is full. The command handler, the handle table, the client of the driver and
  the driver's model are composed here.
\<close>

section \<open>A memory read\<close>

lemma get_bytes_parts:
  "length xs = off \<Longrightarrow> length ys = n \<Longrightarrow> get_bytes off n (xs @ ys @ zs) = ys"
  by (simp add: get_bytes_def)

definition read_input :: "u32 \<Rightarrow> u64 \<Rightarrow> u32 \<Rightarrow> byte \<Rightarrow> byte list" where
  "read_input handle address sz compress = u32_bytes handle @ u64_bytes address @ u32_bytes sz @ [compress]"

lemma read_input_fields:
  "u32_of (get_bytes 0 4 (read_input h va n z)) = h" "u64_of (get_bytes 4 8 (read_input h va n z)) = va"
  "u32_of (get_bytes 12 4 (read_input h va n z)) = n" "read_input h va n z ! 16 = z"
  "length (read_input h va n z) = 17"
  using get_bytes_parts [of "[]" 0 "u32_bytes h" 4 "u64_bytes va @ u32_bytes n @ [z]"]
    get_bytes_parts [of "u32_bytes h" 4 "u64_bytes va" 8 "u32_bytes n @ [z]"]
    get_bytes_parts [of "u32_bytes h @ u64_bytes va" 12 "u32_bytes n" 4 "[z]"]
  by (simp_all add: read_input_def nth_append)

lemma readmemory_reply:
  assumes "recvall 17 c1 = (sint (17 :: u64), read_input hn va n level, c2)" "quiet c2"
    and "Api_ReadProcessMemory (sv_api E) (HANDLE hn) va (replicate (unat n) 0) n a = Some (n, bs, a')"
    and "length bs = unat n"
    and "zlib_ok (sv_zlib E) inflate opn taken given bound level"
  shows "\<exists>c'. cmd_readmemory E a c1 = Some (a', c') \<and> quiet c' \<and> cn_in c' = cn_in c2 \<and>
    (if level = 0 then cn_out c' = cn_out c2 @ u32_bytes n @ bs
     else \<exists>z. cn_out c' = cn_out c2 @ u32_bytes n @ u32_bytes (word_of_nat (length z)) @ z \<and> inflate z = Some bs)"
proof (cases "level = 0")
  case True
  then show ?thesis
    using assms(1-4) by (simp add: cmd_readmemory_def read_input_fields)
next
  case False
  obtain st where st: "compress_data (sv_zlib E) level n bs = Some st"
    "inflate (concat (compressedBlocks st) @ current_out st) = Some bs"
    "total_out st = length (concat (compressedBlocks st) @ current_out st)"
    using compress_data_ok [OF assms(5)] by blast
  then show ?thesis
    using False assms(1-4)
    by (auto simp: cmd_readmemory_def read_input_fields compressed_reply_def
        intro!: exI [of _ "concat (compressedBlocks st) @ current_out st"])
qed


lemma demo_open_handle:
  "GetHandleType (HANDLE 10000) (ap_handles demo_open) = htProcesHandle"
  "ap_heap demo_open (GetPointerFromHandle (HANDLE 10000) (ap_handles demo_open)) = Some (OpenProcessObj demo_process)"
  "ae_drv (sv_api demo_srv) = kernel_drv 0x1000 (demo_ioenv (Inr 0))"
  "m_Driver demo_open = demo_reader" "ap_os demo_open = demo_bp0"
  by (simp_all add: demo_open_def demo_opened_def GetHandleType_def GetPointerFromHandle_def api_start_def
      demo_srv_def demo_api_sel)

definition read_script :: conn where
  "read_script = \<lparr>cn_in = [Data [CMD_READPROCESSMEMORY], RecvError EINTR, Data (read_input 10000 0x10ffe 4 6)],
     cn_send = [Accept 1, SendError EINTR, Accept 2], cn_out = [], cn_closes = 0, cn_exit = False\<rparr>"


section \<open>A memory write\<close>

definition write_input :: "u32 \<Rightarrow> u64 \<Rightarrow> u32 \<Rightarrow> byte list" where
  "write_input handle address sz = u32_bytes handle @ u64_bytes address @ u32_bytes sz"

lemma write_input_fields:
  "u32_of (get_bytes 0 4 (write_input h va n)) = h" "u64_of (get_bytes 4 8 (write_input h va n)) = va"
  "u32_of (get_bytes 12 4 (write_input h va n)) = n" "length (write_input h va n) = 16"
  using get_bytes_parts [of "[]" 0 "u32_bytes h" 4 "u64_bytes va @ u32_bytes n"]
    get_bytes_parts [of "u32_bytes h" 4 "u64_bytes va" 8 "u32_bytes n"]
    get_bytes_parts [of "u32_bytes h @ u64_bytes va" 12 "u32_bytes n" 4 "[]"]
  by (simp_all add: write_input_def)

lemma api_writes_ok:
  assumes "GetHandleType h (ap_handles a) = htProcesHandle"
    and "ap_heap a (GetPointerFromHandle h (ap_handles a)) = Some (OpenProcessObj op)"
    and "ae_drv E = kernel_drv u K" "0 \<le> m_nDriverLink (m_Driver a)" "u64DriverProcessHandle op \<noteq> 0"
    and "va \<noteq> 0" "0 < unat (n :: u32)" "unat n + 17 < 2 ^ 31" "length data = unat n"
    and "kernel_writable K (ap_os a) (u64DriverProcessHandle op) va (unat n) False"
  shows "\<exists>w. Api_WriteProcessMemory E h va data n a = Some (n, a\<lparr>ap_os := w\<rparr>) \<and>
    kernel_stored K (ap_os a) (u64DriverProcessHandle op) va data w"
proof -
  have small: "unat n < 2 ^ 31" using assms(8) by simp
  have un: "unat (scast n :: u64) = unat n"
    unfolding scast_small [OF small] by (rule unat_u64_of_nat) (use small in simp)
  have pos: "0 < (scast n :: u64)" using assms(7) un by (simp add: word_less_nat_alt)
  have "\<exists>w. WriteProcessMemory (kernel_drv u K) (m_Driver a) (u64DriverProcessHandle op) va data (scast n) 0 (ap_os a) =
      Some (True, Some (int (unat (scast n :: u64))), w) \<and> kernel_stored K (ap_os a) (u64DriverProcessHandle op) va data w"
    using kw.WriteProcessMemory_stores [OF refl assms(4,5,6) pos] assms(8-10) un by simp
  then show ?thesis using assms(1-3) un by (auto simp: Api_WriteProcessMemory_def)
qed

lemma sint_u64_of_nat: "k < 2 ^ 63 \<Longrightarrow> sint (word_of_nat k :: u64) = int k"
  by (simp add: signed_of_nat) (subst signed_take_bit_int_eq_self, simp_all)

text \<open>C8. The write command, end to end: the bytes a client sends after the header reach the target's
  memory at the address, the reply is their number, and the command with its data is consumed
  exactly.\<close>

theorem write_request_stores:
  assumes "quiet c" "stream (cn_in c) = CMD_WRITEPROCESSMEMORY # write_input hn va n @ data @ rest"
    and "GetHandleType (HANDLE hn) (ap_handles a) = htProcesHandle"
    and "ap_heap a (GetPointerFromHandle (HANDLE hn) (ap_handles a)) = Some (OpenProcessObj op)"
    and "ae_drv (sv_api E) = kernel_drv u K" "0 \<le> m_nDriverLink (m_Driver a)" "u64DriverProcessHandle op \<noteq> 0"
    and "va \<noteq> 0" "0 < unat n" "unat n + 17 < 2 ^ 31" "length data = unat n"
    and "kernel_writable K (ap_os a) (u64DriverProcessHandle op) va (unat n) False"
  shows "\<exists>w c'. thread_round E a c = Some (True, a\<lparr>ap_os := w\<rparr>, c') \<and> quiet c' \<and> stream (cn_in c') = rest \<and>
    cn_out c' = cn_out c @ u32_bytes n \<and> kernel_stored K (ap_os a) (u64DriverProcessHandle op) va data w"
proof -
  obtain w where w: "Api_WriteProcessMemory (sv_api E) (HANDLE hn) va data n a = Some (n, a\<lparr>ap_os := w\<rparr>)"
    "kernel_stored K (ap_os a) (u64DriverProcessHandle op) va data w"
    using api_writes_ok [OF assms(3-12)] by blast
  have sn: "sint (scast n :: u64) = int (length data)"
    using scast_small [of n] assms(10,11) sint_u64_of_nat [of "unat n"] by simp
  have data: "data \<noteq> []" "n \<noteq> 0" using assms(9,11) by auto
  then have pos: "0 < int (length data)" by simp
  have "\<exists>a' c'. thread_round E a c = Some (True, a', c') \<and> quiet c' \<and> (a' = a\<lparr>ap_os := w\<rparr> \<and>
      stream (cn_in c') = rest \<and> cn_out c' = cn_out c @ u32_bytes n)"
  proof (rule round_command [OF assms(1,2)])
    show "int (length (write_input hn va n)) = sint (16 :: u64)" by (simp add: write_input_fields)
    show "write_input hn va n \<noteq> []" using write_input_fields(4) [of hn va n] by auto
    fix c1 c2
    assume c2: "recvall 16 c1 = (sint (16 :: u64), write_input hn va n, c2)" "quiet c2"
      "stream (cn_in c2) = data @ rest" "cn_out c2 = cn_out c"
    obtain c3 where c3: "recvall (scast n) c2 = (sint (scast n :: u64), data, c3)" "quiet c3"
      "stream (cn_in c3) = rest" "cn_out c3 = cn_out c2"
      by (rule quiet_recv [OF c2(2,3) sn [symmetric] data(1)])
    show "\<exists>a' c'. DispatchCommand E CMD_WRITEPROCESSMEMORY a c1 = Some (a', c') \<and> quiet c' \<and>
      (a' = a\<lparr>ap_os := w\<rparr> \<and> stream (cn_in c') = rest \<and> cn_out c' = cn_out c @ u32_bytes n)"
      using c2 c3 w(1) data(2) sn pos
      by (simp add: DispatchCommand_def cmd_defs not_supported_def cmd_writememory_def write_input_fields)
  qed
  then show ?thesis using w(2) by blast
qed

definition write_script :: conn where
  "write_script = \<lparr>cn_in = [Data (CMD_WRITEPROCESSMEMORY # write_input 10000 0x10ffe 4), Data [1, 2], Data [3, 4]],
     cn_send = [], cn_out = [], cn_closes = 0, cn_exit = False\<rparr>"

theorem write_request_stores_witness:
  "\<exists>w c'. thread_round demo_srv demo_open write_script = Some (True, demo_open\<lparr>ap_os := w\<rparr>, c') \<and>
    kernel_stored (demo_ioenv (Inr 0)) demo_bp0 7 0x10ffe [1, 2, 3, 4] w"
proof -
  have q: "quiet write_script"
    "stream (cn_in write_script) = CMD_WRITEPROCESSMEMORY # write_input 10000 0x10ffe 4 @ [1, 2, 3, 4] @ []"
    by (simp_all add: write_script_def quiet_def)
  note d = demo_open_handle
  have k: "kernel_writable (demo_ioenv (Inr 0)) (ap_os demo_open) (u64DriverProcessHandle demo_process) 0x10ffe
      (unat (4 :: u32)) False"
    using demo_writable by (simp add: d demo_process_def)
  from write_request_stores [OF q d(1-3) _ _ _ _ _ _ k]
  show ?thesis by (auto simp: d demo_reader_def demo_process_def)
qed

section \<open>A module list\<close>

text \<open>The loop over the snapshot. What is in the buffer together with what has been sent grows by
  one record a round; only the cursor of the snapshot changes.\<close>

lemma module_next_cursor:
  assumes "holds_modules h v i a" "i < length v"
  shows "Module32Next h a = Some (if i + 1 < length v then Some (v ! (i + 1)) else None,
      put_obj (GetPointerFromHandle h (ap_handles a)) (CeModuleList v (i + 1)) a)"
  using assms by (auto simp: holds_modules_def Module32Next_def Let_def)

lemma holds_put_cursor:
  "holds_modules h v i a \<Longrightarrow> holds_modules h v j (put_obj (GetPointerFromHandle h (ap_handles a)) (CeModuleList v j) a)"
  by (simp add: holds_modules_def)

lemma put_obj_twice [simp]: "put_obj p x (put_obj p y a) = put_obj p x a"
  by (simp add: put_obj_def)

lemma length_module_record: "length (module_record m) = 28 + length (moduleName m)"
  by (simp add: module_record_def CeModuleEntry_def)

lemma module_stream_ok:
  assumes "holds_modules h v i a" "i < length v" "quiet c" "\<forall>m \<in> set v. length (moduleName m) \<le> 65508"
  shows "\<exists>out' c'. module_stream h (v ! i) out a c =
      Some (out', put_obj (GetPointerFromHandle h (ap_handles a)) (CeModuleList v (length v)) a, c') \<and>
    quiet c' \<and> cn_in c' = cn_in c \<and> out' \<noteq> [] \<and>
    cn_out c' @ out' = cn_out c @ out @ concat (map module_record (drop i v))"
  using assms(1-3)
proof (induction "length v - i" arbitrary: i a c out)
  case 0
  then show ?case by simp
next
  case (Suc n)
  let ?p = "GetPointerFromHandle h (ap_handles a)"
  obtain out1 c1 where f: "(if length out + 28 + length (moduleName (v ! i)) > 65536
      then ([], sends out c) else (out, c)) = (out1, c1)" by fastforce
  then have c1: "quiet c1" "cn_in c1 = cn_in c" "cn_out c1 @ out1 = cn_out c @ out"
    using Suc.prems(3) by (auto split: if_splits)
  have fits: "\<not> length out1 + 28 + length (moduleName (v ! i)) > 65536"
    using f assms(4) nth_mem [OF Suc.prems(2)] by (fastforce split: if_splits)
  have d: "drop i v = v ! i # drop (i + 1) v" using Suc.prems(2) by (simp add: Cons_nth_drop_Suc)
  have ne: "module_record (v ! i) \<noteq> []" using length_module_record [of "v ! i"] by auto
  note nx = module_next_cursor [OF Suc.prems(1,2)]
  show ?case
  proof (cases "i + 1 < length v")
    case False
    then have "i + 1 = length v" using Suc.prems(2) by simp
    with c1 fits nx ne d Suc.prems(3) show ?thesis unfolding module_stream.simps [of h "v ! i" out a c] f prod.case by simp
  next
    case True
    let ?a = "put_obj ?p (CeModuleList v (i + 1)) a"
    have eq: "module_stream h (v ! i) out a c = module_stream h (v ! (i + 1)) (out1 @ module_record (v ! i)) ?a c1"
      using True fits nx unfolding module_stream.simps [of h "v ! i" out a c] f prod.case by simp
    have "n = length v - (i + 1)" using Suc.hyps(2) by simp
    from Suc.hyps(1) [OF this holds_put_cursor [OF Suc.prems(1)] True c1(1), of "out1 @ module_record (v ! i)"] c1
    show ?thesis unfolding eq by (auto simp: d)
  qed
qed

lemma and_exp_bit: "x AND 2 ^ m = (if bit x m then 2 ^ m else 0)" for x :: "'a :: len word"
  by (auto intro!: bit_eqI simp: bit_and_iff bit_exp_iff)

lemma snapmodule_bit: "fl AND TH32CS_SNAPMODULE \<noteq> 0 \<Longrightarrow> fl AND TH32CS_SNAPMODULE = TH32CS_SNAPMODULE"
  using and_exp_bit [of fl 3] by (simp add: TH32CS_SNAPMODULE_def split: if_splits)

definition eol_record :: "('s, 'z) srvenv \<Rightarrow> byte list" where
  "eol_record E = u32_bytes 0 @ sv_junk E 20 @ u32_bytes 0"

lemma send_modules_all:
  assumes "holds_modules h v i a" "raw h \<noteq> 0" "quiet c" "\<forall>m \<in> set v. length (moduleName m) \<le> 65508"
  shows "\<exists>j c'. send_modules E h a c =
      map_option (\<lambda>a2. (a2, c'))
        (Api_CloseHandle h (put_obj (GetPointerFromHandle h (ap_handles a)) (CeModuleList v j) a)) \<and>
    quiet c' \<and> cn_in c' = cn_in c \<and> cn_out c' = cn_out c @ concat (map module_record v) @ eol_record E"
proof -
  let ?p = "GetPointerFromHandle h (ap_handles a)"
  let ?a = "put_obj ?p (CeModuleList v 0) a"
  have f: "Module32First h a = Some (if v = [] then None else Some (v ! 0), ?a)"
    using assms(1) by (auto simp: holds_modules_def Module32First_def Let_def)
  show ?thesis
  proof (cases "v = []")
    case True
    with f assms(2,3) show ?thesis
      by (intro exI [of _ 0] exI [of _ "sends (eol_record E) c"])
        (simp add: send_modules_def eol_record_def Let_def)
  next
    case False
    then have "0 < length v" by simp
    from module_stream_ok [OF holds_put_cursor [OF assms(1)] this assms(3,4), of "[]"]
    obtain out c' where m: "module_stream h (v ! 0) [] ?a c = Some (out, put_obj ?p (CeModuleList v (length v)) a, c')"
      "quiet c'" "cn_in c' = cn_in c" "out \<noteq> []" "cn_out c' @ out = cn_out c @ concat (map module_record v)"
      by auto
    from m(5) have "cn_out c' @ out @ e = cn_out c @ concat (map module_record v) @ e" for e by (metis append_assoc)
    with m(1-4) False f assms(2) show ?thesis
      by (intro exI [of _ "length v"] exI [of _ "sends (eol_record E) (sends out c')"])
        (simp add: send_modules_def eol_record_def Let_def)
  qed
qed

lemma snapshot_then_close:
  assumes "api_owns a" "new_fresh E" "new_handle E ob (a\<lparr>ap_os := s\<rparr>) = Some (h, a1)" "kind_of ob' = kind_of ob"
  shows "\<exists>t. Api_CloseHandle h (put_obj (GetPointerFromHandle h (ap_handles a1)) ob' a1) =
      Some (a\<lparr>ap_os := s, ap_handles := t\<rparr>) \<and> (\<forall>k. find_handle k t = find_handle k (ap_handles a))"
proof -
  obtain p t where n: "ae_new E (ap_heap a) = Some p"
    "CreateHandleFromPointer (ae_rd E) p (kind_of ob) (ap_handles a) = Some (h, t)"
    "a1 = put_obj p ob (a\<lparr>ap_os := s, ap_handles := t\<rparr>)"
    by (rule new_handle_unfold [OF assms(3)]) simp
  have w: "handles_wf (ap_handles a)" using assms(1) by (simp add: api_owns_def)
  note find = ht.create_find [OF w n(2)] and wf = ht.create_wf [OF w n(2)]
  have fresh: "ap_heap a p = None" using assms(2) n(1) by (auto simp: new_fresh_def)
  have own: "api_owns a1" by (rule new_handle_owns [OF assms(2) _ assms(3)]) (simp add: assms(1))
  have p: "GetPointerFromHandle h (ap_handles a1) = p" "ap_heap a1 p = Some ob"
    by (simp_all add: n(3) handle_sel find)
  have own': "api_owns (put_obj p ob' a1)" by (rule put_obj_owns [OF own p(2) assms(4)])
  have "Api_CloseHandle h (put_obj p ob' a1) =
      Some (a\<lparr>ap_os := s, ap_handles := RemoveHandle h t\<rparr>)"
    unfolding close_handle_cases [OF own']
    using fresh by (simp add: n(3) find) (simp add: put_obj_def fun_upd_idem)
  moreover have "find_handle k (RemoveHandle h t) = find_handle k (ap_handles a)" for k
    using ht.remove_find [OF wf] find ht.create_fresh [OF w n(2)] by simp
  ultimately show ?thesis by (auto simp: p(1))
qed

text \<open>C17. The module list of the extended snapshot command, end to end: a client on a quiet
  connection gets, through however many flushes of the 64 KiB buffer, one record per module of the
  snapshot in the order its iterators give them, then the end record; and the snapshot is gone
  afterwards: the objects and the meaning of every handle are as before the command.\<close>

theorem module_list_reply:
  assumes "quiet c" "stream (cn_in c) = CMD_CREATETOOLHELP32SNAPSHOTEX # (u32_bytes fl @ u32_bytes pid) @ rest"
    and "fl AND TH32CS_SNAPPROCESS = 0" "fl AND TH32CS_SNAPTHREAD = 0" "fl AND TH32CS_SNAPMODULE \<noteq> 0"
    and "api_owns a" "new_fresh (sv_api E)"
    and "CreateToolhelp32Snapshot (sv_api E) fl pid a = Some (h, a1)" "raw h \<noteq> 0"
    and "walk (Module32First h) (Module32Next h) a1 = Some (v, a2)"
    and "\<forall>m \<in> set v. length (moduleName m) \<le> 65508"
  shows "\<exists>a' c'. thread_round E a c = Some (True, a', c') \<and> quiet c' \<and> stream (cn_in c') = rest \<and>
    cn_out c' = cn_out c @ concat (map module_record v) @ eol_record E \<and> ap_heap a' = ap_heap a \<and>
    (\<forall>k. find_handle k (ap_handles a') = find_handle k (ap_handles a))"
proof -
  obtain v' s' where n: "new_handle (sv_api E) (CeModuleList v' 0) (a\<lparr>ap_os := s'\<rparr>) = Some (h, a1)"
    "holds_modules h v' 0 a1"
    by (rule module_snapshot_holds [OF assms(6,3,5,8,9)])
  have v: "v' = v" using mc.walk_all [OF n(2)] assms(10) by auto
  have one: "fl AND TH32CS_SNAPMODULE = TH32CS_SNAPMODULE"
    using assms(5) by (rule snapmodule_bit)
  have zero: "fl AND TH32CS_SNAPTHREAD \<noteq> TH32CS_SNAPTHREAD"
    using assms(4) by (simp add: TH32CS_SNAPTHREAD_def)
  let ?params = "u32_bytes fl @ u32_bytes pid"
  let ?P = "\<lambda>a' c'. stream (cn_in c') = rest \<and> cn_out c' = cn_out c @ concat (map module_record v) @ eol_record E \<and>
    ap_heap a' = ap_heap a \<and> (\<forall>k. find_handle k (ap_handles a') = find_handle k (ap_handles a))"
  have fields: "u32_of (get_bytes 0 4 ?params) = fl" "u32_of (get_bytes 4 4 ?params) = pid"
    using get_bytes_parts [of "[]" 0 "u32_bytes fl" 4 "u32_bytes pid"]
      get_bytes_parts [of "u32_bytes fl" 4 "u32_bytes pid" 4 "[]"] by simp_all
  have "\<exists>a' c'. thread_round E a c = Some (True, a', c') \<and> quiet c' \<and> ?P a' c'"
  proof (rule round_command [OF assms(1,2)])
    have l: "length ?params = 8" by simp
    then show "int (length ?params) = sint (8 :: u64)" by simp
    from l show "?params \<noteq> []" by (metis list.size(3) zero_neq_numeral)
    fix c1 c2
    assume c: "recvall 8 c1 = (sint (8 :: u64), ?params, c2)" "quiet c2" "stream (cn_in c2) = rest"
      "cn_out c2 = cn_out c"
    obtain j c' where sm: "send_modules E h a1 c2 = map_option (\<lambda>a2. (a2, c'))
        (Api_CloseHandle h (put_obj (GetPointerFromHandle h (ap_handles a1)) (CeModuleList v j) a1))"
      "quiet c'" "cn_in c' = cn_in c2" "cn_out c' = cn_out c2 @ concat (map module_record v) @ eol_record E"
      using send_modules_all [OF n(2) assms(9) c(2), of E] assms(11) unfolding v by blast
    obtain t where t: "Api_CloseHandle h (put_obj (GetPointerFromHandle h (ap_handles a1)) (CeModuleList v j) a1) =
        Some (a\<lparr>ap_os := s', ap_handles := t\<rparr>)" "\<forall>k. find_handle k t = find_handle k (ap_handles a)"
      using snapshot_then_close [OF assms(6,7) n(1), of "CeModuleList v j"] by auto
    have "cmd_snapshotex E a c1 = send_modules E h a1 c2"
      using c(1) by (simp add: cmd_snapshotex_def fields assms(8) one zero)
    then have "DispatchCommand E CMD_CREATETOOLHELP32SNAPSHOTEX a c1 = Some (a\<lparr>ap_os := s', ap_handles := t\<rparr>, c')"
      by (simp add: DispatchCommand_def cmd_defs not_supported_def sm(1) t(1))
    with sm(2-4) c(3,4) t(2)
    show "\<exists>a' c'. DispatchCommand E CMD_CREATETOOLHELP32SNAPSHOTEX a c1 = Some (a', c') \<and> quiet c' \<and> ?P a' c'"
      by auto
  qed
  then show ?thesis .
qed

definition list_srv :: "(unit, byte list) srvenv" where
  "list_srv = \<lparr>sv_api = list_api, sv_zlib = store_zlib, sv_arch = 3, sv_android = 1, sv_ptr32 = False,
     sv_rinfo = demo_info, sv_junk = (\<lambda>n. replicate n 0xaa)\<rparr>"

definition list_script :: conn where
  "list_script = \<lparr>cn_in = [Data (CMD_CREATETOOLHELP32SNAPSHOTEX # u32_bytes 8), Data (u32_bytes 7)],
     cn_send = [Accept 5], cn_out = [], cn_closes = 0, cn_exit = False\<rparr>"

theorem module_list_reply_witness:
  "\<exists>a' c'. thread_round list_srv (demo_opened ()) list_script = Some (True, a', c') \<and>
    cn_out c' = module_record lib_module @ eol_record list_srv \<and> ap_heap a' = ap_heap (demo_opened ())"
proof -
  have q: "quiet list_script" "stream (cn_in list_script) =
      CMD_CREATETOOLHELP32SNAPSHOTEX # (u32_bytes 8 @ u32_bytes 7) @ []"
    using length_u32_bytes [of 8] length_u32_bytes [of 7]
    by (auto simp: list_script_def quiet_def simp del: length_u32_bytes)
  have fl: "(8 :: u32) AND TH32CS_SNAPPROCESS = 0" "(8 :: u32) AND TH32CS_SNAPTHREAD = 0"
    "(8 :: u32) AND TH32CS_SNAPMODULE \<noteq> 0"
    by (simp_all add: TH32CS_SNAPPROCESS_def TH32CS_SNAPTHREAD_def TH32CS_SNAPMODULE_def)
  have e: "sv_api list_srv = list_api" by (simp add: list_srv_def)
  have "new_fresh list_api" using demo_new_fresh by (simp add: new_fresh_def list_api_def)
  then have f: "new_fresh (sv_api list_srv)" by (simp add: e)
  obtain h a1 where h: "CreateToolhelp32Snapshot (sv_api list_srv) 8 7 (demo_opened ()) = Some (h, a1)" "raw h \<noteq> 0"
    "holds_modules h [lib_module] 0 a1" unfolding e by (rule demo_module_snapshot)
  from mc.walk_all [OF h(3)] obtain a2 where
    w: "walk (Module32First h) (Module32Next h) a1 = Some ([lib_module], a2)" by blast
  from module_list_reply [OF q fl demo_opened_owns f h(1,2) w]
  show ?thesis by (auto simp: lib_module_def list_script_def)
qed

end
