(* ===== verification/Server_Query.thy ===== *)
theory Server_Query
  imports Server_Replies
begin

text \<open>
  The answer to a region query of CEServer/main.cpp: the request structure, the handler, the cached
  query of api.cpp and the reply structure composed.
\<close>

section \<open>The requests\<close>

definition query_input :: "u32 \<Rightarrow> u64 \<Rightarrow> byte list" where
  "query_input handle base = u32_bytes handle @ u64_bytes base"

lemma query_input_fields:
  "u32_of (get_bytes 0 4 (query_input h va)) = h" "u64_of (get_bytes 4 8 (query_input h va)) = va"
  "length (query_input h va) = 12"
  using get_bytes_parts [of "[]" 0 "u32_bytes h" 4 "u64_bytes va"]
    get_bytes_parts [of "u32_bytes h" 4 "u64_bytes va" 8 "[]"]
  by (simp_all add: query_input_def)

lemma query_input_not_empty: "query_input h va \<noteq> []"
  using query_input_fields(3) [of h va] by (metis length_0_conv numeral_neq_zero)

text \<open>What the reply is, with the name for \<open>CMD_GETREGIONINFO\<close>: its length is sent in one byte.\<close>

definition query_reply :: "bool \<Rightarrow> bool \<Rightarrow> RegionInfo \<Rightarrow> byte list \<Rightarrow> byte list" where
  "query_reply want_name found rinfo mapsline =
     CeVirtualQueryExOutput (if found then 1 else 0) rinfo @
     (if want_name then word_of_nat (length mapsline) # take (length mapsline mod 256) mapsline else [])"

lemma cmd_query_reply:
  assumes "recvall 12 c1 = (sint (12 :: u64), query_input hn addr, c2)" "quiet c2"
    and "Api_VirtualQueryEx (sv_api E) (HANDLE hn) addr (sv_rinfo E) [] a = Some (found, ri, nm, a')"
    and "\<not> (sv_ptr32 E \<and> addr > 0xFFFFFFFF)"
  shows "\<exists>c'. cmd_query E want a c1 = Some (a', c') \<and> quiet c' \<and> cn_in c' = cn_in c2 \<and>
    cn_out c' = cn_out c2 @ query_reply want found ri nm"
proof -
  have sz: "unat (word_of_nat (length nm) :: byte) = length nm mod 256" by (simp add: unat_of_nat)
  have z: "word_of_nat (length nm) = (0 :: byte) \<Longrightarrow> length nm mod 256 = 0"
    using sz by (metis unat_0)
  show ?thesis
    using assms z
    by (auto simp: cmd_query_def query_input_fields query_reply_def Let_def sz)
qed

lemma query_dispatch:
  assumes "command \<in> {CMD_VIRTUALQUERYEX, CMD_GETREGIONINFO}"
  shows "DispatchCommand E command a c = cmd_query E (command = CMD_GETREGIONINFO) a c"
  using assms by (auto simp: DispatchCommand_def cmd_defs not_supported_def)

text \<open>C19. The region queries, end to end: for a handle of an open process with a fresh cache of the
  driver's regions the client gets one structure, whose first byte tells whether there is a region at
  the page or above it, and then the protection, type and extent of the region the page lies in
  or of the gap it lies in, over which no region extends; with the second command also the name, its length in one
  byte, so that of a longer name only the length modulo 256 arrives. The driver is not asked.\<close>

theorem query_reply_region:
  assumes "quiet c" "stream (cn_in c) = command # query_input hn addr @ rest"
    and "command \<in> {CMD_VIRTUALQUERYEX, CMD_GETREGIONINFO}" "\<not> (sv_ptr32 E \<and> addr > 0xFFFFFFFF)"
    and "GetHandleType (HANDLE hn) (ap_handles a) = htProcesHandle"
    and "ap_heap a (GetPointerFromHandle (HANDLE hn) (ap_handles a)) = Some (OpenProcessObj op)"
    and "ae_clock (sv_api E) (ap_os a) = (tv_sec, tv_nsec, s)"
    and "clock_ms tv_sec tv_nsec - nLastGetMapsTime op \<le> 60000"
    and "maps_sorted (vLastMaps op)" "page = addr AND NOT 0xfff"
  shows "\<exists>found ri nm c'. thread_round E a c = Some (True, a\<lparr>ap_os := s\<rparr>, c') \<and> quiet c' \<and>
    stream (cn_in c') = rest \<and>
    cn_out c' = cn_out c @ query_reply (command = CMD_GETREGIONINFO) found ri nm \<and>
    ri_baseaddress ri = page \<and>
    (found \<longleftrightarrow> (\<exists>r \<in> set (vLastMaps op). unat page < unat (baseaddress r) + unat (r_size r))) \<and>
    (\<forall>r \<in> set (vLastMaps op). in_region page r \<longrightarrow> ri_protection ri = protection r \<and> ri_type ri = r_type r \<and>
      unat page + unat (ri_size ri) = unat (baseaddress r) + unat (r_size r) \<and> nm = cstr (r_name r)) \<and>
    (found \<and> (\<forall>r \<in> set (vLastMaps op). \<not> in_region page r) \<longrightarrow>
      ri_protection ri = PAGE_NOACCESS \<and> ri_type ri = 0 \<and>
      (\<exists>r \<in> set (vLastMaps op). unat page + unat (ri_size ri) = unat (baseaddress r) \<and> nm = cstr (r_name r)) \<and>
      (\<forall>r \<in> set (vLastMaps op). \<forall>x. unat page \<le> unat x \<and> unat x < unat page + unat (ri_size ri) \<longrightarrow>
        \<not> in_region x r))"
proof -
  let ?P = "\<lambda>found ri nm. ri_baseaddress ri = page \<and>
    (found \<longleftrightarrow> (\<exists>r \<in> set (vLastMaps op). unat page < unat (baseaddress r) + unat (r_size r))) \<and>
    (\<forall>r \<in> set (vLastMaps op). in_region page r \<longrightarrow> ri_protection ri = protection r \<and> ri_type ri = r_type r \<and>
      unat page + unat (ri_size ri) = unat (baseaddress r) + unat (r_size r) \<and> nm = cstr (r_name r)) \<and>
    (found \<and> (\<forall>r \<in> set (vLastMaps op). \<not> in_region page r) \<longrightarrow>
      ri_protection ri = PAGE_NOACCESS \<and> ri_type ri = 0 \<and>
      (\<exists>r \<in> set (vLastMaps op). unat page + unat (ri_size ri) = unat (baseaddress r) \<and> nm = cstr (r_name r)) \<and>
      (\<forall>r \<in> set (vLastMaps op). \<forall>x. unat page \<le> unat x \<and> unat x < unat page + unat (ri_size ri) \<longrightarrow>
        \<not> in_region x r))"
  have "\<exists>found ri nm. Api_VirtualQueryEx (sv_api E) (HANDLE hn) addr (sv_rinfo E) [] a =
      Some (found, ri, nm, a\<lparr>ap_os := s\<rparr>) \<and> ?P found ri nm"
    by (rule virtual_query_region [OF assms(5-10)])
  then obtain found ri nm where v: "Api_VirtualQueryEx (sv_api E) (HANDLE hn) addr (sv_rinfo E) [] a =
      Some (found, ri, nm, a\<lparr>ap_os := s\<rparr>)" and P: "?P found ri nm" by (elim exE) (erule conjE, rule that)
  have "\<exists>a' c'. thread_round E a c = Some (True, a', c') \<and> quiet c' \<and> (a' = a\<lparr>ap_os := s\<rparr> \<and>
      stream (cn_in c') = rest \<and> cn_out c' = cn_out c @ query_reply (command = CMD_GETREGIONINFO) found ri nm)"
  proof (rule round_command [OF assms(1,2)])
    show "int (length (query_input hn addr)) = sint (12 :: u64)" by (simp add: query_input_fields)
    show "query_input hn addr \<noteq> []" by (rule query_input_not_empty)
    fix c1 c2
    assume "recvall 12 c1 = (sint (12 :: u64), query_input hn addr, c2)" "quiet c2"
      "stream (cn_in c2) = rest" "cn_out c2 = cn_out c"
    from cmd_query_reply [OF this(1,2) v assms(4), of "command = CMD_GETREGIONINFO"] this(3,4)
    obtain c' where "cmd_query E (command = CMD_GETREGIONINFO) a c1 = Some (a\<lparr>ap_os := s\<rparr>, c')" "quiet c'"
      "stream (cn_in c') = rest" "cn_out c' = cn_out c @ query_reply (command = CMD_GETREGIONINFO) found ri nm" by auto
    then show "\<exists>a' c'. DispatchCommand E command a c1 = Some (a', c') \<and> quiet c' \<and> (a' = a\<lparr>ap_os := s\<rparr> \<and>
      stream (cn_in c') = rest \<and> cn_out c' = cn_out c @ query_reply (command = CMD_GETREGIONINFO) found ri nm)"
      by (intro exI [of _ "a\<lparr>ap_os := s\<rparr>"] exI [of _ c']) (simp only: query_dispatch [OF assms(3)] simp_thms)
  qed
  then obtain c' where c: "thread_round E a c = Some (True, a\<lparr>ap_os := s\<rparr>, c')" "quiet c'" "stream (cn_in c') = rest"
    "cn_out c' = cn_out c @ query_reply (command = CMD_GETREGIONINFO) found ri nm" by blast
  show ?thesis by (intro exI) (rule conjI [OF c(1) conjI [OF c(2) conjI [OF c(3) conjI [OF c(4) P]]]])
qed

definition query_script :: conn where
  "query_script = \<lparr>cn_in = [Data [CMD_GETREGIONINFO], RecvError EINTR, Data (query_input 10000 0x24abc)],
     cn_send = [], cn_out = [], cn_closes = 0, cn_exit = False\<rparr>"

definition demo_cached :: "bpw api" where
  "demo_cached = demo_open\<lparr>ap_heap := [0x1000 \<mapsto> OpenProcessObj
     (demo_process\<lparr>vLastMaps := demo_maps, nLastGetMapsTime := 50000\<rparr>)]\<rparr>"

theorem query_reply_region_witness:
  "\<exists>ri nm c'. thread_round demo_srv demo_cached query_script = Some (True, demo_cached, c') \<and>
    cn_out c' = query_reply True True ri nm \<and> ri_protection ri = PAGE_NOACCESS \<and> ri_baseaddress ri = 0x24000"
proof -
  let ?op = "demo_process\<lparr>vLastMaps := demo_maps, nLastGetMapsTime := 50000\<rparr>"
  have q: "quiet query_script" "stream (cn_in query_script) = CMD_GETREGIONINFO # query_input 10000 0x24abc @ []"
    by (simp_all add: query_script_def quiet_def query_input_not_empty)
  have g: "GetHandleType (HANDLE 10000) (ap_handles demo_cached) = htProcesHandle"
    "ap_heap demo_cached (GetPointerFromHandle (HANDLE 10000) (ap_handles demo_cached)) = Some (OpenProcessObj ?op)"
    by (simp_all add: demo_cached_def demo_open_def demo_opened_def GetHandleType_def GetPointerFromHandle_def)
  have p: "(0x24000 :: u64) = 0x24abc AND NOT 0xfff" by simp
  have s: "maps_sorted (vLastMaps ?op)" by (simp add: maps_sorted_def demo_maps_def)
  have f: "clock_ms 100 0 - nLastGetMapsTime ?op \<le> 60000" by (simp add: clock_ms_def)
  have c: "ae_clock (sv_api demo_srv) (ap_os demo_cached) = (100, 0, ap_os demo_cached)"
    by (simp add: demo_srv_def demo_api_sel)
  have m: "CMD_GETREGIONINFO \<in> {CMD_VIRTUALQUERYEX, CMD_GETREGIONINFO}" "\<not> (sv_ptr32 demo_srv \<and> 0x24abc > (0xFFFFFFFF :: u64))"
    by (simp_all add: demo_srv_def)
  have "vLastMaps ?op = demo_maps" "demo_cached\<lparr>ap_os := ap_os demo_cached\<rparr> = demo_cached" by simp_all
  then show ?thesis
    using query_reply_region [OF q m g c f s p]
    by (fastforce simp: query_script_def demo_maps_def in_region_def)
qed

end
