(* ===== verification/Server_Listing.thy ===== *)
theory Server_Listing
  imports Server_Replies
begin

text \<open>
  Listing a snapshot over a connection of CEServer/main.cpp: the client asks for the first entry, then
  for the next one until it is told that there is none. The locale \<open>served_cursor\<close> extends the contract
  of an iterator of api.cpp by the commands that serve it, and is interpreted on the process and on
  the module commands.
\<close>

section \<open>The conversation\<close>

text \<open>A number of commands served on a connection that stays open.\<close>

fun rounds :: "('s, 'z) srvenv \<Rightarrow> nat \<Rightarrow> 's api \<Rightarrow> conn \<Rightarrow> ('s api \<times> conn) option" where
  "rounds E 0 a c = Some (a, c)"
| "rounds E (Suc n) a c =
     (case thread_round E a c of Some (True, a', c') \<Rightarrow> rounds E n a' c' | _ \<Rightarrow> None)"

lemma rounds_add:
  "rounds E n a c = Some (a1, c1) \<Longrightarrow> rounds E (n + m) a c = rounds E m a1 c1"
  by (induction n arbitrary: a c) (auto split: option.splits prod.splits bool.splits)

text \<open>One command: it is consumed, the reply is appended, and the state changes as given.\<close>

definition serves :: "('s, 'z) srvenv \<Rightarrow> byte list \<Rightarrow> byte list \<Rightarrow> 's api \<Rightarrow> 's api \<Rightarrow> bool" where
  "serves E req reply a a' \<longleftrightarrow>
     (\<forall>c rest. quiet c \<and> stream (cn_in c) = req @ rest \<longrightarrow>
       (\<exists>c'. thread_round E a c = Some (True, a', c') \<and> quiet c' \<and> stream (cn_in c') = rest \<and>
         cn_out c' = cn_out c @ reply))"

lemma servesI:
  assumes "req = cmd # params" "int (length params) = sint sz" "params \<noteq> []"
    and "\<And>c1 c2. recvall sz c1 = (sint sz, params, c2) \<Longrightarrow> quiet c2 \<Longrightarrow>
      \<exists>c'. DispatchCommand E cmd a c1 = Some (a', c') \<and> quiet c' \<and> cn_in c' = cn_in c2 \<and> cn_out c' = cn_out c2 @ reply"
  shows "serves E req reply a a'"
  unfolding serves_def
proof (intro allI impI, elim conjE)
  fix c rest assume q: "quiet c" and s: "stream (cn_in c) = req @ rest"
  from s have s: "stream (cn_in c) = cmd # params @ rest" by (simp add: assms(1))
  have "\<exists>b c'. thread_round E a c = Some (True, b, c') \<and> quiet c' \<and> (b = a' \<and> stream (cn_in c') = rest \<and>
      cn_out c' = cn_out c @ reply)"
  proof (rule round_command [OF q s assms(2,3)])
    fix c1 c2 assume "recvall sz c1 = (sint sz, params, c2)" "quiet c2" "stream (cn_in c2) = rest" "cn_out c2 = cn_out c"
    with assms(4) [OF this(1,2)] show "\<exists>b c'. DispatchCommand E cmd a c1 = Some (b, c') \<and> quiet c' \<and>
        (b = a' \<and> stream (cn_in c') = rest \<and> cn_out c' = cn_out c @ reply)" by auto
  qed
  then show "\<exists>c'. thread_round E a c = Some (True, a', c') \<and> quiet c' \<and> stream (cn_in c') = rest \<and>
      cn_out c' = cn_out c @ reply" by blast
qed

text \<open>A conversation: \<open>n\<close> commands, their replies together, and the state at the end.\<close>

definition talks :: "('s, 'z) srvenv \<Rightarrow> nat \<Rightarrow> byte list \<Rightarrow> byte list \<Rightarrow> 's api \<Rightarrow> 's api \<Rightarrow> bool" where
  "talks E n reqs replies a a' \<longleftrightarrow>
     (\<forall>c rest. quiet c \<and> stream (cn_in c) = reqs @ rest \<longrightarrow>
       (\<exists>c'. rounds E n a c = Some (a', c') \<and> quiet c' \<and> stream (cn_in c') = rest \<and>
         cn_out c' = cn_out c @ replies))"

lemma talks_one: "serves E req reply a a' \<Longrightarrow> talks E 1 req reply a a'"
  unfolding talks_def serves_def One_nat_def by (intro allI impI) (drule spec, drule spec, drule mp, assumption, auto)

lemma talks_append:
  assumes "talks E n r1 p1 a b" "talks E m r2 p2 b d"
  shows "talks E (n + m) (r1 @ r2) (p1 @ p2) a d"
  unfolding talks_def
proof (intro allI impI)
  fix c rest assume c: "quiet c \<and> stream (cn_in c) = (r1 @ r2) @ rest"
  then have "quiet c \<and> stream (cn_in c) = r1 @ (r2 @ rest)" by simp
  with assms(1) obtain c1 where c1: "rounds E n a c = Some (b, c1)" "quiet c1" "stream (cn_in c1) = r2 @ rest"
    "cn_out c1 = cn_out c @ p1" unfolding talks_def by blast
  with assms(2) obtain c2 where "rounds E m b c1 = Some (d, c2)" "quiet c2" "stream (cn_in c2) = rest"
    "cn_out c2 = cn_out c1 @ p2" unfolding talks_def by blast
  with c1 rounds_add [OF c1(1), of m] show "\<exists>c'. rounds E (n + m) a c = Some (d, c') \<and> quiet c' \<and>
      stream (cn_in c') = rest \<and> cn_out c' = cn_out c @ p1 @ p2" by auto
qed

section \<open>The commands of an iterator\<close>

locale served_cursor = snapshot_cursor fst_op nxt holds
  for fst_op nxt :: "'s api \<Rightarrow> ('e option \<times> 's api) option" and holds :: "'e list \<Rightarrow> nat \<Rightarrow> 's api \<Rightarrow> bool" +
  fixes E :: "('s, 'z) srvenv" and first_req next_req :: "byte list" and reply :: "'e option \<Rightarrow> byte list"
  assumes first_served: "fst_op a = Some (e, a') \<Longrightarrow> serves E first_req (reply e) a a'"
    and next_served: "nxt a = Some (e, a') \<Longrightarrow> serves E next_req (reply e) a a'"
begin

lemma rest_listed:
  assumes "holds v i a" "i < length v"
  shows "\<exists>a'. holds v (length v) a' \<and> talks E (length v - i) (concat (replicate (length v - i) next_req))
    (concat (map (\<lambda>e. reply (Some e)) (drop (i + 1) v)) @ reply None) a a'"
  using assms
proof (induction "length v - i" arbitrary: i a)
  case 0
  then show ?case by simp
next
  case (Suc n)
  obtain a' where n: "nxt a = Some (if i + 1 < length v then Some (v ! (i + 1)) else None, a')"
    "holds v (i + 1) a'" using next_op [OF Suc.prems] by blast
  note one = talks_one [OF next_served [OF n(1)]]
  show ?case
  proof (cases "i + 1 < length v")
    case True
    have "n = length v - (i + 1)" using Suc.hyps(2) by simp
    from Suc.hyps(1) [OF this n(2) True] obtain b where
      b: "holds v (length v) b" "talks E (length v - (i + 1)) (concat (replicate (length v - (i + 1)) next_req))
        (concat (map (\<lambda>e. reply (Some e)) (drop (i + 1 + 1) v)) @ reply None) a' b" by blast
    have "drop (i + 1) v = v ! (i + 1) # drop (i + 1 + 1) v" using True by (simp add: Cons_nth_drop_Suc)
    moreover have "length v - i = 1 + (length v - (i + 1))" using Suc.prems(2) by simp
    ultimately show ?thesis
      using talks_append [OF one b(2)] b(1) True by (intro exI [of _ b]) (simp add: replicate_add)
  next
    case False
    with Suc.prems have l: "length v = i + 1" by simp
    with one n(2) show ?thesis by (intro exI [of _ a']) simp
  qed
qed

lemma listed:
  assumes "holds v i a"
  shows "\<exists>a'. holds v (length v) a' \<and>
    talks E (1 + length v) (first_req @ concat (replicate (length v) next_req))
      (concat (map (\<lambda>e. reply (Some e)) v) @ reply None) a a'"
proof -
  obtain a' where f: "fst_op a = Some (if v = [] then None else Some (v ! 0), a')" "holds v 0 a'"
    using first_op [OF assms] by blast
  note one = talks_one [OF first_served [OF f(1)]]
  show ?thesis
  proof (cases "v = []")
    case True
    with one f show ?thesis by auto
  next
    case False
    then obtain b where "holds v (length v) b" "talks E (length v) (concat (replicate (length v) next_req))
        (concat (map (\<lambda>e. reply (Some e)) (drop 1 v)) @ reply None) a' b"
      using rest_listed [OF f(2)] by auto
    moreover have "v = v ! 0 # drop 1 v" using False by (cases v) simp_all
    moreover have "concat (map (\<lambda>e. reply (Some e)) v) = reply (Some (v ! 0)) @ concat (map (\<lambda>e. reply (Some e)) (drop 1 v))"
      using False by (cases v) simp_all
    ultimately show ?thesis using talks_append [OF one, of "length v"] False by fastforce
  qed
qed

end

definition process_reply :: "ProcessListEntry option \<Rightarrow> byte list" where
  "process_reply e = (case e of
     Some pe \<Rightarrow> CeProcessEntry 1 (PID pe) (name_size (ProcessName pe)) @ ProcessName pe
   | None \<Rightarrow> CeProcessEntry 0 0 0)"

definition module_reply :: "ModuleListEntry option \<Rightarrow> byte list" where
  "module_reply e = (case e of Some me \<Rightarrow> module_record me | None \<Rightarrow> CeModuleEntry 0 0 0 0 0 0)"

definition handle_request :: "byte \<Rightarrow> HANDLE \<Rightarrow> byte list" where
  "handle_request command h = command # u32_bytes (raw h)"

lemma handle_params: "HANDLE (u32_of (u32_bytes (raw h))) = h" "int (length (u32_bytes (raw h))) = sint (4 :: u64)"
  "u32_bytes (raw h) \<noteq> []"
proof -
  show "HANDLE (u32_of (u32_bytes (raw h))) = h" by (cases h) simp
  have l: "length (u32_bytes (raw h)) = 4" by simp
  then show "int (length (u32_bytes (raw h))) = sint (4 :: u64)" by simp
  from l show "u32_bytes (raw h) \<noteq> []" by (metis list.size(3) zero_neq_numeral)
qed

lemma process_served:
  assumes "command \<in> {CMD_PROCESS32FIRST, CMD_PROCESS32NEXT}"
    and "(if command = CMD_PROCESS32FIRST then Process32First h a else Process32Next h a) = Some (e, a')"
  shows "serves E (handle_request command h) (process_reply e) a a'"
proof (rule servesI [OF handle_request_def handle_params(2,3)])
  fix c1 c2 assume r: "recvall 4 c1 = (sint (4 :: u64), u32_bytes (raw h), c2)" "quiet c2"
  have "DispatchCommand E command a c1 = cmd_process32 (command = CMD_PROCESS32FIRST) a c1"
    using assms(1) by (auto simp: DispatchCommand_def cmd_defs not_supported_def)
  with assms(2) r show "\<exists>c'. DispatchCommand E command a c1 = Some (a', c') \<and> quiet c' \<and> cn_in c' = cn_in c2 \<and>
      cn_out c' = cn_out c2 @ process_reply e"
    by (cases e) (auto simp: cmd_process32_def handle_params(1) process_reply_def split: if_splits)
qed

lemma module_served:
  assumes "command \<in> {CMD_MODULE32FIRST, CMD_MODULE32NEXT}"
    and "(if command = CMD_MODULE32FIRST then Module32First h a else Module32Next h a) = Some (e, a')"
  shows "serves E (handle_request command h) (module_reply e) a a'"
proof (rule servesI [OF handle_request_def handle_params(2,3)])
  fix c1 c2 assume r: "recvall 4 c1 = (sint (4 :: u64), u32_bytes (raw h), c2)" "quiet c2"
  have "DispatchCommand E command a c1 = cmd_module32 (command = CMD_MODULE32FIRST) a c1"
    using assms(1) by (auto simp: DispatchCommand_def cmd_defs not_supported_def)
  with assms(2) r show "\<exists>c'. DispatchCommand E command a c1 = Some (a', c') \<and> quiet c' \<and> cn_in c' = cn_in c2 \<and>
      cn_out c' = cn_out c2 @ module_reply e"
    by (cases e) (auto simp: cmd_module32_def handle_params(1) module_reply_def module_record_def split: if_splits)
qed

text \<open>The snapshot in a fixed state of the server: only its own cursor moves.\<close>

definition processes_in :: "HANDLE \<Rightarrow> 's api \<Rightarrow> ProcessListEntry list \<Rightarrow> nat \<Rightarrow> 's api \<Rightarrow> bool" where
  "processes_in h a0 v i a \<longleftrightarrow> GetHandleType h (ap_handles a0) = htTHSProcess \<and>
     (\<exists>l. a = put_obj (GetPointerFromHandle h (ap_handles a0)) (CeProcessList l i) a0 \<and> v = map process_entry l)"

definition modules_in :: "HANDLE \<Rightarrow> 's api \<Rightarrow> ModuleListEntry list \<Rightarrow> nat \<Rightarrow> 's api \<Rightarrow> bool" where
  "modules_in h a0 v i a \<longleftrightarrow> GetHandleType h (ap_handles a0) = htTHSModule \<and>
     a = put_obj (GetPointerFromHandle h (ap_handles a0)) (CeModuleList v i) a0"

interpretation ps: served_cursor "Process32First h" "Process32Next h" "processes_in h a0" E
    "handle_request CMD_PROCESS32FIRST h" "handle_request CMD_PROCESS32NEXT h" process_reply for h a0 E
proof unfold_locales
  fix a a' :: "'a api" and e :: "ProcessListEntry option"
  show "Process32First h a = Some (e, a') \<Longrightarrow> serves E (handle_request CMD_PROCESS32FIRST h) (process_reply e) a a'"
    by (rule process_served) simp_all
  show "Process32Next h a = Some (e, a') \<Longrightarrow> serves E (handle_request CMD_PROCESS32NEXT h) (process_reply e) a a'"
    by (rule process_served) (simp_all add: cmd_defs)
qed (auto simp: processes_in_def Process32First_def Process32Next_def Let_def)

interpretation ms: served_cursor "Module32First h" "Module32Next h" "modules_in h a0" E
    "handle_request CMD_MODULE32FIRST h" "handle_request CMD_MODULE32NEXT h" module_reply for h a0 E
proof unfold_locales
  fix a a' :: "'a api" and e :: "ModuleListEntry option"
  show "Module32First h a = Some (e, a') \<Longrightarrow> serves E (handle_request CMD_MODULE32FIRST h) (module_reply e) a a'"
    by (rule module_served) simp_all
  show "Module32Next h a = Some (e, a') \<Longrightarrow> serves E (handle_request CMD_MODULE32NEXT h) (module_reply e) a a'"
    by (rule module_served) (simp_all add: cmd_defs)
qed (auto simp: modules_in_def Module32First_def Module32Next_def Let_def)

section \<open>A process list\<close>

text \<open>The other two commands of the conversation.\<close>

definition snapshot_input :: "u32 \<Rightarrow> u32 \<Rightarrow> byte list" where
  "snapshot_input dwFlags th32ProcessID = u32_bytes dwFlags @ u32_bytes th32ProcessID"

lemma snapshot_served:
  assumes "CreateToolhelp32Snapshot (sv_api E) fl pid a = Some (h, a')"
  shows "serves E (CMD_CREATETOOLHELP32SNAPSHOT # snapshot_input fl pid) (u32_bytes (raw h)) a a'"
  unfolding snapshot_input_def
proof (rule servesI [OF refl, of _ 8])
  have l: "length (u32_bytes fl @ u32_bytes pid) = 8" by simp
  then show "int (length (u32_bytes fl @ u32_bytes pid)) = sint (8 :: u64)" by simp
  from l show "u32_bytes fl @ u32_bytes pid \<noteq> []" by (metis list.size(3) zero_neq_numeral)
  have f: "u32_of (get_bytes 0 4 (u32_bytes fl @ u32_bytes pid)) = fl"
    "u32_of (get_bytes 4 4 (u32_bytes fl @ u32_bytes pid)) = pid"
    using get_bytes_parts [of "[]" 0 "u32_bytes fl" 4 "u32_bytes pid"]
      get_bytes_parts [of "u32_bytes fl" 4 "u32_bytes pid" 4 "[]"] by simp_all
  fix c1 c2 assume "recvall 8 c1 = (sint (8 :: u64), u32_bytes fl @ u32_bytes pid, c2)" "quiet c2"
  with assms show "\<exists>c'. DispatchCommand E CMD_CREATETOOLHELP32SNAPSHOT a c1 = Some (a', c') \<and> quiet c' \<and>
      cn_in c' = cn_in c2 \<and> cn_out c' = cn_out c2 @ u32_bytes (raw h)"
    by (simp add: DispatchCommand_def cmd_defs not_supported_def cmd_snapshot_def f)
qed

lemma close_served:
  assumes "Api_CloseHandle h a = Some a'"
  shows "serves E (handle_request CMD_CLOSEHANDLE h) (u32_bytes 1) a a'"
proof (rule servesI [OF handle_request_def handle_params(2,3)])
  fix c1 c2 assume "recvall 4 c1 = (sint (4 :: u64), u32_bytes (raw h), c2)" "quiet c2"
  with assms show "\<exists>c'. DispatchCommand E CMD_CLOSEHANDLE a c1 = Some (a', c') \<and> quiet c' \<and> cn_in c' = cn_in c2 \<and>
      cn_out c' = cn_out c2 @ u32_bytes 1"
    by (simp add: DispatchCommand_def cmd_defs not_supported_def cmd_closehandle_def handle_params(1))
qed

text \<open>What the client sends to list \<open>n\<close> processes, once it knows the handle.\<close>

definition list_requests :: "u32 \<Rightarrow> u32 \<Rightarrow> HANDLE \<Rightarrow> nat \<Rightarrow> byte list" where
  "list_requests fl pid h n =
     (CMD_CREATETOOLHELP32SNAPSHOT # snapshot_input fl pid) @
     (handle_request CMD_PROCESS32FIRST h @ concat (replicate n (handle_request CMD_PROCESS32NEXT h))) @
     handle_request CMD_CLOSEHANDLE h"

text \<open>C18. Listing the processes, end to end: a client on a quiet connection that asks for a process
  snapshot, its first entry, the next one until it is told that there is none, and to close it, gets
  the handle, one record for each directory of /proc with a numeric name, in their order, with
  the number and the command line, the record of the end and the answer of the closing; and
  afterwards the objects and the meaning of every handle are as before.\<close>

theorem process_list_replies:
  assumes "api_owns a" "new_fresh (sv_api E)" "fl AND TH32CS_SNAPPROCESS \<noteq> 0" "ae_proc (sv_api E) (ap_os a) = Some ds"
    and "\<forall>d \<in> set ds. pid_dir d \<longrightarrow> ae_cmdline (sv_api E) (ap_os a) (atoi (fst d)) \<noteq> None"
    and "ae_new (sv_api E) (ap_heap a) = Some p" "rd_calls (ap_handles a) \<le> n"
    and "find_handle (draw_handle (ae_rd (sv_api E) n)) (ap_handles a) = None"
    and "v = map process_entry (listed_processes (sv_api E) (ap_os a) ds)"
  shows "\<exists>h a'. talks E (1 + (1 + length v) + 1) (list_requests fl pid h (length v))
      (u32_bytes (raw h) @ (concat (map (\<lambda>e. process_reply (Some e)) v) @ process_reply None) @ u32_bytes 1) a a' \<and>
    raw h \<noteq> 0 \<and> ap_heap a' = ap_heap a \<and> (\<forall>k. find_handle k (ap_handles a') = find_handle k (ap_handles a))"
proof -
  let ?l = "listed_processes (sv_api E) (ap_os a) ds"
  obtain h t where h: "CreateToolhelp32Snapshot (sv_api E) fl pid a = Some (h, put_obj p (CeProcessList ?l 0) (a\<lparr>ap_handles := t\<rparr>))"
    "new_handle (sv_api E) (CeProcessList ?l 0) a = Some (h, put_obj p (CeProcessList ?l 0) (a\<lparr>ap_handles := t\<rparr>))"
    "GetHandleType h t = htTHSProcess" "GetPointerFromHandle h t = p" "raw h \<noteq> 0"
    by (rule process_snapshot_made [OF assms(1,3-8)])
  let ?a1 = "put_obj p (CeProcessList ?l 0) (a\<lparr>ap_handles := t\<rparr>)"
  have p: "GetPointerFromHandle h (ap_handles ?a1) = p" using h(4) by (simp add: put_obj_def)
  have "processes_in h ?a1 v 0 ?a1" using h(3,4) assms(9) by (auto simp: processes_in_def put_obj_def)
  from ps.listed [OF this] obtain a2 where a2: "processes_in h ?a1 v (length v) a2"
    "talks E (1 + length v) (handle_request CMD_PROCESS32FIRST h @ concat (replicate (length v) (handle_request CMD_PROCESS32NEXT h)))
      (concat (map (\<lambda>e. process_reply (Some e)) v) @ process_reply None) ?a1 a2" by blast
  obtain l' where l: "a2 = put_obj (GetPointerFromHandle h (ap_handles ?a1)) (CeProcessList l' (length v)) ?a1"
    using a2(1) by (auto simp: processes_in_def)
  have "new_handle (sv_api E) (CeProcessList ?l 0) (a\<lparr>ap_os := ap_os a\<rparr>) = Some (h, ?a1)" using h(2) by simp
  from snapshot_then_close [OF assms(1,2) this, of "CeProcessList l' (length v)"] obtain t' where
    t': "Api_CloseHandle h a2 = Some (a\<lparr>ap_handles := t'\<rparr>)" "\<forall>k. find_handle k t' = find_handle k (ap_handles a)"
    unfolding l by auto
  from talks_append [OF talks_one [OF snapshot_served [OF h(1)]]
      talks_append [OF a2(2) talks_one [OF close_served [OF t'(1)]]]]
  have "talks E (1 + (1 + length v) + 1) (list_requests fl pid h (length v))
      (u32_bytes (raw h) @ (concat (map (\<lambda>e. process_reply (Some e)) v) @ process_reply None) @ u32_bytes 1) a
      (a\<lparr>ap_handles := t'\<rparr>)"
    unfolding list_requests_def by (simp only: add.assoc)
  with h(5) t'(2) show ?thesis by (intro exI [of _ h] exI [of _ "a\<lparr>ap_handles := t'\<rparr>"]) simp
qed

theorem process_list_replies_witness:
  "\<exists>h a'. talks demo_srv (1 + (1 + 2) + 1) (list_requests 2 0 h 2)
      (u32_bytes (raw h) @ (process_reply (Some \<lparr>PID = 7, ProcessName = [104, 105, 32]\<rparr>) @
        process_reply (Some \<lparr>PID = 42, ProcessName = [104, 105, 32]\<rparr>) @ process_reply None) @ u32_bytes 1) demo_open a' \<and>
    ap_heap a' = ap_heap demo_open"
proof -
  have e: "sv_api demo_srv = demo_api" by (simp add: demo_srv_def)
  have f: "find_handle (draw_handle (ae_rd demo_api 1)) (ap_handles demo_open) = None"
    by (simp add: demo_api_sel draw_handle_demo find_handle_def demo_open_def demo_opened_def)
  have v: "map process_entry (listed_processes demo_api (ap_os demo_open) [([46], True), ([55], True), ([115, 121, 115], True), ([52, 50], True)]) =
      [\<lparr>PID = 7, ProcessName = [104, 105, 32]\<rparr>, \<lparr>PID = 42, ProcessName = [104, 105, 32]\<rparr>]"
    by (simp add: listed_processes_def process_entry_def demo_api_sel pid_dir_def is_digit_def atoi_def
        is_space_def shown_cmdline_def)
  have fl: "(2 :: u32) AND TH32CS_SNAPPROCESS \<noteq> 0" by (simp add: TH32CS_SNAPPROCESS_def)
  have "ae_new demo_api (ap_heap demo_open) = Some 0x2000" "rd_calls (ap_handles demo_open) \<le> 1"
    by (simp_all add: demo_api_sel demo_open_def demo_opened_def)
  from process_list_replies [where E = demo_srv, unfolded e, OF demo_open_owns demo_new_fresh fl demo_api_sel(6) _ this f v [symmetric], of 0]
  show ?thesis by (simp add: demo_api_sel numeral_2_eq_2) blast
qed

section \<open>A thread list\<close>

lemma snapthread_bit: "fl AND TH32CS_SNAPTHREAD \<noteq> 0 \<Longrightarrow> fl AND TH32CS_SNAPTHREAD = TH32CS_SNAPTHREAD"
  using and_exp_bit [of fl 2] by (simp add: TH32CS_SNAPTHREAD_def split: if_splits)

definition thread_ids :: "'s apienv \<Rightarrow> 's \<Rightarrow> u32 \<Rightarrow> u32 list" where
  "thread_ids E s pid = (if pid = 0 then [] else
     (case ae_task E s pid of None \<Rightarrow> [] | Some names \<Rightarrow> filter (\<lambda>t. t \<noteq> 0) (map atoi names)))"

lemma snapshotex_served:
  assumes "fl AND TH32CS_SNAPPROCESS = 0" "fl AND TH32CS_SNAPMODULE = 0" "fl AND TH32CS_SNAPTHREAD \<noteq> 0"
    and "CreateToolhelp32Snapshot (sv_api E) fl pid a = Some (h, a1)"
    and "raw h = 0 \<and> ids = [] \<and> a' = a1 \<or> raw h \<noteq> 0 \<and> Api_CloseHandle h a1 = Some a' \<and>
      (\<exists>th. ap_heap a1 (GetPointerFromHandle h (ap_handles a1)) = Some (ThreadListObj th) \<and>
        threadCount th \<le> length (threadList th) \<and> take (threadCount th) (threadList th) = ids)"
  shows "serves E (CMD_CREATETOOLHELP32SNAPSHOTEX # snapshot_input fl pid)
    (u32_bytes (word_of_nat (length ids)) @ concat (map u32_bytes ids)) a a'"
proof (rule servesI [OF refl, of _ 8])
  have l: "length (snapshot_input fl pid) = 8" by (simp add: snapshot_input_def)
  then show "int (length (snapshot_input fl pid)) = sint (8 :: u64)" by simp
  from l show "snapshot_input fl pid \<noteq> []" by (metis list.size(3) zero_neq_numeral)
  have f: "u32_of (get_bytes 0 4 (snapshot_input fl pid)) = fl" "u32_of (get_bytes 4 4 (snapshot_input fl pid)) = pid"
    using get_bytes_parts [of "[]" 0 "u32_bytes fl" 4 "u32_bytes pid"]
      get_bytes_parts [of "u32_bytes fl" 4 "u32_bytes pid" 4 "[]"] by (simp_all add: snapshot_input_def)
  fix c1 c2 assume r: "recvall 8 c1 = (sint (8 :: u64), snapshot_input fl pid, c2)" "quiet c2"
  have d: "DispatchCommand E CMD_CREATETOOLHELP32SNAPSHOTEX a c1 = send_threads h a1 c2"
    using r assms(4) snapthread_bit [OF assms(3)]
    by (simp add: DispatchCommand_def cmd_defs not_supported_def cmd_snapshotex_def f)
  have "\<exists>c'. send_threads h a1 c2 = Some (a', c') \<and> quiet c' \<and> cn_in c' = cn_in c2 \<and>
      cn_out c' = cn_out c2 @ u32_bytes (word_of_nat (length ids)) @ concat (map u32_bytes ids)"
    using assms(5) r(2)
  proof (elim disjE conjE exE)
    fix th assume "raw h \<noteq> 0" "Api_CloseHandle h a1 = Some a'"
      "ap_heap a1 (GetPointerFromHandle h (ap_handles a1)) = Some (ThreadListObj th)"
      "threadCount th \<le> length (threadList th)" and t: "take (threadCount th) (threadList th) = ids"
    moreover from this have "threadCount th = length ids" by (simp flip: t)
    ultimately show ?thesis using r(2) t by (simp add: send_threads_def Let_def)
  qed (use r(2) in \<open>simp add: send_threads_def\<close>)
  then show "\<exists>c'. DispatchCommand E CMD_CREATETOOLHELP32SNAPSHOTEX a c1 = Some (a', c') \<and> quiet c' \<and>
      cn_in c' = cn_in c2 \<and> cn_out c' = cn_out c2 @ u32_bytes (word_of_nat (length ids)) @ concat (map u32_bytes ids)"
    by (simp only: d)
qed

text \<open>The thread list of the extended snapshot command, end to end: a client on a quiet connection
  gets the number of threads of the process and their numbers in the order of its task directory, however
  often the array had to grow, none for a process without such a directory; and the snapshot is
  gone afterwards: the objects and the meaning of every handle are as before the command.\<close>

theorem thread_list_reply:
  assumes "quiet c" "stream (cn_in c) = CMD_CREATETOOLHELP32SNAPSHOTEX # snapshot_input fl pid @ rest"
    and "fl AND TH32CS_SNAPPROCESS = 0" "fl AND TH32CS_SNAPMODULE = 0" "fl AND TH32CS_SNAPTHREAD \<noteq> 0"
    and "api_owns a" "new_fresh (sv_api E)"
    and "ae_new (sv_api E) (ap_heap a) = Some p" "rd_calls (ap_handles a) \<le> n"
    and "find_handle (draw_handle (ae_rd (sv_api E) n)) (ap_handles a) = None"
    and "ids = thread_ids (sv_api E) (ap_os a) pid"
  shows "\<exists>a' c'. thread_round E a c = Some (True, a', c') \<and> quiet c' \<and> stream (cn_in c') = rest \<and>
    cn_out c' = cn_out c @ u32_bytes (word_of_nat (length ids)) @ concat (map u32_bytes ids) \<and>
    ap_heap a' = ap_heap a \<and> (\<forall>k. find_handle k (ap_handles a') = find_handle k (ap_handles a))"
proof -
  have "\<exists>h a1 a'. CreateToolhelp32Snapshot (sv_api E) fl pid a = Some (h, a1) \<and>
      (raw h = 0 \<and> ids = [] \<and> a' = a1 \<or> raw h \<noteq> 0 \<and> Api_CloseHandle h a1 = Some a' \<and>
        (\<exists>th. ap_heap a1 (GetPointerFromHandle h (ap_handles a1)) = Some (ThreadListObj th) \<and>
          threadCount th \<le> length (threadList th) \<and> take (threadCount th) (threadList th) = ids)) \<and>
      ap_heap a' = ap_heap a \<and> (\<forall>k. find_handle k (ap_handles a') = find_handle k (ap_handles a))"
  proof (cases "pid = 0 \<or> ae_task (sv_api E) (ap_os a) pid = None")
    case True
    with assms(3-5,11) show ?thesis by (auto simp: CreateToolhelp32Snapshot_def thread_ids_def)
  next
    case False
    then obtain names where names: "ae_task (sv_api E) (ap_os a) pid = Some names" by auto
    let ?th = "\<lparr>ReferenceCount = 1, threadListIterator = ae_junk (sv_api E), threadCount = 0,
      threadList = replicate 64 (ae_junk (sv_api E))\<rparr>"
    obtain th where th: "thread_loop (sv_api E) names 64 ?th = Some th" "threadCount th \<le> length (threadList th)"
      "take (threadCount th) (threadList th) = ids"
      using thread_loop_list [of ?th 64 "sv_api E" names] names False by (auto simp: assms(11) thread_ids_def)
    obtain h t where h: "new_handle (sv_api E) (ThreadListObj th) a = Some (h, put_obj p (ThreadListObj th) (a\<lparr>ap_handles := t\<rparr>))"
      "GetPointerFromHandle h t = p" "raw h \<noteq> 0"
      using new_handle_ok [OF assms(6,8-10), of "ThreadListObj th"] by auto
    let ?a1 = "put_obj p (ThreadListObj th) (a\<lparr>ap_handles := t\<rparr>)"
    have hp: "ap_heap ?a1 (GetPointerFromHandle h (ap_handles ?a1)) = Some (ThreadListObj th)"
      using h(2) by (simp add: put_obj_def)
    then have same: "put_obj (GetPointerFromHandle h (ap_handles ?a1)) (ThreadListObj th) ?a1 = ?a1"
      by (simp add: put_obj_def fun_upd_idem)
    have "new_handle (sv_api E) (ThreadListObj th) (a\<lparr>ap_os := ap_os a\<rparr>) = Some (h, ?a1)" using h(1) by simp
    from snapshot_then_close [OF assms(6,7) this, of "ThreadListObj th"] same obtain t' where
      "Api_CloseHandle h ?a1 = Some (a\<lparr>ap_handles := t'\<rparr>)" "\<forall>k. find_handle k t' = find_handle k (ap_handles a)" by auto
    moreover have "CreateToolhelp32Snapshot (sv_api E) fl pid a = Some (h, ?a1)"
      using False assms(3-5) names th(1) h(1) by (simp add: CreateToolhelp32Snapshot_def)
    ultimately show ?thesis using hp th(2,3) h(3)
      by (intro exI [of _ h] exI [of _ ?a1] exI [of _ "a\<lparr>ap_handles := t'\<rparr>"]) auto
  qed
  then obtain h a1 a' where h: "CreateToolhelp32Snapshot (sv_api E) fl pid a = Some (h, a1)"
    "raw h = 0 \<and> ids = [] \<and> a' = a1 \<or> raw h \<noteq> 0 \<and> Api_CloseHandle h a1 = Some a' \<and>
        (\<exists>th. ap_heap a1 (GetPointerFromHandle h (ap_handles a1)) = Some (ThreadListObj th) \<and>
          threadCount th \<le> length (threadList th) \<and> take (threadCount th) (threadList th) = ids)"
    "ap_heap a' = ap_heap a" "\<forall>k. find_handle k (ap_handles a') = find_handle k (ap_handles a)" by blast
  have "stream (cn_in c) = (CMD_CREATETOOLHELP32SNAPSHOTEX # snapshot_input fl pid) @ rest" using assms(2) by simp
  with snapshotex_served [OF assms(3-5) h(1,2)] assms(1) h(3,4) show ?thesis unfolding serves_def by blast
qed

definition thread_script :: conn where
  "thread_script = \<lparr>cn_in = [Data (CMD_CREATETOOLHELP32SNAPSHOTEX # snapshot_input 4 7)], cn_send = [Accept 3],
     cn_out = [], cn_closes = 0, cn_exit = False\<rparr>"

theorem thread_list_reply_witness:
  "\<exists>a' c'. thread_round demo_srv demo_open thread_script = Some (True, a', c') \<and>
    cn_out c' = u32_bytes 2 @ u32_bytes 7 @ u32_bytes 9 \<and> ap_heap a' = ap_heap demo_open"
proof -
  have e: "sv_api demo_srv = demo_api" by (simp add: demo_srv_def)
  have q: "quiet thread_script" "stream (cn_in thread_script) = CMD_CREATETOOLHELP32SNAPSHOTEX # snapshot_input 4 7 @ []"
    by (simp_all add: thread_script_def quiet_def)
  have fl: "(4 :: u32) AND TH32CS_SNAPPROCESS = 0" "(4 :: u32) AND TH32CS_SNAPMODULE = 0" "(4 :: u32) AND TH32CS_SNAPTHREAD \<noteq> 0"
    by (simp_all add: TH32CS_SNAPPROCESS_def TH32CS_SNAPTHREAD_def TH32CS_SNAPMODULE_def)
  have f: "find_handle (draw_handle (ae_rd demo_api 1)) (ap_handles demo_open) = None"
    by (simp add: demo_api_sel draw_handle_demo find_handle_def demo_open_def demo_opened_def)
  have n: "ae_new demo_api (ap_heap demo_open) = Some 0x2000" "rd_calls (ap_handles demo_open) \<le> 1"
    by (simp_all add: demo_api_sel demo_open_def demo_opened_def)
  have ids: "[7, 9] = thread_ids demo_api (ap_os demo_open) 7"
    by (simp add: thread_ids_def demo_api_sel atoi_def is_digit_def is_space_def)
  from thread_list_reply [where E = demo_srv, unfolded e, OF q fl demo_open_owns demo_new_fresh n f ids]
  show ?thesis by (auto simp: thread_script_def)
qed

end
