(* ===== verification/Server_Unsupported.thy ===== *)
theory Server_Unsupported
  imports Server_Listing
begin

text \<open>
  The requests of CEServer/ceserver.h whose commands CEServer/main.cpp does not support: their handlers
  print a message and return without receiving the parameters, which the connection thread then takes
  for commands.
\<close>

section \<open>The requests\<close>

text \<open>The packed input structures as a client sends them.\<close>

definition set_breakpoint_input :: "HANDLE \<Rightarrow> u32 \<Rightarrow> u32 \<Rightarrow> u64 \<Rightarrow> u32 \<Rightarrow> u32 \<Rightarrow> byte list" where
  "set_breakpoint_input hProcess tid debugreg Address bptype bpsize =
     u32_bytes (raw hProcess) @ u32_bytes tid @ u32_bytes debugreg @ u64_bytes Address @ u32_bytes bptype @
     u32_bytes bpsize"

definition remove_breakpoint_input :: "HANDLE \<Rightarrow> u32 \<Rightarrow> u32 \<Rightarrow> u32 \<Rightarrow> byte list" where
  "remove_breakpoint_input hProcess tid debugreg wasWatchpoint =
     u32_bytes (raw hProcess) @ u32_bytes tid @ u32_bytes debugreg @ u32_bytes wasWatchpoint"

definition suspend_thread_input :: "HANDLE \<Rightarrow> u32 \<Rightarrow> byte list" where
  "suspend_thread_input hProcess tid = u32_bytes (raw hProcess) @ u32_bytes tid"

definition resume_thread_input :: "HANDLE \<Rightarrow> u32 \<Rightarrow> byte list" where
  "resume_thread_input hProcess tid = u32_bytes (raw hProcess) @ u32_bytes tid"

definition alloc_input :: "HANDLE \<Rightarrow> u64 \<Rightarrow> u32 \<Rightarrow> u32 \<Rightarrow> byte list" where
  "alloc_input hProcess preferedBase sz windowsprotection =
     u32_bytes (raw hProcess) @ u64_bytes preferedBase @ u32_bytes sz @ u32_bytes windowsprotection"

definition free_input :: "HANDLE \<Rightarrow> u64 \<Rightarrow> u32 \<Rightarrow> byte list" where
  "free_input hProcess address sz = u32_bytes (raw hProcess) @ u64_bytes address @ u32_bytes sz"

definition create_thread_input :: "HANDLE \<Rightarrow> u64 \<Rightarrow> u64 \<Rightarrow> byte list" where
  "create_thread_input hProcess startaddress parameter =
     u32_bytes (raw hProcess) @ u64_bytes startaddress @ u64_bytes parameter"

text \<open>The path follows its length.\<close>

definition load_module_input :: "HANDLE \<Rightarrow> byte list \<Rightarrow> byte list" where
  "load_module_input hProcess modulepath =
     u32_bytes (raw hProcess) @ u32_bytes (word_of_nat (length modulepath)) @ modulepath"

text \<open>The speed is the four bytes of a float.\<close>

definition speedhack_input :: "HANDLE \<Rightarrow> u32 \<Rightarrow> byte list" where
  "speedhack_input hProcess speed = u32_bytes (raw hProcess) @ u32_bytes speed"

datatype unsupported =
    SetBreakpoint HANDLE u32 u32 u64 u32 u32
  | RemoveBreakpoint HANDLE u32 u32 u32
  | SuspendThread HANDLE u32
  | ResumeThread HANDLE u32
  | AllocMemory HANDLE u64 u32 u32
  | FreeMemory HANDLE u64 u32
  | StartThread HANDLE u64 u64
  | LoadModule HANDLE "byte list"
  | SetSpeed HANDLE u32

fun encode_request :: "unsupported \<Rightarrow> byte \<times> byte list" where
  "encode_request (SetBreakpoint h tid reg ad ty sz) = (CMD_SETBREAKPOINT, set_breakpoint_input h tid reg ad ty sz)"
| "encode_request (RemoveBreakpoint h tid reg w) = (CMD_REMOVEBREAKPOINT, remove_breakpoint_input h tid reg w)"
| "encode_request (SuspendThread h tid) = (CMD_SUSPENDTHREAD, suspend_thread_input h tid)"
| "encode_request (ResumeThread h tid) = (CMD_RESUMETHREAD, resume_thread_input h tid)"
| "encode_request (AllocMemory h ad sz pr) = (CMD_ALLOC, alloc_input h ad sz pr)"
| "encode_request (FreeMemory h ad sz) = (CMD_FREE, free_input h ad sz)"
| "encode_request (StartThread h ad par) = (CMD_CREATETHREAD, create_thread_input h ad par)"
| "encode_request (LoadModule h path) = (CMD_LOADMODULE, load_module_input h path)"
| "encode_request (SetSpeed h speed) = (CMD_SPEEDHACK_SETSPEED, speedhack_input h speed)"

fun request_handle :: "unsupported \<Rightarrow> HANDLE" where
  "request_handle (SetBreakpoint h tid reg ad ty sz) = h"
| "request_handle (RemoveBreakpoint h tid reg w) = h"
| "request_handle (SuspendThread h tid) = h"
| "request_handle (ResumeThread h tid) = h"
| "request_handle (AllocMemory h ad sz pr) = h"
| "request_handle (FreeMemory h ad sz) = h"
| "request_handle (StartThread h ad par) = h"
| "request_handle (LoadModule h path) = h"
| "request_handle (SetSpeed h speed) = h"

lemmas request_inputs = set_breakpoint_input_def remove_breakpoint_input_def suspend_thread_input_def
  resume_thread_input_def alloc_input_def free_input_def create_thread_input_def load_module_input_def speedhack_input_def

section \<open>How they are served\<close>

lemma u32_bytes_first: "\<exists>bs. u32_bytes w = ucast w # bs"
  using le_bytes.simps(2) [of 3 "unat w"] by (simp add: u32_bytes_def)

lemma request_first: "\<exists>bs. snd (encode_request rq) = ucast (raw (request_handle rq)) # bs"
  using u32_bytes_first [of "raw (request_handle rq)"] by (cases rq) (auto simp: request_inputs)

lemma request_not_supported: "not_supported (fst (encode_request rq))"
  by (cases rq) (simp_all add: not_supported_def)

text \<open>A command that reads nothing.\<close>

lemma round_byte:
  assumes "quiet c" "stream (cn_in c) = cmd # rest"
  obtains c1 where "recvall 1 c = (1, [cmd], c1)" "quiet c1" "stream (cn_in c1) = rest" "cn_out c1 = cn_out c"
  by (rule quiet_recv [OF assms(1), of "[cmd]" rest 1]) (use assms(2) in simp_all)

lemma dispatch_unsupported:
  assumes "not_supported cmd"
  shows "DispatchCommand E cmd a c = Some (a, c)"
proof -
  have "cmd \<notin> {CMD_GETVERSION, CMD_GETARCHITECTURE, CMD_CLOSECONNECTION, CMD_TERMINATESERVER}"
    using assms by (auto simp: not_supported_def cmd_defs)
  with assms show ?thesis by (simp add: DispatchCommand_def)
qed


lemma dispatch_control:
  "DispatchCommand E CMD_TERMINATESERVER a c = Some (a, (close_conn c)\<lparr>cn_exit := True\<rparr>)"
  "DispatchCommand E CMD_GETVERSION a c = Some (a, cmd_getversion c)"
  by (simp_all add: DispatchCommand_def cmd_defs)

text \<open>C14. A request of one of the unsupported kinds is served as its command byte alone: nothing is answered
  and the parameters stay in the stream, so the next command is the low byte of the process handle.
  Where that is the code of the terminate command the server exits, and where it is that of the version
  command the client receives a version it did not ask for.\<close>

theorem unsupported_request_misread:
  assumes "quiet c" "stream (cn_in c) = fst (encode_request rq) # snd (encode_request rq) @ rest"
  shows "\<exists>c1. thread_round E a c = Some (True, a, c1) \<and> quiet c1 \<and> cn_out c1 = cn_out c \<and>
    stream (cn_in c1) = snd (encode_request rq) @ rest \<and>
    (ucast (raw (request_handle rq)) = CMD_TERMINATESERVER \<longrightarrow>
      (\<exists>c2. thread_round E a c1 = Some (False, a, c2) \<and> cn_exit c2)) \<and>
    (ucast (raw (request_handle rq)) = CMD_GETVERSION \<longrightarrow>
      (\<exists>c2. thread_round E a c1 = Some (True, a, c2) \<and>
        cn_out c2 = cn_out c @ CeVersion 6 (word_of_nat (length versionstring)) @ versionstring))"
proof -
  obtain c1 where c1: "recvall 1 c = (1, [fst (encode_request rq)], c1)" "quiet c1"
    "stream (cn_in c1) = snd (encode_request rq) @ rest" "cn_out c1 = cn_out c"
    by (rule round_byte [OF assms])
  have r1: "thread_round E a c = Some (True, a, c1)"
    by (simp add: thread_round_def c1(1) dispatch_unsupported [OF request_not_supported] quiet_open [OF c1(2)])
  obtain bs where bs: "snd (encode_request rq) = ucast (raw (request_handle rq)) # bs" using request_first by blast
  with c1(3) have "stream (cn_in c1) = ucast (raw (request_handle rq)) # bs @ rest" by simp
  from round_byte [OF c1(2) this] obtain c2 where c2: "recvall 1 c1 = (1, [ucast (raw (request_handle rq))], c2)"
    "quiet c2" "cn_out c2 = cn_out c1" by blast
  have t: "\<exists>c2. thread_round E a c1 = Some (False, a, c2) \<and> cn_exit c2"
    if "ucast (raw (request_handle rq)) = CMD_TERMINATESERVER"
    using c2(1) unfolding that by (simp add: thread_round_def dispatch_control)
  have v: "\<exists>c2. thread_round E a c1 = Some (True, a, c2) \<and>
      cn_out c2 = cn_out c @ CeVersion 6 (word_of_nat (length versionstring)) @ versionstring"
    if "ucast (raw (request_handle rq)) = CMD_GETVERSION"
    using c2 c1(4) quiet_open [OF quiet_sends(1) [OF c2(2)]] unfolding that
    by (simp add: thread_round_def dispatch_control cmd_getversion_def)
  from r1 c1(2-4) t v show ?thesis by blast
qed

text \<open>A client that suspends a thread of the process with handle 10242.\<close>

definition suspend_script :: conn where
  "suspend_script = \<lparr>cn_in = [Data (CMD_SUSPENDTHREAD # suspend_thread_input (HANDLE 10242) 7)], cn_send = [], cn_out = [],
     cn_closes = 0, cn_exit = False\<rparr>"

theorem unsupported_request_misread_witness:
  "\<exists>c1 c2. thread_round demo_srv demo_open suspend_script = Some (True, demo_open, c1) \<and>
    thread_round demo_srv demo_open c1 = Some (False, demo_open, c2) \<and> cn_exit c2"
proof -
  have "quiet suspend_script" by (simp add: quiet_def suspend_script_def)
  from unsupported_request_misread [OF this, of "SuspendThread (HANDLE 10242) 7" "[]" demo_srv demo_open]
  show ?thesis by (auto simp: suspend_script_def CMD_TERMINATESERVER_def)
qed

end
