(* ===== verification/Server_Main.thy ===== *)
theory Server_Main
  imports Server_Conns
begin

text \<open>
  The server's \<open>main\<close> (CEServer/main.cpp): connect to the driver, bind, listen, and start a thread
  for every connection accepted. The answers of \<open>bind\<close> and \<open>accept\<close> are arguments; the threads run
  between two accepts as in \<open>server_step\<close>.
\<close>

section \<open>The program\<close>

text \<open>The descriptors \<open>accept\<close> returns, each with what its connection will do.\<close>

fun accept_loop :: "(int \<times> conn) list \<Rightarrow> 's server \<Rightarrow> 's server" where
  "accept_loop [] sv = sv"
| "accept_loop ((a, c) # as) sv =
     accept_loop as (if a \<noteq> -1 then sv\<lparr>sr_conns := sr_conns sv @ [c]\<rparr> else sv)"

text \<open>\<open>None\<close>: \<open>main\<close> has returned, without a driver or without its port.\<close>

definition server_main ::
    "('s, 'z) srvenv \<Rightarrow> string option \<Rightarrow> reader \<Rightarrow> 's \<Rightarrow> int \<Rightarrow> (int \<times> conn) list \<Rightarrow> 's server option" where
  "server_main E argv1 r s b accepted =
     (case start_server E argv1 r s of
        None \<Rightarrow> None
      | Some sv \<Rightarrow> if b \<noteq> -1 then Some (accept_loop accepted sv) else None)"

definition fresh_conn :: "conn \<Rightarrow> bool" where "fresh_conn c \<longleftrightarrow> cn_closes c = 0 \<and> \<not> cn_exit c"

lemma accept_loop_steps:
  "\<forall>(a, c) \<in> set as. fresh_conn c \<Longrightarrow> (server_step E)\<^sup>*\<^sup>* sv (accept_loop as sv)"
proof (induction as sv rule: accept_loop.induct)
  case (2 a c as sv)
  have "(server_step E)\<^sup>*\<^sup>* sv (if a \<noteq> -1 then sv\<lparr>sr_conns := sr_conns sv @ [c]\<rparr> else sv)"
    using 2(2) by (auto intro: server_step.accept simp: fresh_conn_def)
  moreover have "(server_step E)\<^sup>*\<^sup>* (if a \<noteq> -1 then sv\<lparr>sr_conns := sr_conns sv @ [c]\<rparr> else sv) (accept_loop ((a, c) # as) sv)"
    using 2 by auto
  ultimately show ?case by (rule rtranclp_trans)
qed simp

lemma accept_loop_api: "sr_api (accept_loop as sv) = sr_api sv"
  by (induction as sv rule: accept_loop.induct) auto

lemma accept_loop_conns:
  "sr_conns (accept_loop as sv) = sr_conns sv @ map snd (filter (\<lambda>(a, c). a \<noteq> -1) as)"
  by (induction as sv rule: accept_loop.induct) auto

section \<open>The node of the driver\<close>

lemma connect_kernel:
  assumes "ae_drv (sv_api E) = kernel_drv u K" "m_nDriverLink r < 0"
  shows "start_server E argv1 r w =
    (if argv1 = Some ''/dev/rwmem'' then Some \<lparr>sr_api = (api_start r w)\<lparr>m_Driver := r\<lparr>m_nDriverLink := 3,
        m_bUseBypassSELinuxMode := False\<rparr>\<rparr>, sr_conns = []\<rparr> else None)"
proof (cases argv1)
  case None
  with assms show ?thesis
    by (simp add: start_server_def InitReadWriteDriver_def ConnectDriver_def drv_connect_def api_start_def
        kernel_drv_def RWPROCMEM_FILE_NODE_def EACCES_def)
next
  case (Some path)
  with assms show ?thesis
    by (simp add: start_server_def InitReadWriteDriver_def ConnectDriver_def drv_connect_def api_start_def
        kernel_drv_def EACCES_def)
qed



end
