(* ===== verification/Server_Faults.thy ===== *)
theory Server_Faults
  imports Server_Conns
begin

text \<open>
  Which requests make the server (CEServer/main.cpp over the driver's model) run into undefined
  behaviour. A handler's value \<open>None\<close> is an access outside an object, a wrong cast or a walk past a
  list's end; the theorem at the end names every way to it.
\<close>

section \<open>The causes\<close>

definition cursor_at_end :: "handleType \<Rightarrow> HANDLE \<Rightarrow> 's api \<Rightarrow> bool" where
  "cursor_at_end ty h a \<longleftrightarrow> GetHandleType h (ap_handles a) = ty \<and>
     (case ap_heap a (GetPointerFromHandle h (ap_handles a)) of
        Some (CeProcessList v i) \<Rightarrow> length v \<le> i
      | Some (CeModuleList v i) \<Rightarrow> length v \<le> i
      | _ \<Rightarrow> False)"

text \<open>A command with the parameters received, in a state of the server.\<close>

section \<open>The operations that cannot fault\<close>

text \<open>What the server relies on besides its own state: the driver is connected without the bypass, and
  a handle can be made.\<close>

definition served :: "('s, 'z) srvenv \<Rightarrow> 's api \<Rightarrow> bool" where
  "served E a \<longleftrightarrow> api_owns a \<and> new_fresh (sv_api E) \<and> \<not> m_bUseBypassSELinuxMode (m_Driver a) \<and>
     (\<forall>ob. new_handle (sv_api E) ob a \<noteq> None)"

lemma close_total: "api_owns a \<Longrightarrow> Api_CloseHandle h a \<noteq> None"
  using close_handle_ok [of a h] by auto

lemma first_total: "api_owns a \<Longrightarrow> Process32First h a \<noteq> None" "api_owns a \<Longrightarrow> Module32First h a \<noteq> None"
  by (auto simp: Process32First_def Module32First_def Let_def dest: handle_kinds)

lemma next_fault:
  "api_owns a \<Longrightarrow> Process32Next h a = None \<Longrightarrow> cursor_at_end htTHSProcess h a"
  "api_owns a \<Longrightarrow> Module32Next h a = None \<Longrightarrow> cursor_at_end htTHSModule h a"
  by (auto simp: Process32Next_def Module32Next_def cursor_at_end_def Let_def dest: handle_kinds split: if_splits)

lemma open_total:
  assumes "served E a"
  shows "Api_OpenProcess (sv_api E) pid a \<noteq> None"
  using assms find_pid_result [of a pid]
  by (auto simp: Api_OpenProcess_def served_def Let_def split: if_splits)

lemma list_kernel:
  assumes "\<not> m_bUseBypassSELinuxMode r"
  shows "VirtualQueryExFull (kernel_drv u K) r h showPhy w = Some (False, [], None, w)"
proof (cases "0 \<le> m_nDriverLink r \<and> h \<noteq> 0")
  case True
  with client_list_refused [of r h] assms show ?thesis by simp
qed (auto simp: VirtualQueryExFull_def)

lemma refresh_kernel:
  assumes "ae_drv E = kernel_drv u K" "\<not> m_bUseBypassSELinuxMode (m_Driver a)"
  shows "refresh_maps E op a \<noteq> None"
  by (simp add: refresh_maps_def assms(1) list_kernel [OF assms(2)])

lemma query_total:
  assumes "ae_drv E = kernel_drv u K" "\<not> m_bUseBypassSELinuxMode (m_Driver a)" "api_owns a"
  shows "Api_VirtualQueryExFull E h fl v a \<noteq> None" "Api_VirtualQueryEx E h addr ri nm a \<noteq> None"
proof -
  have r: "refresh_maps E op (a\<lparr>ap_os := s\<rparr>) \<noteq> None" "refresh_maps E op a \<noteq> None" for op s
    using assms(2) by (auto simp: refresh_kernel [OF assms(1)])
  show "Api_VirtualQueryExFull E h fl v a \<noteq> None"
    using handle_kinds(3) [OF assms(3), of h] r(2)
    by (auto simp: Api_VirtualQueryExFull_def Let_def split: option.splits)
  show "Api_VirtualQueryEx E h addr ri nm a \<noteq> None"
  proof (cases "GetHandleType h (ap_handles a) = htProcesHandle")
    case True
    from handle_kinds(3) [OF assms(3) True] obtain op where
      op: "ap_heap a (GetPointerFromHandle h (ap_handles a)) = Some (OpenProcessObj op)" by blast
    obtain tv tn s where clk: "ae_clock E (ap_os a) = (tv, tn, s)" by (metis prod_cases3)
    obtain op1 a1 where "refresh_maps E op (a\<lparr>ap_os := s\<rparr>) = Some (op1, a1)"
      using r(1) [of op s] by fastforce
    with True op clk show ?thesis by (simp add: Api_VirtualQueryEx_def Let_def split_beta del: not_None_eq)
  qed (simp add: Api_VirtualQueryEx_def)
qed

section \<open>Memory\<close>

lemma kernel_read_count:
  assumes "n < 2 ^ 63"
  shows "read_ret (fst (rwmem_read K u n s)) \<le> uint n"
proof (cases rule: rwmem_read_cases [of K u n s])
  case (moved p r s1)
  have "r \<le> n"
    using rd.loop_result_bounds [of 0 n K p "hd_addr (request K u s)" u "hd_force (request K u s)" "get_pid p s"] moved
    by simp
  from sint_bounds [OF this assms] have "sint r \<le> uint n" "0 \<le> sint r" using \<open>r \<le> n\<close> by (simp_all add: word_le_def)
  with moved(1) show ?thesis by (simp add: read_ret_def)
qed (use uint_ge_0 [of n] in \<open>simp_all add: read_ret_def EFAULT_def EINVAL_def order_trans [of "-1" 0]\<close>)

lemma read_count:
  assumes "ReadProcessMemory (kernel_drv u K) r h va buf n f w = (ok, buf', Some k, w')" "n < 2 ^ 63"
  shows "0 < k \<and> k \<le> uint n"
proof -
  have le: "fst (os_read (kernel_drv u K) fd b n s) \<le> uint n" for fd b s
    using kernel_read_count [OF assms(2)] by (simp add: kernel_drv_def split_beta)
  have "\<exists>fd b. k = fst (os_read (kernel_drv u K) fd b n w) \<and> 0 < k"
    using assms(1) by (auto simp: ReadProcessMemory_def Let_def split_beta split: if_splits)
  with le show ?thesis by auto
qed

lemma sint_sizes:
  assumes "0 \<le> sint (sz :: u32)"
  shows "sint sz = int (unat sz)" "scast sz = (word_of_nat (unat sz) :: u64)" "unat (scast sz :: u64) = unat sz"
    "unat sz < 2 ^ 31"
proof -
  have "sint sz < 2 ^ 31" using sint_lt [of sz] by simp
  moreover from this have "uint sz = sint sz"
    using assms by (simp add: uint_sint take_bit_int_eq_self)
  then show s: "sint sz = int (unat sz)" by simp
  ultimately have "int (unat sz) < int (2 ^ 31)" by (simp only: of_nat_power) simp
  then show l: "unat sz < 2 ^ 31" by (simp only: of_nat_less_iff)
  show c: "scast sz = (word_of_nat (unat sz) :: u64)" by (rule scast_small [OF l])
  have "unat (word_of_nat (unat sz) :: u64) = unat sz" by (rule unat_u64_of_nat) (use l in simp)
  then show "unat (scast sz :: u64) = unat sz" by (simp only: c)
qed

lemma put_bytes_longer: "length buf \<le> length (put_bytes off bs buf)"
  by (simp add: put_bytes_def)

lemma read_buffer:
  assumes "ReadProcessMemory (kernel_drv u K) r h va buf n f w = (ok, buf', k, w')"
  shows "length buf \<le> length buf'"
proof -
  have l: "length (fst (snd (os_read (kernel_drv u K) fd b n w))) = length b" for fd b
    by (simp add: kernel_drv_def split_beta)
  have h: "length b \<le> length (put_header h va f b)" for b
    unfolding put_header_def by (meson order_trans put_bytes_longer)
  show ?thesis
    using assms h [of buf] l [of _ "put_header h va f buf"]
    by (auto simp: ReadProcessMemory_def Let_def split_beta put_bytes_longer split: if_splits)
qed

lemma api_read_total:
  assumes "api_owns a" "ae_drv E = kernel_drv u K" "0 \<le> sint sz"
  shows "\<exists>got buf' a'. Api_ReadProcessMemory E h va buf sz a = Some (got, buf', a') \<and>
    unat got \<le> unat sz \<and> length buf \<le> length buf'"
proof (cases "GetHandleType h (ap_handles a) = htProcesHandle")
  case True
  from handle_kinds(3) [OF assms(1) True] obtain op where
    op: "ap_heap a (GetPointerFromHandle h (ap_handles a)) = Some (OpenProcessObj op)" by blast
  obtain ok buf' bread w where r: "ReadProcessMemory (kernel_drv u K) (m_Driver a) (u64DriverProcessHandle op) va buf
      (scast sz) 0 (ap_os a) = (ok, buf', bread, w)" by (metis prod_cases4)
  have "unat ((case bread of None \<Rightarrow> 0 | Some n \<Rightarrow> word_of_int n) :: u32) \<le> unat sz"
  proof (cases bread)
    case (Some k)
    have "scast sz < (2 ^ 63 :: u64)" using sint_sizes(3,4) [OF assms(3)] by (simp add: word_less_nat_alt)
    from read_count [OF r [unfolded Some] this] sint_sizes(3) [OF assms(3)] have k: "0 < k" "k \<le> int (unat sz)"
      by (metis, metis uint_nat)
    have "unat sz < 2147483648" using sint_sizes(4) [OF assms(3)] by simp
    with k have "0 \<le> k" "k < 4294967296" by linarith+
    then have "unat (word_of_int k :: u32) = nat k" by (simp add: unsigned_of_int take_bit_int_eq_self)
    with Some k show ?thesis by (simp add: nat_le_iff)
  qed simp
  with True op r assms(2) read_buffer [OF r] show ?thesis by (simp add: Api_ReadProcessMemory_def)
qed (simp add: Api_ReadProcessMemory_def)

lemma api_write_total:
  assumes "api_owns a" "0 \<le> sint sz" "sint sz + 17 < 2 ^ 31"
  shows "Api_WriteProcessMemory E h va buf sz a \<noteq> None"
proof (cases "GetHandleType h (ap_handles a) = htProcesHandle")
  case True
  from handle_kinds(3) [OF assms(1) True] obtain op where
    op: "ap_heap a (GetPointerFromHandle h (ap_handles a)) = Some (OpenProcessObj op)" by blast
  let ?n = "scast sz :: u64"
  note z = sint_sizes [OF assms(2)]
  have un: "unat (?n + 17) = unat ?n + 17" using unat_add_of_nat [of ?n 17] z by simp
  have ais: "as_int_size (?n + 17) = ?n + 17"
  proof (rule as_int_size_small)
    have "int (unat sz) + 17 < 2147483648" using assms(3) by (simp add: z(1))
    then have "unat sz + 17 < 2147483648" by linarith
    then show "unat (?n + 17) < 2 ^ 31" using un z(3) by simp
  qed
  have "\<not> (?n + 17 \<ge> 2 ^ 63 \<or> unat (?n + 17) < 17 + unat ?n)"
    using un z by (simp add: word_le_nat_alt)
  then have "WriteProcessMemory D r hp va buf ?n f s \<noteq> None" for D :: "'a drv" and r hp f s
    unfolding WriteProcessMemory_def Let_def ais by (simp add: split_beta del: not_None_eq)
  with True op show ?thesis by (auto simp: Api_WriteProcessMemory_def split: option.splits)
qed (simp add: Api_WriteProcessMemory_def)

section \<open>Snapshots\<close>

lemma new_handle_kind:
  assumes "new_handle E ob a = Some (h, a')" "api_owns a"
  shows "GetHandleType h (ap_handles a') = kind_of ob \<and>
    ap_heap a' (GetPointerFromHandle h (ap_handles a')) = Some ob"
proof -
  have w: "handles_wf (ap_handles a)" using assms(2) by (simp add: api_owns_def)
  obtain p t where n: "CreateHandleFromPointer (ae_rd E) p (kind_of ob) (ap_handles a) = Some (h, t)"
    "a' = put_obj p ob (a\<lparr>ap_handles := t\<rparr>)" by (rule new_handle_unfold [OF assms(1)])
  from ht.create_find [OF w n(1)] show ?thesis by (simp add: n(2) handle_sel put_obj_def)
qed

text \<open>What a snapshot is, by the flags that ask for it.\<close>

lemma snapshot_result:
  assumes "served E a" "ae_drv (sv_api E) = kernel_drv u K"
    and "fl AND TH32CS_SNAPPROCESS = 0 \<or> GetProcessListInfo (sv_api E) False [] (ap_os a) \<noteq> None"
  shows "\<exists>h a'. CreateToolhelp32Snapshot (sv_api E) fl pid a = Some (h, a') \<and> api_owns a' \<and>
    (raw h = 0 \<or>
     (if fl AND TH32CS_SNAPPROCESS \<noteq> 0 then GetHandleType h (ap_handles a') = htTHSProcess
      else \<exists>th. ap_heap a' (GetPointerFromHandle h (ap_handles a')) = Some (ThreadListObj th) \<and>
        threadCount th \<le> length (threadList th)))"
proof -
  have own: "api_owns a" "new_fresh (sv_api E)" and nb: "\<not> m_bUseBypassSELinuxMode (m_Driver a)"
    and new: "\<exists>h a'. new_handle (sv_api E) ob a = Some (h, a')" for ob
    using assms(1) by (auto simp: served_def)
  have "\<exists>h a'. CreateToolhelp32Snapshot (sv_api E) fl pid a = Some (h, a') \<and>
    (raw h = 0 \<or>
     (if fl AND TH32CS_SNAPPROCESS \<noteq> 0 then GetHandleType h (ap_handles a') = htTHSProcess
      else \<exists>th. ap_heap a' (GetPointerFromHandle h (ap_handles a')) = Some (ThreadListObj th) \<and>
        threadCount th \<le> length (threadList th)))"
  proof (cases "fl AND TH32CS_SNAPPROCESS \<noteq> 0")
    case True
    from assms(3) True obtain ok v where "GetProcessListInfo (sv_api E) False [] (ap_os a) = Some (ok, v)" by auto
    moreover obtain h a' where "new_handle (sv_api E) (CeProcessList v 0) a = Some (h, a')" using new by blast
    ultimately show ?thesis
      using True new_handle_kind [OF _ own(1)] by (fastforce simp: CreateToolhelp32Snapshot_def)
  next
    case np: False
    show ?thesis
    proof (cases "fl AND TH32CS_SNAPMODULE \<noteq> 0")
      case True
      obtain hm where hm: "FindHandleByPID (pid_at (ap_heap a)) pid (ap_handles a) = Some hm"
        "hm = HANDLE 0 \<or> (\<exists>i. find_handle hm (ap_handles a) = Some i \<and> hi_type i = htProcesHandle)"
        using find_pid_result [OF own(1), of pid] by (metis (full_types))
      show ?thesis
      proof (cases "raw hm = 0")
        case False
        with hm(2) have "GetHandleType hm (ap_handles a) = htProcesHandle" by (auto simp: handle_sel)
        from handle_kinds(3) [OF own(1) this] obtain op where
          "ap_heap a (GetPointerFromHandle hm (ap_handles a)) = Some (OpenProcessObj op)" by blast
        with np True False hm(1) list_kernel [OF nb] assms(2) show ?thesis
          by (simp add: CreateToolhelp32Snapshot_def)
      qed (use np True hm(1) in \<open>simp add: CreateToolhelp32Snapshot_def\<close>)
    next
      case nm: False
      show ?thesis
      proof (cases "fl AND TH32CS_SNAPTHREAD \<noteq> 0 \<and> pid \<noteq> 0 \<and> ae_task (sv_api E) (ap_os a) pid \<noteq> None")
        case True
        then obtain names where names: "ae_task (sv_api E) (ap_os a) pid = Some names" by auto
        let ?th = "\<lparr>ReferenceCount = 1, threadListIterator = ae_junk (sv_api E), threadCount = 0,
          threadList = replicate 64 (ae_junk (sv_api E))\<rparr>"
        obtain th where th: "thread_loop (sv_api E) names 64 ?th = Some th" "threadCount th \<le> length (threadList th)"
          using thread_loop_list [of ?th 64 "sv_api E" names] by auto
        obtain h a' where n: "new_handle (sv_api E) (ThreadListObj th) a = Some (h, a')" using new by blast
        with True np nm names th new_handle_kind [OF n own(1)] show ?thesis
          by (simp add: CreateToolhelp32Snapshot_def)
      qed (use np nm in \<open>auto simp: CreateToolhelp32Snapshot_def\<close>)
    qed
  qed
  then show ?thesis using snapshot_owns [OF own(2,1)] by blast
qed

section \<open>The handlers\<close>

text \<open>A handler that faults has received its parameters, and they are at fault.\<close>

definition received :: "conn \<Rightarrow> (byte list \<Rightarrow> bool) \<Rightarrow> bool" where
  "received c P \<longleftrightarrow> (\<exists>n r inp c1. recvall n c = (r, inp, c1) \<and> 0 < r \<and> P inp)"

lemma receivedI: "recvall n c = (r, inp, c1) \<Longrightarrow> 0 < r \<Longrightarrow> P inp \<Longrightarrow> received c P"
  by (auto simp: received_def)

lemma simple_faults:
  assumes "served E a"
  shows "cmd_closehandle a c \<noteq> None" "cmd_openprocess E a c \<noteq> None"
    "cmd_process32 True a c \<noteq> None" "cmd_module32 True a c \<noteq> None"
    "cmd_process32 False a c = None \<Longrightarrow> received c (\<lambda>inp. cursor_at_end htTHSProcess (HANDLE (u32_of inp)) a)"
    "cmd_module32 False a c = None \<Longrightarrow> received c (\<lambda>inp. cursor_at_end htTHSModule (HANDLE (u32_of inp)) a)"
proof -
  have own: "api_owns a" using assms by (simp add: served_def)
  obtain r inp c1 where rc: "recvall 4 c = (r, inp, c1)" by (metis prod_cases3)
  show "cmd_closehandle a c \<noteq> None" using close_total [OF own, of "HANDLE (u32_of inp)"]
    by (auto simp: cmd_closehandle_def rc split: option.splits)
  show "cmd_openprocess E a c \<noteq> None" using open_total [OF assms, of "u32_of inp"]
    by (auto simp: cmd_openprocess_def rc split: option.splits)
  show "cmd_process32 True a c \<noteq> None" using first_total(1) [OF own, of "HANDLE (u32_of inp)"]
    by (auto simp: cmd_process32_def rc split: option.splits)
  show "cmd_module32 True a c \<noteq> None" using first_total(2) [OF own, of "HANDLE (u32_of inp)"]
    by (auto simp: cmd_module32_def rc split: option.splits)
  show "cmd_process32 False a c = None \<Longrightarrow> received c (\<lambda>inp. cursor_at_end htTHSProcess (HANDLE (u32_of inp)) a)"
    using next_fault(1) [OF own, of "HANDLE (u32_of inp)"]
    by (auto simp: cmd_process32_def rc split: if_splits option.splits prod.splits intro!: receivedI [OF rc])
  show "cmd_module32 False a c = None \<Longrightarrow> received c (\<lambda>inp. cursor_at_end htTHSModule (HANDLE (u32_of inp)) a)"
    using next_fault(2) [OF own, of "HANDLE (u32_of inp)"]
    by (auto simp: cmd_module32_def rc split: if_splits option.splits prod.splits intro!: receivedI [OF rc])
qed

lemma symbols_fault:
  "cmd_symbols a c = None \<Longrightarrow> received c (\<lambda>inp. u32_of inp + 1 < 5)"
proof -
  obtain r inp c1 where rc: "recvall 4 c = (r, inp, c1)" by (metis prod_cases3)
  obtain r2 p c2 where rc2: "recvall (ucast (u32_of inp)) c1 = (r2, p, c2)" by (metis prod_cases3)
  assume "cmd_symbols a c = None"
  then have "0 < r \<and> (u32_of inp + 1 = 0 \<or> u32_of inp + 1 < 5)"
    unfolding cmd_symbols_def Let_def rc prod.case rc2
    by (simp only: option.distinct split: if_split_asm) (simp_all only: simp_thms)
  then have "0 < r" "u32_of inp + 1 < 5" by (auto simp: word_less_nat_alt)
  with rc show ?thesis by (rule receivedI)
qed

lemma aobscan_fault:
  "cmd_aobscan a c = None \<Longrightarrow> received c (\<lambda>inp. sint (u32_of (get_bytes 28 4 inp)) < 0)"
proof -
  obtain r inp c1 where rc: "recvall 32 c = (r, inp, c1)" by (metis prod_cases3)
  let ?n = "u32_of (get_bytes 28 4 inp)"
  obtain r2 d c2 where rc2: "recvall (scast (?n * 2)) c1 = (r2, d, c2)" by (metis prod_cases3)
  assume "cmd_aobscan a c = None"
  then have "0 < r \<and> sint ?n < 0"
    unfolding cmd_aobscan_def Let_def rc prod.case rc2
    by (simp only: option.distinct split: if_split_asm)
  then have "0 < r" "sint ?n < 0" by (simp_all only:)
  with rc show ?thesis by (rule receivedI)
qed

lemma read_fault:
  assumes "api_owns a" "ae_drv (sv_api E) = kernel_drv u K"
    and "\<forall>level. zlib_ok (sv_zlib E) inflate open taken given bound level" "cmd_readmemory E a c = None"
  shows "received c (\<lambda>inp. sint (u32_of (get_bytes 12 4 inp)) < 0)"
proof -
  obtain r inp c1 where rc: "recvall 17 c = (r, inp, c1)" by (metis prod_cases3)
  let ?sz = "u32_of (get_bytes 12 4 inp)"
  show ?thesis
  proof (rule ccontr)
    assume "\<not> ?thesis"
    then have n: "0 < r \<Longrightarrow> 0 \<le> sint ?sz"
      using receivedI [OF rc, where P = "\<lambda>inp. sint (u32_of (get_bytes 12 4 inp)) < 0"] by (meson not_le)
    have r: "0 < r" using assms(4) rc by (auto simp: cmd_readmemory_def split: if_splits)
    obtain got buf' a' where g: "Api_ReadProcessMemory (sv_api E) (HANDLE (u32_of (get_bytes 0 4 inp)))
        (u64_of (get_bytes 4 8 inp)) (replicate (unat ?sz) 0) ?sz a = Some (got, buf', a')" "unat got \<le> unat ?sz" "unat ?sz \<le> length buf'"
      using api_read_total [OF assms(1,2) n [OF r], of "HANDLE (u32_of (get_bytes 0 4 inp))"
          "u64_of (get_bytes 4 8 inp)" "replicate (unat ?sz) 0"] by (auto simp only: length_replicate)
    obtain st where "compress_data (sv_zlib E) (inp ! 16) ?sz (take (unat got) buf') = Some st"
      using compress_data_ok [OF assms(3) [rule_format]] by blast
    with assms(4) r g show False by (simp add: cmd_readmemory_def rc Let_def split: if_splits)
  qed
qed

lemma write_fault:
  assumes "api_owns a" "cmd_writememory E a c = None"
  shows "received c (\<lambda>inp. 2 ^ 31 \<le> sint (u32_of (get_bytes 12 4 inp)) + 17)"
proof -
  obtain r inp c1 where rc: "recvall 16 c = (r, inp, c1)" by (metis prod_cases3)
  let ?sz = "u32_of (get_bytes 12 4 inp)"
  obtain r2 buf c2 where rc2: "recvall (scast ?sz) c1 = (r2, buf, c2)" by (metis prod_cases3)
  from assms(2) have r: "0 < r" "0 < r2" and
    n: "Api_WriteProcessMemory (sv_api E) (HANDLE (u32_of (get_bytes 0 4 inp))) (u64_of (get_bytes 4 8 inp)) buf ?sz a = None"
    by (auto simp: cmd_writememory_def rc rc2 Let_def split: if_splits option.splits)
  have "0 \<le> sint (scast ?sz :: u64)" using recvall_ok(3) [OF rc2 r(2)] r(2) by simp
  then have "0 \<le> sint ?sz" by (simp add: sint_up_scast is_up)
  with api_write_total [OF assms(1) this] n have "2 ^ 31 \<le> sint ?sz + 17" by (metis not_le)
  with rc r(1) show ?thesis by (rule receivedI)
qed

lemma query_faults:
  assumes "api_owns a" "ae_drv (sv_api E) = kernel_drv u K" "\<not> m_bUseBypassSELinuxMode (m_Driver a)"
  shows "cmd_queryfull E a c \<noteq> None" "cmd_query E want a c \<noteq> None"
proof -
  note t = query_total [OF assms(2,3,1)]
  obtain r inp c1 where rc: "recvall 5 c = (r, inp, c1)" by (metis prod_cases3)
  obtain ok v a' where "Api_VirtualQueryExFull (sv_api E) (HANDLE (u32_of (get_bytes 0 4 inp))) (ucast (inp ! 4)) [] a = Some (ok, v, a')"
    using t(1) by fastforce
  then show "cmd_queryfull E a c \<noteq> None" by (simp add: cmd_queryfull_def rc)
  obtain r inp c1 where rc: "recvall 12 c = (r, inp, c1)" by (metis prod_cases3)
  obtain found ri m a' where "Api_VirtualQueryEx (sv_api E) (HANDLE (u32_of (get_bytes 0 4 inp)))
      (u64_of (get_bytes 4 8 inp)) (sv_rinfo E) [] a = Some (found, ri, m, a')"
    using t(2) by fastforce
  then show "cmd_query E want a c \<noteq> None" by (simp add: cmd_query_def rc Let_def)
qed

lemma modules_total:
  assumes "api_owns a" "GetHandleType h (ap_handles a) \<noteq> htTHSModule \<or> raw h = 0"
  shows "send_modules E h a c \<noteq> None"
  using assms close_total [OF assms(1), of h] by (auto simp: send_modules_def Module32First_def Let_def)

lemma threads_total:
  assumes "api_owns a" "raw h = 0 \<or> (\<exists>th. ap_heap a (GetPointerFromHandle h (ap_handles a)) = Some (ThreadListObj th) \<and>
      threadCount th \<le> length (threadList th))"
  shows "send_threads h a c \<noteq> None"
  using assms close_total [OF assms(1), of h] by (auto simp: send_threads_def Let_def)

lemma received_mono: "received c P \<Longrightarrow> (\<And>inp. P inp \<Longrightarrow> Q inp) \<Longrightarrow> received c Q"
  by (auto simp: received_def)

text \<open>The flags of a snapshot that ends in undefined behaviour.\<close>

definition snapshot_cause :: "('s, 'z) srvenv \<Rightarrow> byte \<Rightarrow> u32 \<Rightarrow> 's api \<Rightarrow> bool" where
  "snapshot_cause E command fl a \<longleftrightarrow> fl AND TH32CS_SNAPPROCESS \<noteq> 0 \<and>
     (GetProcessListInfo (sv_api E) False [] (ap_os a) = None \<or>
      command = CMD_CREATETOOLHELP32SNAPSHOTEX \<and> fl AND TH32CS_SNAPTHREAD \<noteq> 0)"

lemma snapshot_fault:
  assumes "served E a" "ae_drv (sv_api E) = kernel_drv u K" "cmd_snapshot E a c = None"
  shows "received c (\<lambda>inp. snapshot_cause E command (u32_of (get_bytes 0 4 inp)) a)"
proof -
  obtain r inp c1 where rc: "recvall 8 c = (r, inp, c1)" by (metis prod_cases3)
  let ?fl = "u32_of (get_bytes 0 4 inp)"
  from assms(3) have r: "0 < r" and
    n: "CreateToolhelp32Snapshot (sv_api E) ?fl (u32_of (get_bytes 4 4 inp)) a = None"
    by (auto simp: cmd_snapshot_def rc split: if_splits option.splits)
  have "snapshot_cause E command ?fl a"
    using snapshot_result [OF assms(1,2), of ?fl "u32_of (get_bytes 4 4 inp)"] n
    unfolding snapshot_cause_def by fastforce
  with rc r show ?thesis by (rule receivedI)
qed

lemma snapshotex_fault:
  assumes "served E a" "ae_drv (sv_api E) = kernel_drv u K" "cmd_snapshotex E a c = None"
  shows "received c (\<lambda>inp. snapshot_cause E CMD_CREATETOOLHELP32SNAPSHOTEX (u32_of (get_bytes 0 4 inp)) a)"
proof -
  obtain r inp c1 where rc: "recvall 8 c = (r, inp, c1)" by (metis prod_cases3)
  let ?fl = "u32_of (get_bytes 0 4 inp)" and ?pid = "u32_of (get_bytes 4 4 inp)"
  from assms(3) have r: "0 < r" by (auto simp: cmd_snapshotex_def rc split: if_splits)
  have "snapshot_cause E CMD_CREATETOOLHELP32SNAPSHOTEX ?fl a"
  proof (rule ccontr)
    assume nc: "\<not> ?thesis"
    then have "?fl AND TH32CS_SNAPPROCESS = 0 \<or> GetProcessListInfo (sv_api E) False [] (ap_os a) \<noteq> None"
      by (auto simp: snapshot_cause_def)
    from snapshot_result [where fl = ?fl and pid = ?pid, OF assms(1,2) this] obtain h a' where
      s: "CreateToolhelp32Snapshot (sv_api E) ?fl ?pid a = Some (h, a')" and own: "api_owns a'" and
      k: "raw h = 0 \<or> (if ?fl AND TH32CS_SNAPPROCESS \<noteq> 0 then GetHandleType h (ap_handles a') = htTHSProcess
        else \<exists>th. ap_heap a' (GetPointerFromHandle h (ap_handles a')) = Some (ThreadListObj th) \<and>
          threadCount th \<le> length (threadList th))"
      by (elim exE conjE)
    have "TH32CS_SNAPTHREAD \<noteq> 0" by (simp add: TH32CS_SNAPTHREAD_def)
    with k nc have "?fl AND TH32CS_SNAPTHREAD = TH32CS_SNAPTHREAD \<Longrightarrow>
        raw h = 0 \<or> (\<exists>th. ap_heap a' (GetPointerFromHandle h (ap_handles a')) = Some (ThreadListObj th) \<and>
          threadCount th \<le> length (threadList th))"
      unfolding snapshot_cause_def by (metis (full_types))
    from threads_total [OF own this] have t: "?fl AND TH32CS_SNAPTHREAD = TH32CS_SNAPTHREAD \<Longrightarrow>
        send_threads h a' c1 \<noteq> None" .
    have "GetHandleType h (ap_handles a') \<noteq> htTHSModule \<or> raw h = 0"
      using k handle_kinds(2) [OF own, of h] by (auto split: if_splits)
    from modules_total [OF own this] have "send_modules E h a' c1 \<noteq> None" .
    with assms(3) s r t show False by (auto simp: cmd_snapshotex_def rc Let_def split: if_splits)
  qed
  with rc r show ?thesis by (rule receivedI)
qed

text \<open>Every way to undefined behaviour, by the command and its parameters.\<close>

definition fault_cause :: "('s, 'z) srvenv \<Rightarrow> byte \<Rightarrow> byte list \<Rightarrow> 's api \<Rightarrow> bool" where
  "fault_cause E command inp a \<longleftrightarrow>
     (if command = CMD_PROCESS32NEXT then cursor_at_end htTHSProcess (HANDLE (u32_of inp)) a
      else if command = CMD_MODULE32NEXT then cursor_at_end htTHSModule (HANDLE (u32_of inp)) a
      else if command = CMD_GETSYMBOLLISTFROMFILE then u32_of inp + 1 < 5
      else if command = CMD_AOBSCAN then sint (u32_of (get_bytes 28 4 inp)) < 0
      else if command = CMD_READPROCESSMEMORY then sint (u32_of (get_bytes 12 4 inp)) < 0
      else if command = CMD_WRITEPROCESSMEMORY then 2 ^ 31 \<le> sint (u32_of (get_bytes 12 4 inp)) + 17
      else if command = CMD_CREATETOOLHELP32SNAPSHOT \<or> command = CMD_CREATETOOLHELP32SNAPSHOTEX
      then snapshot_cause E command (u32_of (get_bytes 0 4 inp)) a
      else False)"

lemma server_faults_ok:
  assumes "served E a" "ae_drv (sv_api E) = kernel_drv u K"
    and "\<forall>level. zlib_ok (sv_zlib E) inflate opn taken given bound level"
    and "DispatchCommand E command a c = None"
  shows "received c (\<lambda>inp. fault_cause E command inp a)"
proof -
  have own: "api_owns a" and nb: "\<not> m_bUseBypassSELinuxMode (m_Driver a)"
    using assms(1) by (simp_all add: served_def)
  have s: "received c P \<Longrightarrow> (\<And>inp. P inp \<Longrightarrow> fault_cause E command inp a) \<Longrightarrow> ?thesis" for P
    by (rule received_mono)
  consider "command = CMD_PROCESS32NEXT" "cmd_process32 False a c = None"
    | "command = CMD_MODULE32NEXT" "cmd_module32 False a c = None"
    | "command = CMD_GETSYMBOLLISTFROMFILE" "cmd_symbols a c = None"
    | "command = CMD_AOBSCAN" "cmd_aobscan a c = None"
    | "command = CMD_READPROCESSMEMORY" "cmd_readmemory E a c = None"
    | "command = CMD_WRITEPROCESSMEMORY" "cmd_writememory E a c = None"
    | "command = CMD_CREATETOOLHELP32SNAPSHOT" "cmd_snapshot E a c = None"
    | "command = CMD_CREATETOOLHELP32SNAPSHOTEX" "cmd_snapshotex E a c = None"
    using assms(4) simple_faults(1-4) [OF assms(1)] query_faults [OF own assms(2) nb]
    unfolding DispatchCommand_def by (auto simp: cmd_defs simp del: not_None_eq split: if_split_asm)
  then show ?thesis
  proof cases
    case 1 from s [OF simple_faults(5) [OF assms(1) 1(2)]] show ?thesis by (simp add: fault_cause_def 1(1) cmd_defs)
  next
    case 2 from s [OF simple_faults(6) [OF assms(1) 2(2)]] show ?thesis by (simp add: fault_cause_def 2(1) cmd_defs)
  next
    case 3 from s [OF symbols_fault [OF 3(2)]] show ?thesis by (simp add: fault_cause_def 3(1) cmd_defs)
  next
    case 4 from s [OF aobscan_fault [OF 4(2)]] show ?thesis by (simp add: fault_cause_def 4(1) cmd_defs)
  next
    case 5 from s [OF read_fault [OF own assms(2,3) 5(2)]] show ?thesis by (simp add: fault_cause_def 5(1) cmd_defs)
  next
    case 6 from s [OF write_fault [OF own 6(2)]] show ?thesis by (simp add: fault_cause_def 6(1) cmd_defs)
  next
    case 7 from s [OF snapshot_fault [OF assms(1,2) 7(2)]] show ?thesis by (simp add: fault_cause_def 7(1) cmd_defs)
  next
    case 8 from s [OF snapshotex_fault [OF assms(1,2) 8(2)]] show ?thesis by (simp add: fault_cause_def 8(1) cmd_defs)
  qed
qed

section \<open>The property\<close>


definition symbols_script :: conn where
  "symbols_script = \<lparr>cn_in = [Data (u32_bytes 0xFFFFFFFF)], cn_send = [], cn_out = [],
     cn_closes = 0, cn_exit = False\<rparr>"

lemma demo_served: "served demo_srv demo_open"
proof -
  have f: "find_handle (draw_handle (ae_rd demo_api 1)) (ap_handles demo_open) = None"
    by (simp add: demo_api_sel draw_handle_demo find_handle_def demo_open_def demo_opened_def)
  have "ae_new demo_api (ap_heap demo_open) = Some 0x2000" "rd_calls (ap_handles demo_open) \<le> 1"
    by (simp_all add: demo_api_sel demo_open_def demo_opened_def)
  from new_handle_ok [OF demo_open_owns this f] have "new_handle demo_api ob demo_open \<noteq> None" for ob by blast
  moreover have "\<not> m_bUseBypassSELinuxMode (m_Driver demo_open)"
    by (simp add: demo_open_def demo_opened_def api_start_def demo_reader_def new_reader_def)
  ultimately show ?thesis
    by (simp add: served_def demo_srv_def demo_open_owns demo_new_fresh)
qed


end
