(* ===== verification/Api_Calls.thy ===== *)
theory Api_Calls
  imports Api_Regions
begin

text \<open>
  The operations of api.cpp access by access. The server runs them in one thread for each connection
  and takes no lock around the handle table or the objects, so between two accesses of one call the
  other threads may run. A call in flight is a program point with its locals; a step goes from a point
  to the next: one operation of porthelp.cpp on the table, one access through an object's pointer, or
  one call of the driver. (C++ promises less: two unsynchronised operations on the \<open>std::map\<close> itself
  are already undefined.) An access through the pointer of a freed object has no step.
\<close>

section \<open>Calls in flight\<close>

text \<open>The calls that only use the object behind a handle, with their arguments, and what they return.\<close>

datatype usage =
    ReadMemory u64 "byte list" u32
  | WriteMemory u64 "byte list" u32
  | ProcessFirst
  | ProcessNext
  | ModuleFirst
  | ModuleNext
  | QueryFull u32 "RegionInfo list"
  | QueryRegion u64 RegionInfo "byte list"

datatype answer =
    BytesRead u32 "byte list"
  | BytesWritten u32
  | ProcessEntry "ProcessListEntry option"
  | ModuleEntry "ModuleListEntry option"
  | RegionList int "RegionInfo list"
  | RegionFound bool RegionInfo "byte list"
  | OpenedHandle HANDLE
  | SnapshotHandle HANDLE
  | HandleClosed

text \<open>The point a thread has reached: the next access it makes, or the answer it has returned.\<close>

datatype point =
    CheckType HANDLE usage
  | LoadPointer HANDLE usage
  | UseObject HANDLE u64 usage
  | CallDriver HANDLE u64 usage
  | CloseType HANDLE
  | ClosePointer HANDLE handleType
  | CloseDriver HANDLE u64
  | CloseDelete HANDLE handleType u64
  | CloseRemove HANDLE
  | OpenFind u32
  | OpenNew u32
  | OpenInsert u32 u64
  | SnapBegin u32 u32
  | SnapPointer HANDLE
  | SnapObject HANDLE u64
  | SnapModules HANDLE u64
  | SnapInsert obj u64
  | Returned answer

fun use_type :: "usage \<Rightarrow> handleType" where
  "use_type ProcessFirst = htTHSProcess"
| "use_type ProcessNext = htTHSProcess"
| "use_type ModuleFirst = htTHSModule"
| "use_type ModuleNext = htTHSModule"
| "use_type _ = htProcesHandle"

text \<open>What a call returns for a handle of another type.\<close>

fun refused :: "usage \<Rightarrow> answer" where
  "refused (ReadMemory lpAddress buffer sz) = BytesRead 0 buffer"
| "refused (WriteMemory lpAddress buffer sz) = BytesWritten 0"
| "refused ProcessFirst = ProcessEntry None"
| "refused ProcessNext = ProcessEntry None"
| "refused ModuleFirst = ModuleEntry None"
| "refused ModuleNext = ModuleEntry None"
| "refused (QueryFull flags vRinfo) = RegionList 0 vRinfo"
| "refused (QueryRegion lpAddress rinfo memName) = RegionFound False rinfo memName"

section \<open>One access at a time\<close>

text \<open>The iterators of a snapshot.\<close>

fun list_use :: "usage \<Rightarrow> obj \<Rightarrow> (answer \<times> obj) option" where
  "list_use ProcessFirst (CeProcessList v readIter) =
     Some (ProcessEntry (if 0 \<noteq> length v then Some (process_entry (v ! 0)) else None), CeProcessList v 0)"
| "list_use ProcessNext (CeProcessList v readIter) =
     (if readIter \<ge> length v then None
      else (let it = readIter + 1 in
            Some (ProcessEntry (if it \<noteq> length v then Some (process_entry (v ! it)) else None),
                  CeProcessList v it)))"
| "list_use ModuleFirst (CeModuleList v readIter) =
     Some (ModuleEntry (if 0 \<noteq> length v then Some (v ! 0) else None), CeModuleList v 0)"
| "list_use ModuleNext (CeModuleList v readIter) =
     (if readIter \<ge> length v then None
      else (let it = readIter + 1 in
            Some (ModuleEntry (if it \<noteq> length v then Some (v ! it) else None), CeModuleList v it)))"
| "list_use _ _ = None"

text \<open>The region queries run with the mutex of the process held.\<close>

definition fresh_maps ::
    "'s apienv \<Rightarrow> CeOpenProcess \<Rightarrow> reader \<Rightarrow> 's \<Rightarrow> (CeOpenProcess \<times> 's) option" where
  "fresh_maps E op r s =
     (case VirtualQueryExFull (ae_drv E) r (u64DriverProcessHandle op) True s of
        None \<Rightarrow> None
      | Some (b, vMaps, bOutListCompleted, s1) \<Rightarrow>
          if vMaps = [] then Some (op\<lparr>vLastMaps := [], nLastGetMapsTime := 0\<rparr>, s1)
          else (case ae_clock E s1 of (tv_sec, tv_nsec, s2) \<Rightarrow>
                  Some (op\<lparr>vLastMaps := vMaps, nLastGetMapsTime := clock_ms tv_sec tv_nsec\<rparr>, s2)))"

fun region_use ::
    "'s apienv \<Rightarrow> usage \<Rightarrow> CeOpenProcess \<Rightarrow> reader \<Rightarrow> 's \<Rightarrow> (answer \<times> CeOpenProcess \<times> 's) option" where
  "region_use E (QueryFull flags vRinfo) op r s =
     (case fresh_maps E op r s of
        None \<Rightarrow> None
      | Some (op', s') \<Rightarrow>
          if vLastMaps op' = [] then Some (RegionList 0 [], op', s')
          else Some (RegionList 1 (full_regions (flags AND VQE_NOSHARED \<noteq> 0) (vLastMaps op')), op', s'))"
| "region_use E (QueryRegion lpAddress rinfo memName) op r s =
     (case ae_clock E s of (tv_sec, tv_nsec, s1) \<Rightarrow>
      case (if clock_ms tv_sec tv_nsec - nLastGetMapsTime op > 1000 * 60
            then fresh_maps E op r s1 else Some (op, s1)) of
        None \<Rightarrow> None
      | Some (op', s') \<Rightarrow>
          if clock_ms tv_sec tv_nsec - nLastGetMapsTime op > 1000 * 60 \<and> vLastMaps op' = []
          then Some (RegionFound False rinfo memName, op', s')
          else
            (let page = lpAddress AND NOT 0xfff in
             case find_region page (rinfo\<lparr>ri_protection := 0, ri_baseaddress := page\<rparr>)
                    memName (vLastMaps op') of
               (found, ri, nm) \<Rightarrow> Some (RegionFound found ri nm, op', s')))"
| "region_use E _ op r s = None"

text \<open>A memory access loads the driver's handle from the object; the driver is called after that.\<close>

definition memory_op :: "usage \<Rightarrow> bool" where
  "memory_op u = (case u of ReadMemory _ _ _ \<Rightarrow> True | WriteMemory _ _ _ \<Rightarrow> True | _ \<Rightarrow> False)"

fun memory_use :: "'s apienv \<Rightarrow> usage \<Rightarrow> u64 \<Rightarrow> reader \<Rightarrow> 's \<Rightarrow> (answer \<times> 's) option" where
  "memory_use E (ReadMemory lpAddress buffer sz) hDrv r s =
     (case ReadProcessMemory (ae_drv E) r hDrv lpAddress buffer (scast sz) 0 s of
        (ok, buffer', bread, s') \<Rightarrow>
          Some (BytesRead (case bread of None \<Rightarrow> 0 | Some n \<Rightarrow> word_of_int n) buffer', s'))"
| "memory_use E (WriteMemory lpAddress buffer sz) hDrv r s =
     (case WriteProcessMemory (ae_drv E) r hDrv lpAddress buffer (scast sz) 0 s of
        None \<Rightarrow> None
      | Some (ok, written, s') \<Rightarrow>
          Some (BytesWritten (case written of None \<Rightarrow> 0 | Some n \<Rightarrow> word_of_int n), s'))"
| "memory_use E _ hDrv r s = None"

text \<open>The access of a call to the object of its handle.\<close>

definition object_use ::
    "'s apienv \<Rightarrow> usage \<Rightarrow> obj \<Rightarrow> reader \<Rightarrow> 's \<Rightarrow> (answer \<times> obj \<times> 's) option" where
  "object_use E u ob r s =
     (case ob of
        OpenProcessObj op \<Rightarrow> map_option (\<lambda>(ans, op', s'). (ans, OpenProcessObj op', s')) (region_use E u op r s)
      | _ \<Rightarrow> map_option (\<lambda>(ans, ob'). (ans, ob', s)) (list_use u ob))"

fun use_step :: "'s apienv \<Rightarrow> point \<Rightarrow> 's api \<Rightarrow> (point \<times> 's api) option" where
  "use_step E (CheckType h u) a =
     Some (if GetHandleType h (ap_handles a) = use_type u then LoadPointer h u else Returned (refused u), a)"
| "use_step E (LoadPointer h u) a = Some (UseObject h (GetPointerFromHandle h (ap_handles a)) u, a)"
| "use_step E (UseObject h p u) a =
     (case ap_heap a p of
        None \<Rightarrow> None
      | Some ob \<Rightarrow>
          if kind_of ob \<noteq> use_type u then None
          else if memory_op u
          then (case ob of
                  OpenProcessObj op \<Rightarrow> Some (CallDriver h (u64DriverProcessHandle op) u, a)
                | _ \<Rightarrow> None)
          else (case object_use E u ob (m_Driver a) (ap_os a) of
                  None \<Rightarrow> None
                | Some (ans, ob', s) \<Rightarrow> Some (Returned ans, put_obj p ob' (a\<lparr>ap_os := s\<rparr>))))"
| "use_step E (CallDriver h hDrv u) a =
     (case memory_use E u hDrv (m_Driver a) (ap_os a) of
        None \<Rightarrow> None
      | Some (ans, s) \<Rightarrow> Some (Returned ans, a\<lparr>ap_os := s\<rparr>))"
| "use_step E c a = None"

fun close_step :: "point \<Rightarrow> 's api \<Rightarrow> (point \<times> 's api) option" where
  "close_step (CloseType h) a = Some (ClosePointer h (GetHandleType h (ap_handles a)), a)"
| "close_step (ClosePointer h ht) a =
     (let pl = GetPointerFromHandle h (ap_handles a) in
      Some (if ht = htTHSModule then CloseDelete h ht pl
            else if ht = htTHSProcess then CloseDelete h ht pl
            else if ht = htProcesHandle then CloseDriver h pl
            else if ht = htTHSThread then CloseDelete h ht pl
            else CloseRemove h, a))"
| "close_step (CloseDriver h pl) a =
     (case ap_heap a pl of
        Some (OpenProcessObj op) \<Rightarrow>
          (let released = drv_CloseHandle (u64DriverProcessHandle op)
           in Some (CloseDelete h htProcesHandle pl, a))
      | _ \<Rightarrow> None)"
| "close_step (CloseDelete h ht pl) a =
     (case ap_heap a pl of
        None \<Rightarrow> None
      | Some ob \<Rightarrow>
          if kind_of ob = ht then Some (CloseRemove h, a\<lparr>ap_heap := (ap_heap a)(pl := None)\<rparr>) else None)"
| "close_step (CloseRemove h) a =
     Some (Returned HandleClosed, a\<lparr>ap_handles := RemoveHandle h (ap_handles a)\<rparr>)"
| "close_step c a = None"

definition opened_process :: "u32 \<Rightarrow> CeOpenProcess" where
  "opened_process pid =
     \<lparr>op_pid = pid, u64DriverProcessHandle = drv_OpenProcess (scast pid), vLastMaps = [], nLastGetMapsTime = 0\<rparr>"

fun open_step :: "'s apienv \<Rightarrow> point \<Rightarrow> 's api \<Rightarrow> (point \<times> 's api) option" where
  "open_step E (OpenFind pid) a =
     (case FindHandleByPID (pid_at (ap_heap a)) pid (ap_handles a) of
        None \<Rightarrow> None
      | Some hm \<Rightarrow> Some (if raw hm \<noteq> 0 then Returned (OpenedHandle hm) else OpenNew pid, a))"
| "open_step E (OpenNew pid) a =
     (if drv_OpenProcess (scast pid) = 0 then Some (Returned (OpenedHandle (HANDLE 0)), a)
      else (case ae_new E (ap_heap a) of
              None \<Rightarrow> None
            | Some p \<Rightarrow> Some (OpenInsert pid p, put_obj p (OpenProcessObj (opened_process pid)) a)))"
| "open_step E (OpenInsert pid p) a =
     (case CreateHandleFromPointer (ae_rd E) p htProcesHandle (ap_handles a) of
        None \<Rightarrow> None
      | Some (h, t) \<Rightarrow> Some (Returned (OpenedHandle h), a\<lparr>ap_handles := t\<rparr>))"
| "open_step E c a = None"

text \<open>Snapshots: the list is local to the thread until its handle is made.\<close>

definition new_snapshot :: "'s apienv \<Rightarrow> obj \<Rightarrow> 's api \<Rightarrow> (point \<times> 's api) option" where
  "new_snapshot E ob a =
     (case ae_new E (ap_heap a) of None \<Rightarrow> None | Some p \<Rightarrow> Some (SnapInsert ob p, put_obj p ob a))"

definition list_modules :: "'s apienv \<Rightarrow> reader \<Rightarrow> u64 \<Rightarrow> 's \<Rightarrow> (obj option \<times> 's) option" where
  "list_modules E r hDrv s =
     (case VirtualQueryExFull (ae_drv E) r hDrv False s of
        None \<Rightarrow> None
      | Some (b, vMaps, bOutListCompleted, s1) \<Rightarrow>
          if vMaps = [] then Some (None, s1)
          else (case module_loop E r hDrv vMaps [] s1 of (v, s2) \<Rightarrow> Some (Some (CeModuleList v 0), s2)))"

definition list_threads :: "'s apienv \<Rightarrow> byte list list \<Rightarrow> ThreadList option" where
  "list_threads E names =
     thread_loop E names 64 \<lparr>ReferenceCount = 1, threadListIterator = ae_junk E, threadCount = 0,
       threadList = replicate 64 (ae_junk E)\<rparr>"

fun snap_step :: "'s apienv \<Rightarrow> point \<Rightarrow> 's api \<Rightarrow> (point \<times> 's api) option" where
  "snap_step E (SnapBegin dwFlags th32ProcessID) a =
     (if dwFlags AND TH32CS_SNAPPROCESS \<noteq> 0 then
        (case GetProcessListInfo E False [] (ap_os a) of
           None \<Rightarrow> None
         | Some (ok, v) \<Rightarrow> new_snapshot E (CeProcessList v 0) a)
      else if dwFlags AND TH32CS_SNAPMODULE \<noteq> 0 then
        (case FindHandleByPID (pid_at (ap_heap a)) th32ProcessID (ap_handles a) of
           None \<Rightarrow> None
         | Some hm \<Rightarrow> Some (if raw hm = 0 then Returned (SnapshotHandle (HANDLE 0)) else SnapPointer hm, a))
      else if dwFlags AND TH32CS_SNAPTHREAD \<noteq> 0 then
        (if th32ProcessID = 0 then Some (Returned (SnapshotHandle (HANDLE 0)), a)
         else (case ae_task E (ap_os a) th32ProcessID of
           None \<Rightarrow> Some (Returned (SnapshotHandle (HANDLE 0)), a)
         | Some names \<Rightarrow>
             (case list_threads E names of None \<Rightarrow> None | Some th \<Rightarrow> new_snapshot E (ThreadListObj th) a)))
      else Some (Returned (SnapshotHandle (HANDLE 0)), a))"
| "snap_step E (SnapPointer hm) a = Some (SnapObject hm (GetPointerFromHandle hm (ap_handles a)), a)"
| "snap_step E (SnapObject hm p) a =
     (case ap_heap a p of
        Some (OpenProcessObj pCeOpenProcess) \<Rightarrow> Some (SnapModules hm (u64DriverProcessHandle pCeOpenProcess), a)
      | _ \<Rightarrow> None)"
| "snap_step E (SnapModules hm hDrv) a =
     (case list_modules E (m_Driver a) hDrv (ap_os a) of
        None \<Rightarrow> None
      | Some (None, s) \<Rightarrow> Some (Returned (SnapshotHandle (HANDLE 0)), a\<lparr>ap_os := s\<rparr>)
      | Some (Some ob, s) \<Rightarrow> new_snapshot E ob (a\<lparr>ap_os := s\<rparr>))"
| "snap_step E (SnapInsert ob p) a =
     (case CreateHandleFromPointer (ae_rd E) p (kind_of ob) (ap_handles a) of
        None \<Rightarrow> None
      | Some (h, t) \<Rightarrow> Some (Returned (SnapshotHandle h), a\<lparr>ap_handles := t\<rparr>))"
| "snap_step E c a = None"

fun call_step :: "'s apienv \<Rightarrow> point \<Rightarrow> 's api \<Rightarrow> (point \<times> 's api) option" where
  "call_step E (CheckType h u) a = use_step E (CheckType h u) a"
| "call_step E (LoadPointer h u) a = use_step E (LoadPointer h u) a"
| "call_step E (UseObject h p u) a = use_step E (UseObject h p u) a"
| "call_step E (CallDriver h d u) a = use_step E (CallDriver h d u) a"
| "call_step E (CloseType h) a = close_step (CloseType h) a"
| "call_step E (ClosePointer h ht) a = close_step (ClosePointer h ht) a"
| "call_step E (CloseDriver h p) a = close_step (CloseDriver h p) a"
| "call_step E (CloseDelete h ht p) a = close_step (CloseDelete h ht p) a"
| "call_step E (CloseRemove h) a = close_step (CloseRemove h) a"
| "call_step E (OpenFind pid) a = open_step E (OpenFind pid) a"
| "call_step E (OpenNew pid) a = open_step E (OpenNew pid) a"
| "call_step E (OpenInsert pid p) a = open_step E (OpenInsert pid p) a"
| "call_step E (SnapBegin fl pid) a = snap_step E (SnapBegin fl pid) a"
| "call_step E (SnapPointer h) a = snap_step E (SnapPointer h) a"
| "call_step E (SnapObject h p) a = snap_step E (SnapObject h p) a"
| "call_step E (SnapModules h d) a = snap_step E (SnapModules h d) a"
| "call_step E (SnapInsert ob p) a = snap_step E (SnapInsert ob p) a"
| "call_step E (Returned ans) a = None"

section \<open>A call by itself\<close>

fun alone :: "'s apienv \<Rightarrow> nat \<Rightarrow> point \<Rightarrow> 's api \<Rightarrow> (answer \<times> 's api) option" where
  "alone E n (Returned ans) a = Some (ans, a)"
| "alone E 0 c a = None"
| "alone E (Suc n) c a = (case call_step E c a of None \<Rightarrow> None | Some (c', a') \<Rightarrow> alone E n c' a')"

lemma refresh_maps_fresh:
  "refresh_maps E op a = map_option (\<lambda>(op', s). (op', a\<lparr>ap_os := s\<rparr>)) (fresh_maps E op (m_Driver a) (ap_os a))"
  by (auto simp: refresh_maps_def fresh_maps_def split: option.splits prod.splits)


lemma alone_use:
  "alone E 4 (CheckType h (ReadMemory ad b n)) a =
    map_option (\<lambda>(r, b', a'). (BytesRead r b', a')) (Api_ReadProcessMemory E h ad b n a)"
  "alone E 4 (CheckType h (WriteMemory ad b n)) a =
    map_option (\<lambda>(r, a'). (BytesWritten r, a')) (Api_WriteProcessMemory E h ad b n a)"
  "alone E 3 (CheckType h ProcessFirst) a = map_option (\<lambda>(e, a'). (ProcessEntry e, a')) (Process32First h a)"
  "alone E 3 (CheckType h ProcessNext) a = map_option (\<lambda>(e, a'). (ProcessEntry e, a')) (Process32Next h a)"
  "alone E 3 (CheckType h ModuleFirst) a = map_option (\<lambda>(e, a'). (ModuleEntry e, a')) (Module32First h a)"
  "alone E 3 (CheckType h ModuleNext) a = map_option (\<lambda>(e, a'). (ModuleEntry e, a')) (Module32Next h a)"
  by (auto simp: eval_nat_numeral Api_ReadProcessMemory_def Api_WriteProcessMemory_def memory_op_def
      Process32First_def Process32Next_def Module32First_def Module32Next_def object_use_def Let_def
      put_obj_def split: option.splits obj.splits prod.splits)

lemma alone_query:
  "alone E 3 (CheckType h (QueryFull fl v)) a =
    map_option (\<lambda>(r, v', a'). (RegionList r v', a')) (Api_VirtualQueryExFull E h fl v a)"
  "alone E 3 (CheckType h (QueryRegion ad ri nm)) a =
    map_option (\<lambda>(r, ri', nm', a'). (RegionFound r ri' nm', a')) (Api_VirtualQueryEx E h ad ri nm a)"
  by (auto simp: eval_nat_numeral Api_VirtualQueryExFull_def Api_VirtualQueryEx_def memory_op_def
      refresh_maps_fresh object_use_def Let_def put_obj_def split: option.splits obj.splits prod.splits)

lemma alone_close: "alone E 5 (CloseType h) a = map_option (Pair HandleClosed) (Api_CloseHandle h a)"
  by (auto simp: eval_nat_numeral Api_CloseHandle_def Let_def split: option.splits obj.splits)

lemma alone_open:
  "alone E 3 (OpenFind pid) a = map_option (\<lambda>(h, a'). (OpenedHandle h, a')) (Api_OpenProcess E pid a)"
  by (auto simp: eval_nat_numeral Api_OpenProcess_def new_handle_def opened_process_def put_obj_def Let_def
      split: option.splits)


lemma alone_returned: "alone E n (Returned ans) a = Some (ans, a)"
  by (cases n) simp_all

lemma alone_insert:
  "alone E (Suc n) (SnapInsert ob p) a =
    (case CreateHandleFromPointer (ae_rd E) p (kind_of ob) (ap_handles a) of
       None \<Rightarrow> None | Some (h, t) \<Rightarrow> Some (SnapshotHandle h, a\<lparr>ap_handles := t\<rparr>))"
  by (simp add: alone_returned split: option.split)

lemmas alone_new = alone_insert new_snapshot_def new_handle_def put_obj_def

lemma alone_modules:
  "alone E (Suc (Suc n)) (SnapModules hm d) a =
    (case VirtualQueryExFull (ae_drv E) (m_Driver a) d False (ap_os a) of
       None \<Rightarrow> None
     | Some (b, vMaps, bOutListCompleted, s) \<Rightarrow>
         if vMaps = [] then Some (SnapshotHandle (HANDLE 0), a\<lparr>ap_os := s\<rparr>)
         else (case module_loop E (m_Driver a) d vMaps [] s of
                 (v, s') \<Rightarrow> map_option (\<lambda>(h, a'). (SnapshotHandle h, a')) (new_handle E (CeModuleList v 0) (a\<lparr>ap_os := s'\<rparr>))))"
  by (auto simp: list_modules_def alone_new alone_returned split: option.splits prod.splits)

lemma alone_find_modules:
  "alone E (Suc (Suc (Suc (Suc n)))) (SnapPointer hm) a =
    (case ap_heap a (GetPointerFromHandle hm (ap_handles a)) of
       Some (OpenProcessObj op) \<Rightarrow> alone E (Suc (Suc n)) (SnapModules hm (u64DriverProcessHandle op)) a
     | _ \<Rightarrow> None)"
  by (auto split: option.split obj.split simp del: snap_step.simps(4))

lemma alone_snapshot:
  "alone E 5 (SnapBegin fl pid) a = map_option (\<lambda>(h, a'). (SnapshotHandle h, a')) (CreateToolhelp32Snapshot E fl pid a)"
proof -
  have five: "alone E 5 c a = (case call_step E c a of None \<Rightarrow> None | Some (c', a') \<Rightarrow> alone E (Suc (Suc (Suc (Suc 0)))) c' a')"
    if "\<forall>ans. c \<noteq> Returned ans" for c
    using that by (cases c) (simp_all add: eval_nat_numeral del: call_step.simps)
  show ?thesis
  proof (cases "fl AND TH32CS_SNAPPROCESS \<noteq> 0")
    case True
    then show ?thesis
      by (auto simp: five CreateToolhelp32Snapshot_def alone_new split: option.split simp del: alone.simps)
  next
    case p: False
    show ?thesis
    proof (cases "fl AND TH32CS_SNAPMODULE \<noteq> 0")
      case True
      with p show ?thesis
        by (simp add: five CreateToolhelp32Snapshot_def alone_find_modules alone_modules alone_returned
            split: option.split obj.split prod.split del: alone.simps)
    next
      case False
      with p show ?thesis
        by (auto simp: five CreateToolhelp32Snapshot_def alone_new alone_returned list_threads_def
            split: option.split simp del: alone.simps)
    qed
  qed
qed


end
