(* ===== verification/Api_Races.thy ===== *)
theory Api_Races
  imports Api_Calls
begin

text \<open>
  The threads of several connections running the calls of api.cpp at the same time, their accesses
  interleaved in any order. \<open>spec_step\<close> is what a client expects, a map from handles to objects on
  which each call takes its effect at one point; the locale \<open>refinement_mapping\<close> carries the proof that
  the threads do so when they keep to the discipline \<open>exclusive\<close>, and the last section shows what happens
  when they do not.
\<close>

section \<open>Several threads\<close>

text \<open>A thread whose call has returned may begin any other; a step may be visible as an event.\<close>

datatype event = Used HANDLE usage answer | Closed HANDLE | Opened u32 HANDLE | Listed "obj option" | Snapped HANDLE obj

fun entry_point :: "point \<Rightarrow> bool" where
  "entry_point (CheckType h u) = True"
| "entry_point (CloseType h) = True"
| "entry_point (OpenFind pid) = True"
| "entry_point (SnapBegin fl pid) = True"
| "entry_point _ = False"

text \<open>The step at which a call takes its effect.\<close>

definition commit :: "point \<Rightarrow> point \<Rightarrow> event option" where
  "commit c c' =
     (case c' of
        Returned ans \<Rightarrow>
          (case c of
             CheckType h u \<Rightarrow> Some (Used h u ans)
           | UseObject h p u \<Rightarrow> Some (Used h u ans)
           | CallDriver h d u \<Rightarrow> Some (Used h u ans)
           | OpenFind pid \<Rightarrow> (case ans of OpenedHandle h \<Rightarrow> Some (Opened pid h) | _ \<Rightarrow> None)
           | OpenNew pid \<Rightarrow> (case ans of OpenedHandle h \<Rightarrow> Some (Opened pid h) | _ \<Rightarrow> None)
           | OpenInsert pid p \<Rightarrow> (case ans of OpenedHandle h \<Rightarrow> Some (Opened pid h) | _ \<Rightarrow> None)
           | SnapModules hm d \<Rightarrow> Some (Listed None)
           | SnapInsert ob p \<Rightarrow> (case ans of SnapshotHandle h \<Rightarrow> Some (Snapped h ob) | _ \<Rightarrow> None)
           | _ \<Rightarrow> None)
      | SnapInsert ob p \<Rightarrow> Some (Listed (Some ob))
      | CloseRemove k \<Rightarrow>
          (case c of ClosePointer h ht \<Rightarrow> Some (Closed h) | CloseDelete h ht p \<Rightarrow> Some (Closed h) | _ \<Rightarrow> None)
      | _ \<Rightarrow> None)"

type_synonym 's config = "point list \<times> 's api"

inductive race_step ::
    "'s apienv \<Rightarrow> (point list \<Rightarrow> bool) \<Rightarrow> 's config \<Rightarrow> event option \<Rightarrow> 's config \<Rightarrow> bool" for E allowed where
  begin_call: "i < length pcs \<Longrightarrow> pcs ! i = Returned ans \<Longrightarrow> entry_point c \<Longrightarrow> allowed (pcs[i := c]) \<Longrightarrow>
    race_step E allowed (pcs, a) None (pcs[i := c], a)"
| run_thread: "i < length pcs \<Longrightarrow> call_step E (pcs ! i) a = Some (c, a') \<Longrightarrow>
    race_step E allowed (pcs, a) (commit (pcs ! i) c) (pcs[i := c], a')"

inductive run :: "('c \<Rightarrow> 'e option \<Rightarrow> 'c \<Rightarrow> bool) \<Rightarrow> 'c \<Rightarrow> 'e list \<Rightarrow> 'c \<Rightarrow> bool" for step where
  run_nil: "run step c [] c"
| run_step: "run step c tr c1 \<Longrightarrow> step c1 ev c2 \<Longrightarrow> run step c (tr @ (case ev of None \<Rightarrow> [] | Some e \<Rightarrow> [e])) c2"

text \<open>The access of a point goes through the pointer of an object that is not there.\<close>

fun dangling :: "point \<Rightarrow> 's api \<Rightarrow> bool" where
  "dangling (UseObject h p u) a = (map_option kind_of (ap_heap a p) \<noteq> Some (use_type u))"
| "dangling (CloseDriver h p) a = (map_option kind_of (ap_heap a p) \<noteq> Some htProcesHandle)"
| "dangling (CloseDelete h ht p) a = (map_option kind_of (ap_heap a p) \<noteq> Some ht)"
| "dangling (OpenFind pid) a = (FindHandleByPID (pid_at (ap_heap a)) pid (ap_handles a) = None)"
| "dangling (SnapBegin fl pid) a =
     (fl AND TH32CS_SNAPPROCESS = 0 \<and> fl AND TH32CS_SNAPMODULE \<noteq> 0 \<and>
      FindHandleByPID (pid_at (ap_heap a)) pid (ap_handles a) = None)"
| "dangling (SnapObject hm p) a = (map_option kind_of (ap_heap a p) \<noteq> Some htProcesHandle)"
| "dangling _ a = False"

lemma dangling_stuck: "dangling c a \<Longrightarrow> call_step E c a = None"
  by (cases c) (auto split: option.splits obj.splits)

section \<open>What a client expects\<close>

record 's objects =
  sp_objects :: "HANDLE \<Rightarrow> obj option"
  sp_driver :: reader
  sp_os :: 's

definition atomic_use ::
    "'s apienv \<Rightarrow> usage \<Rightarrow> obj \<Rightarrow> reader \<Rightarrow> 's \<Rightarrow> (answer \<times> obj \<times> 's) option" where
  "atomic_use E u ob r s =
     (if memory_op u
      then (case ob of
              OpenProcessObj op \<Rightarrow>
                map_option (\<lambda>(ans, s'). (ans, ob, s')) (memory_use E u (u64DriverProcessHandle op) r s)
            | _ \<Rightarrow> None)
      else object_use E u ob r s)"

definition not_open :: "u32 \<Rightarrow> 's objects \<Rightarrow> bool" where
  "not_open pid S \<longleftrightarrow> (\<forall>h op. sp_objects S h = Some (OpenProcessObj op) \<longrightarrow> op_pid op \<noteq> pid)"

inductive spec_step :: "'s apienv \<Rightarrow> 's objects \<Rightarrow> event \<Rightarrow> 's objects \<Rightarrow> bool" for E where
  use_object: "sp_objects S h = Some ob \<Longrightarrow> kind_of ob = use_type u \<Longrightarrow>
    atomic_use E u ob (sp_driver S) (sp_os S) = Some (ans, ob', s) \<Longrightarrow>
    spec_step E S (Used h u ans) (S\<lparr>sp_objects := (sp_objects S)(h \<mapsto> ob'), sp_os := s\<rparr>)"
| refuse_use: "map_option kind_of (sp_objects S h) \<noteq> Some (use_type u) \<Longrightarrow>
    spec_step E S (Used h u (refused u)) S"
| close_object: "spec_step E S (Closed h) (S\<lparr>sp_objects := (sp_objects S)(h := None)\<rparr>)"
| open_again: "sp_objects S h = Some (OpenProcessObj op) \<Longrightarrow> op_pid op = pid \<Longrightarrow> spec_step E S (Opened pid h) S"
| open_new: "not_open pid S \<Longrightarrow> drv_OpenProcess (scast pid) \<noteq> 0 \<Longrightarrow> sp_objects S h = None \<Longrightarrow> raw h \<noteq> 0 \<Longrightarrow>
    spec_step E S (Opened pid h) (S\<lparr>sp_objects := (sp_objects S)(h \<mapsto> OpenProcessObj (opened_process pid))\<rparr>)"
| refuse_open: "not_open pid S \<Longrightarrow> drv_OpenProcess (scast pid) = 0 \<Longrightarrow> spec_step E S (Opened pid (HANDLE 0)) S"
| read_processes: "GetProcessListInfo E False [] (sp_os S) = Some (ok, v) \<Longrightarrow>
    spec_step E S (Listed (Some (CeProcessList v 0))) S"
| read_threads: "ae_task E (sp_os S) pid = Some names \<Longrightarrow> list_threads E names = Some th \<Longrightarrow>
    spec_step E S (Listed (Some (ThreadListObj th))) S"
| read_modules: "sp_objects S h = Some (OpenProcessObj op) \<Longrightarrow>
    list_modules E (sp_driver S) (u64DriverProcessHandle op) (sp_os S) = Some (ob, s) \<Longrightarrow>
    spec_step E S (Listed ob) (S\<lparr>sp_os := s\<rparr>)"
| add_snapshot: "sp_objects S h = None \<Longrightarrow> raw h \<noteq> 0 \<Longrightarrow> kind_of ob \<noteq> htProcesHandle \<Longrightarrow>
    spec_step E S (Snapped h ob) (S\<lparr>sp_objects := (sp_objects S)(h \<mapsto> ob)\<rparr>)"

inductive spec_run :: "('s \<Rightarrow> 'e \<Rightarrow> 's \<Rightarrow> bool) \<Rightarrow> 's \<Rightarrow> 'e list \<Rightarrow> 's \<Rightarrow> bool" for spec where
  spec_nil: "spec_run spec S [] S"
| spec_snoc: "spec_run spec S tr S1 \<Longrightarrow> spec S1 e S2 \<Longrightarrow> spec_run spec S (tr @ [e]) S2"

text \<open>A mapping from the states of a program to those of its specification, under an invariant:
  internal steps are invisible, every event is a step of the specification.\<close>

locale refinement_mapping =
  fixes step :: "'c \<Rightarrow> 'e option \<Rightarrow> 'c \<Rightarrow> bool"
    and spec :: "'a \<Rightarrow> 'e \<Rightarrow> 'a \<Rightarrow> bool"
    and inv :: "'c \<Rightarrow> bool"
    and view :: "'c \<Rightarrow> 'a"
  assumes keeps: "inv c \<Longrightarrow> step c ev c' \<Longrightarrow> inv c'"
    and internal: "inv c \<Longrightarrow> step c None c' \<Longrightarrow> view c' = view c"
    and effect: "inv c \<Longrightarrow> step c (Some e) c' \<Longrightarrow> spec (view c) e (view c')"
begin

lemma run_keeps: "run step c tr c' \<Longrightarrow> inv c \<Longrightarrow> inv c'"
  by (induction rule: run.induct) (auto intro: keeps)

lemma run_refines: "run step c tr c' \<Longrightarrow> inv c \<Longrightarrow> spec_run spec (view c) tr (view c')"
proof (induction rule: run.induct)
  case run_nil
  show ?case by (rule spec_nil)
next
  case (run_step c tr c1 ev c2)
  have i: "inv c1" by (rule run_keeps [OF run_step.hyps(1) run_step.prems])
  show ?case
  proof (cases ev)
    case None
    with run_step internal [OF i] show ?thesis by simp
  next
    case (Some e)
    with run_step effect [OF i] show ?thesis by (auto intro: spec_snoc)
  qed
qed

end


section \<open>The discipline\<close>

text \<open>The locks the code does not take: while a handle is being closed no other call uses it or
  closes it and none creates one, and a process is opened by one call at a time.\<close>

fun closes :: "point \<Rightarrow> HANDLE option" where
  "closes (CloseType h) = Some h"
| "closes (ClosePointer h ht) = Some h"
| "closes (CloseDriver h p) = Some h"
| "closes (CloseDelete h ht p) = Some h"
| "closes (CloseRemove h) = Some h"
| "closes _ = None"

fun touches :: "point \<Rightarrow> HANDLE option" where
  "touches (CheckType h u) = Some h"
| "touches (LoadPointer h u) = Some h"
| "touches (UseObject h p u) = Some h"
| "touches (CallDriver h d u) = Some h"
| "touches c = closes c"

fun opens :: "point \<Rightarrow> u32 option" where
  "opens (OpenFind pid) = Some pid"
| "opens (OpenNew pid) = Some pid"
| "opens (OpenInsert pid p) = Some pid"
| "opens _ = None"

fun snaps :: "point \<Rightarrow> bool" where
  "snaps (SnapBegin fl pid) = True"
| "snaps (SnapPointer h) = True"
| "snaps (SnapObject h p) = True"
| "snaps (SnapModules h d) = True"
| "snaps (SnapInsert ob p) = True"
| "snaps _ = False"

definition creates :: "point \<Rightarrow> bool" where
  "creates c \<longleftrightarrow> opens c \<noteq> None \<or> snaps c"

definition conflict :: "point \<Rightarrow> point \<Rightarrow> bool" where
  "conflict c d \<longleftrightarrow> (closes c \<noteq> None \<and> (touches d = closes c \<or> creates d)) \<or>
     (opens c \<noteq> None \<and> opens d = opens c)"

definition exclusive :: "point list \<Rightarrow> bool" where
  "exclusive pcs \<longleftrightarrow>
     (\<forall>i < length pcs. \<forall>j < length pcs. i \<noteq> j \<longrightarrow> \<not> conflict (pcs ! i) (pcs ! j))"

lemma exclusiveD:
  assumes "exclusive pcs" "i < length pcs" "j < length pcs" "i \<noteq> j"
  shows "\<not> conflict (pcs ! i) (pcs ! j)" "\<not> conflict (pcs ! j) (pcs ! i)"
  using assms unfolding exclusive_def by blast+

text \<open>Along a call the handle and the pid stay the same until they are given up.\<close>

definition continues :: "point \<Rightarrow> point \<Rightarrow> bool" where
  "continues c c' \<longleftrightarrow> (closes c' = None \<or> closes c' = closes c) \<and>
     (touches c' = None \<or> touches c' = touches c) \<and> (opens c' = None \<or> opens c' = opens c) \<and>
     (snaps c' \<longrightarrow> snaps c)"

lemma call_continues: "call_step E c a = Some (c', a') \<Longrightarrow> continues c c'"
  by (cases c) (auto simp: continues_def new_snapshot_def Let_def split: if_splits option.splits obj.splits)

lemma exclusive_continues:
  assumes "exclusive pcs" "i < length pcs" "continues (pcs ! i) c"
  shows "exclusive (pcs[i := c])"
  unfolding exclusive_def
proof (intro allI impI)
  fix k l assume k: "k < length (pcs[i := c])" and l: "l < length (pcs[i := c])" "k \<noteq> l"
  have "\<not> conflict (pcs ! k) (pcs ! l)" using exclusiveD [OF assms(1)] k l by simp
  with assms(2,3) k l show "\<not> conflict (pcs[i := c] ! k) (pcs[i := c] ! l)"
    by (cases "k = i"; cases "l = i") (auto simp: conflict_def continues_def creates_def)
qed

section \<open>The invariant\<close>

text \<open>Handles whose object is already deleted, objects that have no handle yet.\<close>

fun dies :: "point \<Rightarrow> HANDLE set" where
  "dies (CloseRemove h) = {h}"
| "dies _ = {}"

fun loosens :: "point \<Rightarrow> u64 set" where
  "loosens (OpenInsert pid p) = {p}"
| "loosens (SnapInsert ob p) = {p}"
| "loosens _ = {}"

definition dying :: "point list \<Rightarrow> HANDLE set" where
  "dying pcs = (\<Union>c \<in> set pcs. dies c)"

definition loose :: "point list \<Rightarrow> u64 set" where
  "loose pcs = (\<Union>c \<in> set pcs. loosens c)"

definition apart :: "point list \<Rightarrow> bool" where
  "apart pcs \<longleftrightarrow> (\<forall>i < length pcs. \<forall>j < length pcs. i \<noteq> j \<longrightarrow> loosens (pcs ! i) \<inter> loosens (pcs ! j) = {})"

definition live_entry :: "HANDLE set \<Rightarrow> handles \<Rightarrow> HANDLE \<Rightarrow> HANDLE_INFO option" where
  "live_entry D t h = (if h \<in> D then None else find_handle h t)"

definition inserted :: "u64 set \<Rightarrow> heap \<Rightarrow> heap" where
  "inserted L heap p = (if p \<in> L then None else heap p)"

lemma no_dying_no_loose [simp]: "live_entry {} = (\<lambda>t h. find_handle h t)" "inserted {} heap = heap"
  by (simp_all add: live_entry_def inserted_def fun_eq_iff)

text \<open>What a thread at a point relies on.\<close>

definition unopened :: "u32 \<Rightarrow> 's api \<Rightarrow> bool" where
  "unopened pid a \<longleftrightarrow> (\<forall>k i op. find_handle k (ap_handles a) = Some i \<longrightarrow>
     ap_heap a (hi_p i) = Some (OpenProcessObj op) \<longrightarrow> op_pid op \<noteq> pid)"

definition driver_of :: "HANDLE \<Rightarrow> u64 \<Rightarrow> 's api \<Rightarrow> bool" where
  "driver_of h d a \<longleftrightarrow> (\<exists>p op. find_handle h (ap_handles a) = Some \<lparr>hi_p = p, hi_type = htProcesHandle\<rparr> \<and>
     ap_heap a p = Some (OpenProcessObj op) \<and> u64DriverProcessHandle op = d)"

fun point_ok :: "point \<Rightarrow> 's api \<Rightarrow> bool" where
  "point_ok (LoadPointer h u) a = (\<exists>p. find_handle h (ap_handles a) = Some \<lparr>hi_p = p, hi_type = use_type u\<rparr>)"
| "point_ok (UseObject h p u) a = (find_handle h (ap_handles a) = Some \<lparr>hi_p = p, hi_type = use_type u\<rparr>)"
| "point_ok (CallDriver h d u) a = (memory_op u \<and> driver_of h d a)"
| "point_ok (ClosePointer h ht) a = (GetHandleType h (ap_handles a) = ht)"
| "point_ok (CloseDriver h p) a = (find_handle h (ap_handles a) = Some \<lparr>hi_p = p, hi_type = htProcesHandle\<rparr>)"
| "point_ok (CloseDelete h ht p) a = (find_handle h (ap_handles a) = Some \<lparr>hi_p = p, hi_type = ht\<rparr>)"
| "point_ok (OpenNew pid) a = unopened pid a"
| "point_ok (OpenInsert pid p) a =
     (unopened pid a \<and> p \<noteq> 0 \<and> drv_OpenProcess (scast pid) \<noteq> 0 \<and>
      ap_heap a p = Some (OpenProcessObj (opened_process pid)))"
| "point_ok (SnapPointer h) a = (\<exists>p. find_handle h (ap_handles a) = Some \<lparr>hi_p = p, hi_type = htProcesHandle\<rparr>)"
| "point_ok (SnapObject h p) a = (find_handle h (ap_handles a) = Some \<lparr>hi_p = p, hi_type = htProcesHandle\<rparr>)"
| "point_ok (SnapModules h d) a = driver_of h d a"
| "point_ok (SnapInsert ob p) a = (p \<noteq> 0 \<and> kind_of ob \<noteq> htProcesHandle \<and> ap_heap a p = Some ob)"
| "point_ok _ a = True"

fun race_inv :: "'s config \<Rightarrow> bool" where
  "race_inv (pcs, a) \<longleftrightarrow> exclusive pcs \<and> handles_wf (ap_handles a) \<and>
     owns (live_entry (dying pcs)) kind_of (ap_handles a) (inserted (loose pcs) (ap_heap a)) \<and>
     (\<forall>j < length pcs. point_ok (pcs ! j) a) \<and> apart pcs"

fun view :: "'s config \<Rightarrow> 's objects" where
  "view (pcs, a) =
     \<lparr>sp_objects = (\<lambda>h. case live_entry (dying pcs) (ap_handles a) h of
         None \<Rightarrow> None | Some i \<Rightarrow> ap_heap a (hi_p i)),
      sp_driver = m_Driver a, sp_os = ap_os a\<rparr>"

lemma UN_list_update:
  assumes "i < length xs"
  shows "(\<Union>x \<in> set (xs[i := y]). f x) = f y \<union> (\<Union>j \<in> {j. j < length xs \<and> j \<noteq> i}. f (xs ! j))"
  using assms by (force simp: in_set_conv_nth nth_list_update split: if_splits)


lemma dies_iff: "h \<in> dies c \<longleftrightarrow> c = CloseRemove h"
  by (cases c) auto

lemma loosens_iff: "p \<in> loosens c \<longleftrightarrow> (\<exists>pid. c = OpenInsert pid p) \<or> (\<exists>ob. c = SnapInsert ob p)"
  by (cases c) auto

text \<open>The sets after a step of one thread: its own part and that of the others.\<close>

lemma dying_split:
  assumes "i < length pcs"
  obtains R where "dying pcs = dies (pcs ! i) \<union> R" "\<And>c. dying (pcs[i := c]) = dies c \<union> R"
    "\<And>h. h \<in> R \<Longrightarrow> \<exists>j < length pcs. j \<noteq> i \<and> pcs ! j = CloseRemove h"
proof (rule that)
  let ?R = "\<Union>j \<in> {j. j < length pcs \<and> j \<noteq> i}. dies (pcs ! j)"
  show u: "dying (pcs[i := c]) = dies c \<union> ?R" for c
    unfolding dying_def by (rule UN_list_update [OF assms])
  from u [of "pcs ! i"] show "dying pcs = dies (pcs ! i) \<union> ?R" by simp
  show "\<exists>j < length pcs. j \<noteq> i \<and> pcs ! j = CloseRemove h" if "h \<in> ?R" for h
    using that by (auto simp: dies_iff)
qed

lemma loose_split:
  assumes "i < length pcs"
  obtains R where "loose pcs = loosens (pcs ! i) \<union> R" "\<And>c. loose (pcs[i := c]) = loosens c \<union> R"
    "\<And>p. p \<in> R \<Longrightarrow> \<exists>j < length pcs. j \<noteq> i \<and> p \<in> loosens (pcs ! j)"
proof (rule that)
  let ?R = "\<Union>j \<in> {j. j < length pcs \<and> j \<noteq> i}. loosens (pcs ! j)"
  show u: "loose (pcs[i := c]) = loosens c \<union> ?R" for c
    unfolding loose_def by (rule UN_list_update [OF assms])
  from u [of "pcs ! i"] show "loose pcs = loosens (pcs ! i) \<union> ?R" by simp
  show "\<exists>j < length pcs. j \<noteq> i \<and> p \<in> loosens (pcs ! j)" if "p \<in> ?R" for p
    using that by auto
qed

lemma dyingD: "h \<in> dying pcs \<Longrightarrow> \<exists>j < length pcs. pcs ! j = CloseRemove h"
  by (auto simp: dying_def in_set_conv_nth dies_iff)

lemma looseD: "p \<in> loose pcs \<Longrightarrow> \<exists>j < length pcs. p \<in> loosens (pcs ! j)"
  by (auto simp: loose_def in_set_conv_nth)

lemma loosens_creates: "p \<in> loosens c \<Longrightarrow> creates c"
  by (auto simp: loosens_iff creates_def)

text \<open>What the discipline gives a thread.\<close>

lemma touched_not_dying:
  assumes "exclusive pcs" "i < length pcs" "touches (pcs ! i) = Some h" "pcs ! i \<noteq> CloseRemove h"
  shows "h \<notin> dying pcs"
proof
  assume "h \<in> dying pcs"
  then obtain j where j: "j < length pcs" "pcs ! j = CloseRemove h" using dyingD by blast
  with assms(4) have "j \<noteq> i" by auto
  from exclusiveD(1) [OF assms(1) j(1) assms(2) this] j assms(3) show False by (simp add: conflict_def)
qed

lemma closing_alone:
  assumes "exclusive pcs" "i < length pcs" "closes (pcs ! i) = Some h" "j < length pcs" "j \<noteq> i"
  shows "touches (pcs ! j) \<noteq> Some h" "\<not> creates (pcs ! j)"
  using exclusiveD(1) [OF assms(1,2,4)] assms(3,5) by (auto simp: conflict_def)

lemma closing_no_loose:
  assumes "exclusive pcs" "i < length pcs" "closes (pcs ! i) = Some h"
  shows "loose pcs = {}"
proof -
  have False if "p \<in> loose pcs" for p
  proof -
    from looseD [OF that] obtain j where j: "j < length pcs" "creates (pcs ! j)" using loosens_creates by blast
    with assms(3) have "j \<noteq> i" by (auto simp: creates_def elim!: closes.elims)
    from closing_alone(2) [OF assms j(1) this] j(2) show False by simp
  qed
  then show ?thesis by blast
qed

lemma opening_no_dying:
  assumes "exclusive pcs" "i < length pcs" "creates (pcs ! i)"
  shows "dying pcs = {}"
proof -
  have False if "h \<in> dying pcs" for h
  proof -
    from dyingD [OF that] obtain j where j: "j < length pcs" "pcs ! j = CloseRemove h" by blast
    with assms(3) have "j \<noteq> i" by (auto simp: creates_def)
    from exclusiveD(1) [OF assms(1) j(1) assms(2) this] j(2) assms(3) show False by (simp add: conflict_def)
  qed
  then show ?thesis by blast
qed

lemma creating_alone:
  assumes "exclusive pcs" "i < length pcs" "creates (pcs ! i)" "j < length pcs" "j \<noteq> i"
  shows "closes (pcs ! j) = None" "opens (pcs ! i) = Some pid \<Longrightarrow> opens (pcs ! j) \<noteq> Some pid"
  using exclusiveD [OF assms(1,2,4)] assms(3,5) by (auto simp: conflict_def)

lemma race_invD:
  assumes "race_inv (pcs, a)"
  shows "exclusive pcs" "handles_wf (ap_handles a)"
    "owns (live_entry (dying pcs)) kind_of (ap_handles a) (inserted (loose pcs) (ap_heap a))"
    "\<And>j. j < length pcs \<Longrightarrow> point_ok (pcs ! j) a" "apart pcs"
  using assms by simp_all

lemma apart_step:
  assumes "apart pcs" "\<And>j. j < length pcs \<Longrightarrow> j \<noteq> i \<Longrightarrow> loosens c \<inter> loosens (pcs ! j) = {}"
  shows "apart (pcs[i := c])"
  unfolding apart_def
proof (intro allI impI)
  fix k l assume k: "k < length (pcs[i := c])" "l < length (pcs[i := c])" "k \<noteq> l"
  have "loosens (pcs ! k) \<inter> loosens (pcs ! l) = {}" using assms(1) k unfolding apart_def by simp
  with assms(2) [of k] assms(2) [of l] k show "loosens (pcs[i := c] ! k) \<inter> loosens (pcs[i := c] ! l) = {}"
    by (cases "k = i"; cases "l = i") (simp_all add: Int_commute)
qed

lemma race_inv_step:
  assumes "race_inv (pcs, a)" "i < length pcs" "continues (pcs ! i) c" "handles_wf (ap_handles a')"
    and "owns (live_entry (dying (pcs[i := c]))) kind_of (ap_handles a') (inserted (loose (pcs[i := c])) (ap_heap a'))"
    and "point_ok c a'" "\<And>j. j < length pcs \<Longrightarrow> j \<noteq> i \<Longrightarrow> point_ok (pcs ! j) a'"
    and "\<And>j. j < length pcs \<Longrightarrow> j \<noteq> i \<Longrightarrow> loosens c \<inter> loosens (pcs ! j) = {}"
  shows "race_inv (pcs[i := c], a')"
  using assms(2,4-7) exclusive_continues [OF race_invD(1) [OF assms(1)] assms(2,3)]
    apart_step [OF race_invD(5) [OF assms(1)] assms(8)]
  by (simp add: nth_list_update)

text \<open>The object of a handle that is not being deleted.\<close>

lemma live_object:
  assumes "race_inv (pcs, a)" "find_handle h (ap_handles a) = Some i" "h \<notin> dying pcs"
  obtains ob where "ap_heap a (hi_p i) = Some ob" "kind_of ob = hi_type i" "hi_p i \<noteq> 0" "hi_p i \<notin> loose pcs"
proof -
  have e: "live_entry (dying pcs) (ap_handles a) h = Some i" using assms(2,3) by (simp add: live_entry_def)
  from owns_live [OF race_invD(3) [OF assms(1)] e] that show ?thesis
    by (auto simp: inserted_def split: if_splits)
qed

lemma handle_of_type:
  assumes "GetHandleType h t = ty" "ty \<noteq> htEmpty"
  shows "\<exists>p. find_handle h t = Some \<lparr>hi_p = p, hi_type = ty\<rparr>"
proof -
  from assms obtain i where "find_handle h t = Some i" "hi_type i = ty"
    by (auto simp: handle_sel split: option.splits)
  then show ?thesis by (cases i) auto
qed

lemma use_type_not_empty [simp]: "use_type u \<noteq> htEmpty"
  by (cases u) simp_all

lemma memory_op_type: "memory_op u \<Longrightarrow> use_type u = htProcesHandle"
  by (cases u) (simp_all add: memory_op_def)


section \<open>Every step keeps the invariant and takes its effect once\<close>

definition simulates :: "'s apienv \<Rightarrow> 's config \<Rightarrow> event option \<Rightarrow> 's config \<Rightarrow> bool" where
  "simulates E c ev c' \<longleftrightarrow> race_inv c' \<and>
     (case ev of None \<Rightarrow> view c' = view c | Some e \<Rightarrow> spec_step E (view c) e (view c'))"

text \<open>A step that changes neither the table nor the objects.\<close>

lemma point_ok_cong:
  "ap_handles a' = ap_handles a \<Longrightarrow> ap_heap a' = ap_heap a \<Longrightarrow> point_ok c a' = point_ok c a"
  by (cases c) (simp_all add: unopened_def driver_of_def)

lemma quiet_step:
  assumes inv: "race_inv (pcs, a)" and i: "i < length pcs" and c: "continues (pcs ! i) c"
    and d: "dies (pcs ! i) = {}" "dies c = {}" "loosens (pcs ! i) = {}" "loosens c = {}"
    and a: "ap_handles a' = ap_handles a" "ap_heap a' = ap_heap a" and ok: "point_ok c a"
  shows "race_inv (pcs[i := c], a')" "dying (pcs[i := c]) = dying pcs"
proof -
  obtain R where R: "dying pcs = dies (pcs ! i) \<union> R" "\<And>c. dying (pcs[i := c]) = dies c \<union> R"
    by (rule dying_split [OF i]) blast
  obtain L where L: "loose pcs = loosens (pcs ! i) \<union> L" "\<And>c. loose (pcs[i := c]) = loosens c \<union> L"
    by (rule loose_split [OF i]) blast
  show D: "dying (pcs[i := c]) = dying pcs" using R d by simp
  show "race_inv (pcs[i := c], a')"
    using race_invD [OF inv] D L d a ok
    by (intro race_inv_step [OF inv i c]) (simp_all add: point_ok_cong [OF a])
qed

lemma quiet_simulates:
  assumes "race_inv (pcs, a)" "i < length pcs" "continues (pcs ! i) c"
    and "dies (pcs ! i) = {}" "dies c = {}" "loosens (pcs ! i) = {}" "loosens c = {}" "point_ok c a"
    and "ev = None \<or> (\<exists>e. ev = Some e \<and> spec_step E (view (pcs, a)) e (view (pcs, a)))"
  shows "simulates E (pcs, a) ev (pcs[i := c], a)"
  using quiet_step [OF assms(1-7) refl refl assms(8)] assms(9) by (auto simp: simulates_def)

lemma view_object:
  assumes "race_inv (pcs, a)" "h \<notin> dying pcs"
  shows "map_option kind_of (sp_objects (view (pcs, a)) h) =
    (if GetHandleType h (ap_handles a) = htEmpty then None else Some (GetHandleType h (ap_handles a)))"
proof (cases "find_handle h (ap_handles a)")
  case None
  then show ?thesis by (simp add: live_entry_def handle_sel)
next
  case (Some i)
  obtain ob where "ap_heap a (hi_p i) = Some ob" "kind_of ob = hi_type i"
    by (rule live_object [OF assms(1) Some assms(2)])
  moreover have "kind_of ob \<noteq> htEmpty" by (cases ob) simp_all
  ultimately show ?thesis using Some assms(2) by (simp add: live_entry_def handle_sel)
qed

lemma check_type_simulates:
  assumes inv: "race_inv (pcs, a)" and i: "i < length pcs" "pcs ! i = CheckType h u"
    and s: "call_step E (CheckType h u) a = Some (c, a')"
  shows "simulates E (pcs, a) (commit (CheckType h u) c) (pcs[i := c], a')"
proof -
  have d: "h \<notin> dying pcs"
    by (rule touched_not_dying [OF race_invD(1) [OF inv] i(1)]) (simp_all add: i)
  have a: "a' = a" and k: "continues (pcs ! i) c" using s call_continues [OF s] i by auto
  show ?thesis
  proof (cases "GetHandleType h (ap_handles a) = use_type u")
    case True
    with s have c: "c = LoadPointer h u" by simp
    show ?thesis unfolding a
      by (rule quiet_simulates [OF inv i(1) k]) (use i(2) handle_of_type [OF True use_type_not_empty] c in \<open>simp_all add: commit_def\<close>)
  next
    case False
    with s have c: "c = Returned (refused u)" by simp
    from False view_object [OF inv d]
    have "spec_step E (view (pcs, a)) (Used h u (refused u)) (view (pcs, a))"
      by (intro spec_step.refuse_use) (auto simp del: view.simps)
    then show ?thesis unfolding a
      by (intro quiet_simulates [OF inv i(1) k]) (simp_all add: i(2) c commit_def del: view.simps)
  qed
qed

lemma load_pointer_simulates:
  assumes inv: "race_inv (pcs, a)" and i: "i < length pcs" "pcs ! i = LoadPointer h u"
    and s: "call_step E (LoadPointer h u) a = Some (c, a')"
  shows "simulates E (pcs, a) (commit (LoadPointer h u) c) (pcs[i := c], a')"
proof -
  have a: "a' = a" "c = UseObject h (GetPointerFromHandle h (ap_handles a)) u"
    and k: "continues (pcs ! i) c" using s call_continues [OF s] i by auto
  have "point_ok (LoadPointer h u) a" using race_invD(4) [OF inv i(1)] i(2) by simp
  then have "point_ok c a" using a(2) by (auto simp: handle_sel)
  then show ?thesis unfolding a(1)
    by (intro quiet_simulates [OF inv i(1) k]) (simp_all add: i(2) a(2) commit_def)
qed


lemma view_live:
  "find_handle h (ap_handles a) = Some i \<Longrightarrow> h \<notin> dying pcs \<Longrightarrow> sp_objects (view (pcs, a)) h = ap_heap a (hi_p i)"
  by (simp add: live_entry_def)

text \<open>Changing the object of a handle, not its kind nor what a process was opened with.\<close>

fun same_process :: "obj \<Rightarrow> obj \<Rightarrow> bool" where
  "same_process (OpenProcessObj op) (OpenProcessObj op') =
     (op_pid op' = op_pid op \<and> u64DriverProcessHandle op' = u64DriverProcessHandle op)"
| "same_process ob ob' = (kind_of ob' = kind_of ob)"

lemma same_process_kind: "same_process ob ob' \<Longrightarrow> kind_of ob' = kind_of ob"
  by (cases ob; cases ob') auto

lemma fresh_maps_shape:
  "fresh_maps E op r s = Some (op', s') \<Longrightarrow>
    op_pid op' = op_pid op \<and> u64DriverProcessHandle op' = u64DriverProcessHandle op"
  by (auto simp: fresh_maps_def split: option.splits prod.splits if_splits)

lemma region_use_shape:
  assumes "region_use E u op r s = Some (ans, op', s')"
  shows "op_pid op' = op_pid op \<and> u64DriverProcessHandle op' = u64DriverProcessHandle op"
  using assms
  by (cases u) (auto simp: Let_def split: option.splits prod.splits if_splits dest: fresh_maps_shape)

lemma list_use_shape: "list_use u ob = Some (ans, ob') \<Longrightarrow> same_process ob ob'"
  by (cases u; cases ob) (auto simp: Let_def split: if_splits)

lemma object_use_shape: "object_use E u ob r s = Some (ans, ob', s') \<Longrightarrow> same_process ob ob'"
  by (auto simp: object_use_def split: obj.splits dest!: list_use_shape region_use_shape)

lemma point_ok_put:
  assumes "point_ok c a" "ap_heap a p = Some ob" "same_process ob ob'" "p \<notin> loosens c"
    and "ap_handles a' = ap_handles a" "ap_heap a' = (ap_heap a)(p \<mapsto> ob')"
  shows "point_ok c a'"
proof -
  have k: "unopened pid a \<Longrightarrow> unopened pid a'" for pid
    using assms(2,3,5,6) by (cases ob; cases ob'; fastforce simp: unopened_def split: if_splits)
  have d: "driver_of h d a \<Longrightarrow> driver_of h d a'" for h d
  proof -
    assume "driver_of h d a"
    then obtain q op where q: "find_handle h (ap_handles a) = Some \<lparr>hi_p = q, hi_type = htProcesHandle\<rparr>"
      "ap_heap a q = Some (OpenProcessObj op)" "u64DriverProcessHandle op = d" by (auto simp: driver_of_def)
    have "\<exists>op'. ap_heap a' q = Some (OpenProcessObj op') \<and> u64DriverProcessHandle op' = d"
    proof (cases "q = p")
      case True
      with q assms(2,3,6) show ?thesis by (cases ob') auto
    next
      case False
      with q assms(6) show ?thesis by simp
    qed
    with q(1) show ?thesis by (simp add: driver_of_def assms(5))
  qed
  show ?thesis using assms k d by (cases c) auto
qed

lemma use_object_simulates:
  assumes inv: "race_inv (pcs, a)" and i: "i < length pcs" "pcs ! i = UseObject h p u"
    and s: "call_step E (UseObject h p u) a = Some (c, a')"
  shows "simulates E (pcs, a) (commit (UseObject h p u) c) (pcs[i := c], a')"
proof -
  let ?inf = "\<lparr>hi_p = p, hi_type = use_type u\<rparr>"
  have k: "continues (pcs ! i) c" using call_continues [OF s] i by simp
  have d: "h \<notin> dying pcs"
    by (rule touched_not_dying [OF race_invD(1) [OF inv] i(1)]) (simp_all add: i)
  have f: "find_handle h (ap_handles a) = Some ?inf" using race_invD(4) [OF inv i(1)] i(2) by simp
  obtain ob where ob: "ap_heap a p = Some ob" "kind_of ob = use_type u" "p \<notin> loose pcs"
    using live_object [OF inv f d] by auto
  show ?thesis
  proof (cases "memory_op u")
    case True
    with ob(2) obtain op where op: "ob = OpenProcessObj op" by (auto simp: memory_op_type kind_of_cases)
    with s ob True have c: "c = CallDriver h (u64DriverProcessHandle op) u" "a' = a" by simp_all
    show ?thesis unfolding c(2)
      by (rule quiet_simulates [OF inv i(1) k])
        (use i(2) c(1) True f ob(1) op in \<open>simp_all add: commit_def memory_op_type driver_of_def\<close>)
  next
    case False
    with s ob obtain ans ob' w where u: "object_use E u ob (m_Driver a) (ap_os a) = Some (ans, ob', w)"
      "c = Returned ans" "a' = put_obj p ob' (a\<lparr>ap_os := w\<rparr>)"
      by (auto split: option.splits)
    note sp = object_use_shape [OF u(1)]
    have a': "ap_handles a' = ap_handles a" "ap_heap a' = (ap_heap a)(p \<mapsto> ob')" unfolding u(3) by simp_all
    obtain R where R: "dying pcs = dies (pcs ! i) \<union> R" "\<And>c. dying (pcs[i := c]) = dies c \<union> R"
      by (rule dying_split [OF i(1)]) blast
    obtain L where L: "loose pcs = loosens (pcs ! i) \<union> L" "\<And>c. loose (pcs[i := c]) = loosens c \<union> L"
      by (rule loose_split [OF i(1)]) blast
    have D: "dying (pcs[i := c]) = dying pcs" "loose (pcs[i := c]) = loose pcs"
      using R L by (simp_all add: i(2) u(2))
    have h': "inserted (loose pcs) (ap_heap a') = (inserted (loose pcs) (ap_heap a))(p \<mapsto> ob')"
      using ob(3) by (auto simp: a' inserted_def)
    have p: "inserted (loose pcs) (ap_heap a) p = Some ob" using ob by (simp add: inserted_def)
    have o: "owns (live_entry (dying pcs)) kind_of (ap_handles a) (inserted (loose pcs) (ap_heap a'))"
      unfolding h' by (rule owns_update [OF race_invD(3) [OF inv] p same_process_kind [OF sp]])
    have "race_inv (pcs[i := c], a')"
    proof (rule race_inv_step [OF inv i(1) k])
      show "handles_wf (ap_handles a')" using race_invD(2) [OF inv] by (simp add: a')
      show "point_ok c a'" by (simp add: u(2))
      fix j assume j: "j < length pcs" "j \<noteq> i"
      have "p \<notin> loosens (pcs ! j)" using ob(3) j(1) by (auto simp: loose_def)
      with point_ok_put [OF race_invD(4) [OF inv j(1)] ob(1) sp _ a'] show "point_ok (pcs ! j) a'" by blast
      show "loosens c \<inter> loosens (pcs ! j) = {}" by (simp add: u(2))
    qed (use o in \<open>simp add: D a'(1)\<close>)
    moreover have "view (pcs[i := c], a') = (view (pcs, a))\<lparr>sp_objects := (sp_objects (view (pcs, a)))(h \<mapsto> ob'), sp_os := w\<rparr>"
    proof -
      have "hi_p j = p \<Longrightarrow> k = h" if "live_entry (dying pcs) (ap_handles a) k = Some j" for k j
        using owns_inj [OF race_invD(3) [OF inv] that, of h ?inf] f d by (simp add: live_entry_def)
      with f d show ?thesis
        by (auto simp: D a' u(3) fun_eq_iff live_entry_def split: option.splits)
    qed
    moreover have "spec_step E (view (pcs, a)) (Used h u ans)
        ((view (pcs, a))\<lparr>sp_objects := (sp_objects (view (pcs, a)))(h \<mapsto> ob'), sp_os := w\<rparr>)"
      by (rule spec_step.use_object [of _ _ ob])
        (use False u(1) ob f d view_live [OF f d] in \<open>simp_all add: atomic_use_def\<close>)
    ultimately show ?thesis by (simp add: simulates_def commit_def u(2) del: view.simps race_inv.simps)
  qed
qed

lemma call_driver_simulates:
  assumes inv: "race_inv (pcs, a)" and i: "i < length pcs" "pcs ! i = CallDriver h hv u"
    and s: "call_step E (CallDriver h hv u) a = Some (c, a')"
  shows "simulates E (pcs, a) (commit (CallDriver h hv u) c) (pcs[i := c], a')"
proof -
  have k: "continues (pcs ! i) c" using call_continues [OF s] i by simp
  have d: "h \<notin> dying pcs"
    by (rule touched_not_dying [OF race_invD(1) [OF inv] i(1)]) (simp_all add: i)
  obtain p op where f: "memory_op u" "find_handle h (ap_handles a) = Some \<lparr>hi_p = p, hi_type = htProcesHandle\<rparr>"
    "ap_heap a p = Some (OpenProcessObj op)" "u64DriverProcessHandle op = hv"
    using race_invD(4) [OF inv i(1)] i(2) by (auto simp: driver_of_def)
  from s obtain ans w where u: "memory_use E u hv (m_Driver a) (ap_os a) = Some (ans, w)"
    "c = Returned ans" "a' = a\<lparr>ap_os := w\<rparr>" by (auto split: option.splits)
  have q: "race_inv (pcs[i := c], a')" "dying (pcs[i := c]) = dying pcs"
    by (rule quiet_step [OF inv i(1) k]; simp add: i(2) u)+
  have v: "sp_objects (view (pcs, a)) h = Some (OpenProcessObj op)" using view_live [OF f(2) d] f(3) by simp
  have "spec_step E (view (pcs, a)) (Used h u ans)
      ((view (pcs, a))\<lparr>sp_objects := (sp_objects (view (pcs, a)))(h \<mapsto> OpenProcessObj op), sp_os := w\<rparr>)"
    by (rule spec_step.use_object [OF v]) (use f u(1) in \<open>simp_all add: atomic_use_def memory_op_type\<close>)
  moreover have "view (pcs[i := c], a') =
      (view (pcs, a))\<lparr>sp_objects := (sp_objects (view (pcs, a)))(h \<mapsto> OpenProcessObj op), sp_os := w\<rparr>"
    using v by (simp add: q(2) u(3) fun_upd_idem cong: option.case_cong)
  ultimately show ?thesis using q(1) by (simp add: simulates_def commit_def u(2) del: view.simps race_inv.simps)
qed


text \<open>Closing.\<close>

lemma close_type_simulates:
  assumes inv: "race_inv (pcs, a)" and i: "i < length pcs" "pcs ! i = CloseType h"
    and s: "call_step E (CloseType h) a = Some (c, a')"
  shows "simulates E (pcs, a) (commit (CloseType h) c) (pcs[i := c], a')"
proof -
  have a: "a' = a" "c = ClosePointer h (GetHandleType h (ap_handles a))" and k: "continues (pcs ! i) c"
    using s call_continues [OF s] i by auto
  show ?thesis unfolding a(1)
    by (rule quiet_simulates [OF inv i(1) k]) (simp_all add: i(2) a(2) commit_def)
qed

lemma close_pointer_simulates:
  assumes inv: "race_inv (pcs, a)" and i: "i < length pcs" "pcs ! i = ClosePointer h ht"
    and s: "call_step E (ClosePointer h ht) a = Some (c, a')"
  shows "simulates E (pcs, a) (commit (ClosePointer h ht) c) (pcs[i := c], a')"
proof -
  have k: "continues (pcs ! i) c" using call_continues [OF s] i by simp
  have d: "h \<notin> dying pcs"
    by (rule touched_not_dying [OF race_invD(1) [OF inv] i(1)]) (simp_all add: i)
  have g: "GetHandleType h (ap_handles a) = ht" using race_invD(4) [OF inv i(1)] i(2) by simp
  show ?thesis
  proof (cases "find_handle h (ap_handles a)")
    case (Some x)
    then have x: "find_handle h (ap_handles a) = Some \<lparr>hi_p = hi_p x, hi_type = ht\<rparr>"
      "GetPointerFromHandle h (ap_handles a) = hi_p x"
      using g by (simp_all add: handle_sel)
    obtain ob where "kind_of ob = ht" using live_object [OF inv Some d] Some g by (auto simp: handle_sel)
    then have c: "a' = a" "c = (if ht = htProcesHandle then CloseDriver h (hi_p x) else CloseDelete h ht (hi_p x))"
      using s x(2) by (cases ob; auto simp: Let_def)+
    show ?thesis unfolding c(1)
      by (rule quiet_simulates [OF inv i(1) k]) (use x(1) in \<open>simp_all add: i(2) c(2) commit_def\<close>)
  next
    case None
    with g s have c: "a' = a" "c = CloseRemove h" by (auto simp: handle_sel Let_def)
    obtain R where R: "dying pcs = dies (pcs ! i) \<union> R" "\<And>c. dying (pcs[i := c]) = dies c \<union> R"
      by (rule dying_split [OF i(1)]) blast
    obtain L where L: "loose pcs = loosens (pcs ! i) \<union> L" "\<And>c. loose (pcs[i := c]) = loosens c \<union> L"
      by (rule loose_split [OF i(1)]) blast
    have e: "live_entry (dying (pcs[i := c])) (ap_handles a) = live_entry (dying pcs) (ap_handles a)"
      using R None by (auto simp: i(2) c(2) live_entry_def fun_eq_iff)
    have l: "loose (pcs[i := c]) = loose pcs" using L by (simp add: i(2) c(2))
    have o: "owns (live_entry (dying (pcs[i := c]))) kind_of (ap_handles a) (inserted (loose pcs) (ap_heap a))"
      using race_invD(3) [OF inv] unfolding owns_def e .
    have "race_inv (pcs[i := c], a)"
      using o l race_invD [OF inv] by (intro race_inv_step [OF inv i(1) k]) (simp_all add: c(2))
    moreover have "view (pcs[i := c], a) = view (pcs, a)" by (simp add: e)
    moreover have "spec_step E (view (pcs, a)) (Closed h)
        ((view (pcs, a))\<lparr>sp_objects := (sp_objects (view (pcs, a)))(h := None)\<rparr>)"
      by (rule spec_step.close_object)
    moreover have "(sp_objects (view (pcs, a)))(h := None) = sp_objects (view (pcs, a))"
      using None by (auto simp: live_entry_def fun_eq_iff)
    ultimately show ?thesis
      by (simp add: simulates_def commit_def c del: view.simps race_inv.simps)
  qed
qed

lemma close_driver_simulates:
  assumes inv: "race_inv (pcs, a)" and i: "i < length pcs" "pcs ! i = CloseDriver h p"
    and s: "call_step E (CloseDriver h p) a = Some (c, a')"
  shows "simulates E (pcs, a) (commit (CloseDriver h p) c) (pcs[i := c], a')"
proof -
  have a: "a' = a" "c = CloseDelete h htProcesHandle p" and k: "continues (pcs ! i) c"
    using s call_continues [OF s] i by (auto split: option.splits obj.splits)
  have "point_ok c a" using race_invD(4) [OF inv i(1)] i(2) a(2) by simp
  then show ?thesis unfolding a(1)
    by (intro quiet_simulates [OF inv i(1) k]) (simp_all add: i(2) a(2) commit_def)
qed

text \<open>The object goes, its handle is hidden.\<close>

lemma owns_hide:
  assumes "owns f kind t heap" "f t h = Some i" "g t = (f t)(h := None)"
  shows "owns g kind t (heap(hi_p i := None))"
proof (rule ownsI)
  fix k j assume "g t k = Some j"
  then have k: "f t k = Some j" "k \<noteq> h" by (auto simp: assms(3) split: if_splits)
  with owns_inj [OF assms(1) _ assms(2)] have "hi_p j \<noteq> hi_p i" by blast
  with owns_live [OF assms(1) k(1)]
  show "hi_p j \<noteq> 0 \<and> (\<exists>ob. (heap(hi_p i := None)) (hi_p j) = Some ob \<and> kind ob = hi_type j)" by simp
next
  fix k l j j' assume "g t k = Some j" "g t l = Some j'" "hi_p j = hi_p j'"
  then show "k = l" using owns_inj [OF assms(1)] by (auto simp: assms(3) split: if_splits)
next
  fix p assume p: "(heap(hi_p i := None)) p \<noteq> None"
  then obtain k j where k: "f t k = Some j" "hi_p j = p"
    using owns_all [OF assms(1)] by (auto split: if_splits)
  with p assms(2) have "k \<noteq> h" by auto
  with k show "\<exists>k j. g t k = Some j \<and> hi_p j = p" by (auto simp: assms(3))
qed

lemma close_delete_simulates:
  assumes inv: "race_inv (pcs, a)" and i: "i < length pcs" "pcs ! i = CloseDelete h ht p"
    and s: "call_step E (CloseDelete h ht p) a = Some (c, a')"
  shows "simulates E (pcs, a) (commit (CloseDelete h ht p) c) (pcs[i := c], a')"
proof -
  let ?inf = "\<lparr>hi_p = p, hi_type = ht\<rparr>"
  note ex = race_invD(1) [OF inv]
  have k: "continues (pcs ! i) c" using call_continues [OF s] i by simp
  have cl: "closes (pcs ! i) = Some h" by (simp add: i)
  have d: "h \<notin> dying pcs" by (rule touched_not_dying [OF ex i(1)]) (simp_all add: i)
  have f: "find_handle h (ap_handles a) = Some ?inf" using race_invD(4) [OF inv i(1)] i(2) by simp
  from s have c: "c = CloseRemove h" "ap_handles a' = ap_handles a" "ap_heap a' = (ap_heap a)(p := None)"
    "m_Driver a' = m_Driver a" "ap_os a' = ap_os a"
    by (auto split: option.splits if_splits)
  have L: "loose pcs = {}" by (rule closing_no_loose [OF ex i(1) cl])
  have L': "loose (pcs[i := c]) = {}"
    by (rule loose_split [OF i(1)]) (use L c(1) in simp)
  have D: "dying (pcs[i := c]) = insert h (dying pcs)"
    by (rule dying_split [OF i(1)]) (simp add: i(2) c(1))
  have e: "live_entry (dying pcs) (ap_handles a) h = Some ?inf" using f d by (simp add: live_entry_def)
  have g: "live_entry (insert h (dying pcs)) (ap_handles a) = (live_entry (dying pcs) (ap_handles a))(h := None)"
    by (auto simp: live_entry_def fun_eq_iff)
  have own: "owns (live_entry (dying pcs)) kind_of (ap_handles a) (ap_heap a)"
    using race_invD(3) [OF inv] by (simp add: L)
  have own': "owns (live_entry (insert h (dying pcs))) kind_of (ap_handles a) ((ap_heap a)(p := None))"
    using owns_hide [of "live_entry (dying pcs)" kind_of "ap_handles a" "ap_heap a" h ?inf
        "live_entry (insert h (dying pcs))", OF own e g] by simp
  have other: "q \<noteq> p" if "find_handle l (ap_handles a) = Some \<lparr>hi_p = q, hi_type = ty\<rparr>" "l \<notin> dying pcs" "l \<noteq> h" for l q ty
    using owns_inj [OF own _ e, of l "\<lparr>hi_p = q, hi_type = ty\<rparr>"] that by (auto simp: live_entry_def)
  have "race_inv (pcs[i := c], a')"
  proof (rule race_inv_step [OF inv i(1) k])
    show "handles_wf (ap_handles a')" using race_invD(2) [OF inv] by (simp add: c)
    show "owns (live_entry (dying (pcs[i := c]))) kind_of (ap_handles a') (inserted (loose (pcs[i := c])) (ap_heap a'))"
      using own' unfolding D L' by (simp add: c)
    show "point_ok c a'" by (simp add: c)
    fix j assume j: "j < length pcs" "j \<noteq> i"
    note al = closing_alone [OF ex i(1) cl j]
    have ok: "point_ok (pcs ! j) a" by (rule race_invD(4) [OF inv j(1)])
    show "point_ok (pcs ! j) a'"
    proof (cases "pcs ! j")
      case (CallDriver l dh u)
      have "l \<notin> dying pcs" by (rule touched_not_dying [OF ex j(1)]) (simp_all add: CallDriver)
      with ok al(1) other CallDriver show ?thesis by (force simp: c driver_of_def)
    qed (use ok al in \<open>auto simp: c creates_def\<close>)
    show "loosens c \<inter> loosens (pcs ! j) = {}" by (simp add: c(1))
  qed
  moreover have "view (pcs[i := c], a') = (view (pcs, a))\<lparr>sp_objects := (sp_objects (view (pcs, a)))(h := None)\<rparr>"
  proof -
    have dg: "live_entry (dying (pcs[i := c])) (ap_handles a') = (live_entry (dying pcs) (ap_handles a))(h := None)"
      by (simp only: D g c(2))
    have "hi_p x \<noteq> p" if "live_entry (dying pcs) (ap_handles a) l = Some x" "l \<noteq> h" for l x
      using owns_inj [OF own that(1) e] that(2) by auto
    then have "sp_objects (view (pcs[i := c], a')) l = ((sp_objects (view (pcs, a)))(h := None)) l" for l
      by (cases "live_entry (dying pcs) (ap_handles a) l") (auto simp: dg c(3))
    then have "sp_objects (view (pcs[i := c], a')) = (sp_objects (view (pcs, a)))(h := None)" by (rule ext)
    then show ?thesis by (simp add: c(4,5))
  qed
  moreover have "spec_step E (view (pcs, a)) (Closed h)
      ((view (pcs, a))\<lparr>sp_objects := (sp_objects (view (pcs, a)))(h := None)\<rparr>)"
    by (rule spec_step.close_object)
  ultimately show ?thesis
    by (simp add: simulates_def commit_def c(1) del: view.simps race_inv.simps)
qed


lemma close_remove_simulates:
  assumes inv: "race_inv (pcs, a)" and i: "i < length pcs" "pcs ! i = CloseRemove h"
    and s: "call_step E (CloseRemove h) a = Some (c, a')"
  shows "simulates E (pcs, a) (commit (CloseRemove h) c) (pcs[i := c], a')"
proof -
  note ex = race_invD(1) [OF inv] and wf = race_invD(2) [OF inv]
  have k: "continues (pcs ! i) c" using call_continues [OF s] i by simp
  have cl: "closes (pcs ! i) = Some h" by (simp add: i)
  from s have c: "c = Returned HandleClosed" "a' = a\<lparr>ap_handles := RemoveHandle h (ap_handles a)\<rparr>" by simp_all
  obtain R where R: "dying pcs = dies (pcs ! i) \<union> R" "\<And>c. dying (pcs[i := c]) = dies c \<union> R"
    "\<And>h. h \<in> R \<Longrightarrow> \<exists>j < length pcs. j \<noteq> i \<and> pcs ! j = CloseRemove h"
    by (rule dying_split [OF i(1)], rule that)
  have "h \<notin> R"
  proof
    assume "h \<in> R"
    from R(3) [OF this] obtain j where j: "j < length pcs" "j \<noteq> i" "pcs ! j = CloseRemove h" by blast
    from closing_alone(1) [OF ex i(1) cl j(1,2)] j(3) show False by simp
  qed
  then have D: "dying pcs = insert h R" "dying (pcs[i := c]) = R" using R by (simp_all add: i(2) c(1))
  have L: "loose pcs = {}" by (rule closing_no_loose [OF ex i(1) cl])
  have L': "loose (pcs[i := c]) = {}" by (rule loose_split [OF i(1)]) (use L c(1) in simp)
  note rf = ht.remove_find [OF wf]
  have e: "live_entry (dying pcs) (ap_handles a) = live_entry (dying (pcs[i := c])) (ap_handles a')"
    unfolding D by (auto simp: live_entry_def fun_eq_iff c(2) rf)
  have "race_inv (pcs[i := c], a')"
  proof (rule race_inv_step [OF inv i(1) k])
    show "handles_wf (ap_handles a')" using ht.remove_wf [OF wf] by (simp add: c)
    show "owns (live_entry (dying (pcs[i := c]))) kind_of (ap_handles a') (inserted (loose (pcs[i := c])) (ap_heap a'))"
      using race_invD(3) [OF inv] unfolding owns_def e L L' by (simp add: c(2))
    show "point_ok c a'" by (simp add: c)
    fix j assume j: "j < length pcs" "j \<noteq> i"
    note al = closing_alone [OF ex i(1) cl j]
    have "point_ok (pcs ! j) a" by (rule race_invD(4) [OF inv j(1)])
    with al show "point_ok (pcs ! j) a'" by (cases "pcs ! j") (auto simp: c(2) rf handle_sel creates_def driver_of_def)
    show "loosens c \<inter> loosens (pcs ! j) = {}" by (simp add: c(1))
  qed
  moreover have "view (pcs[i := c], a') = view (pcs, a)" unfolding view.simps e by (simp add: c(2) cong: option.case_cong)
  ultimately show ?thesis by (simp add: simulates_def commit_def c(1) del: view.simps race_inv.simps)
qed

text \<open>Opening.\<close>

lemma unopened_view:
  assumes "unopened pid a"
  shows "not_open pid (view (pcs, a))"
  using assms by (auto simp: not_open_def unopened_def live_entry_def split: option.splits if_splits)

lemma find_by_pid:
  assumes inv: "race_inv (pcs, a)" and d: "dying pcs = {}"
  shows "\<exists>h. FindHandleByPID (pid_at (ap_heap a)) pid (ap_handles a) = Some h \<and>
    (if raw h = 0 then unopened pid a
     else \<exists>op. sp_objects (view (pcs, a)) h = Some (OpenProcessObj op) \<and> op_pid op = pid)"
proof -
  have live: "\<exists>ob. ap_heap a (hi_p i) = Some ob \<and> kind_of ob = hi_type i"
    if "find_handle k (ap_handles a) = Some i" for k i
    using live_object [OF inv that] d by blast
  have p: "pid_at (ap_heap a) (hi_p i) \<noteq> None"
    if "find_handle k (ap_handles a) = Some i" "hi_type i = htProcesHandle" for k i
    using live [OF that(1)] that(2) by (auto simp: kind_of_cases pid_at_def)
  have "\<exists>h. FindHandleByPID (pid_at (ap_heap a)) pid (ap_handles a) = Some h \<and>
    (if h = HANDLE 0
     then \<forall>k i. find_handle k (ap_handles a) = Some i \<longrightarrow> hi_type i = htProcesHandle \<longrightarrow>
       pid_at (ap_heap a) (hi_p i) \<noteq> Some pid
     else (\<exists>i. find_handle h (ap_handles a) = Some i \<and> hi_type i = htProcesHandle \<and>
         pid_at (ap_heap a) (hi_p i) = Some pid) \<and>
       (\<forall>k i. find_handle k (ap_handles a) = Some i \<longrightarrow> k < h \<longrightarrow> hi_type i = htProcesHandle \<longrightarrow>
         pid_at (ap_heap a) (hi_p i) \<noteq> Some pid))"
    by (rule find_handle_by_pid_ok [OF race_invD(2) [OF inv]]) (rule p)
  then obtain h where h: "FindHandleByPID (pid_at (ap_heap a)) pid (ap_handles a) = Some h"
    "if h = HANDLE 0
     then \<forall>k i. find_handle k (ap_handles a) = Some i \<longrightarrow> hi_type i = htProcesHandle \<longrightarrow>
       pid_at (ap_heap a) (hi_p i) \<noteq> Some pid
     else \<exists>i. find_handle h (ap_handles a) = Some i \<and> hi_type i = htProcesHandle \<and>
         pid_at (ap_heap a) (hi_p i) = Some pid"
    by (auto split: if_splits)
  have z: "h = HANDLE 0 \<longleftrightarrow> raw h = 0" by (cases h) simp
  show ?thesis
  proof (cases "raw h = 0")
    case True
    with h(2) z have n: "find_handle k (ap_handles a) = Some i \<Longrightarrow> hi_type i = htProcesHandle \<Longrightarrow>
      pid_at (ap_heap a) (hi_p i) \<noteq> Some pid" for k i by simp
    have "op_pid op \<noteq> pid"
      if k: "find_handle k (ap_handles a) = Some i" "ap_heap a (hi_p i) = Some (OpenProcessObj op)" for k i op
      using n [OF k(1)] live [OF k(1)] k(2) by (auto simp: pid_at_def)
    then have "unopened pid a" unfolding unopened_def by blast
    with h(1) True show ?thesis by (intro exI [of _ h]) simp
  next
    case False
    with h(2) z obtain i where "find_handle h (ap_handles a) = Some i" "pid_at (ap_heap a) (hi_p i) = Some pid" by auto
    then have "\<exists>op. sp_objects (view (pcs, a)) h = Some (OpenProcessObj op) \<and> op_pid op = pid"
      using d by (auto simp: pid_at_def split: option.splits obj.splits)
    with h(1) False show ?thesis by (intro exI [of _ h]) simp
  qed
qed

lemma open_find_simulates:
  assumes inv: "race_inv (pcs, a)" and i: "i < length pcs" "pcs ! i = OpenFind pid"
    and s: "call_step E (OpenFind pid) a = Some (c, a')"
  shows "simulates E (pcs, a) (commit (OpenFind pid) c) (pcs[i := c], a')"
proof -
  have k: "continues (pcs ! i) c" using call_continues [OF s] i by simp
  have d: "dying pcs = {}"
    by (rule opening_no_dying [OF race_invD(1) [OF inv] i(1)]) (simp add: i creates_def)
  obtain h where h: "FindHandleByPID (pid_at (ap_heap a)) pid (ap_handles a) = Some h"
    "if raw h = 0 then unopened pid a
     else \<exists>op. sp_objects (view (pcs, a)) h = Some (OpenProcessObj op) \<and> op_pid op = pid"
    using find_by_pid [OF inv d] by blast
  from s h(1) have a: "a' = a" "c = (if raw h \<noteq> 0 then Returned (OpenedHandle h) else OpenNew pid)" by auto
  show ?thesis unfolding a(1)
  proof (rule quiet_simulates [OF inv i(1) k])
    show "point_ok c a" using h(2) a(2) by auto
    show "commit (OpenFind pid) c = None \<or>
      (\<exists>e. commit (OpenFind pid) c = Some e \<and> spec_step E (view (pcs, a)) e (view (pcs, a)))"
      using h(2) a(2) by (auto simp: commit_def simp del: view.simps intro: spec_step.open_again)
  qed (simp_all add: i(2) a(2))
qed


text \<open>Storage for a new object, and its handle.\<close>

lemma fresh_not_pointed:
  assumes inv: "race_inv (pcs, a)" and "dying pcs = {}" "ap_heap a p = None" and x: "find_handle l (ap_handles a) = Some x"
  shows "hi_p x \<noteq> p"
proof -
  obtain ob where "ap_heap a (hi_p x) = Some ob" by (rule live_object [OF inv x]) (simp add: assms(2))
  with assms(3) show ?thesis by auto
qed

lemma fresh_unopened:
  assumes "race_inv (pcs, a)" "dying pcs = {}" "ap_heap a p = None" "unopened q a"
    and "ap_handles a' = ap_handles a" "ap_heap a' = (ap_heap a)(p \<mapsto> ob)"
  shows "unopened q a'"
  using assms(4) by (auto simp: unopened_def assms(5,6) dest: fresh_not_pointed [OF assms(1-3)])

lemma alloc_step:
  assumes inv: "race_inv (pcs, a)" and i: "i < length pcs" "creates (pcs ! i)" "loosens (pcs ! i) = {}"
    and c: "continues (pcs ! i) c" "dies c = {}" "loosens c = {p}" "point_ok c a'"
    and p: "ap_heap a p = None"
    and a': "ap_handles a' = ap_handles a" "ap_heap a' = (ap_heap a)(p \<mapsto> ob)"
  shows "race_inv (pcs[i := c], a')" "sp_objects (view (pcs[i := c], a')) = sp_objects (view (pcs, a))"
proof -
  note ex = race_invD(1) [OF inv]
  have d: "dying pcs = {}" by (rule opening_no_dying [OF ex i(1,2)])
  have D: "dying (pcs[i := c]) = {}" by (rule dying_split [OF i(1)]) (use d c(2) in simp)
  have L: "loose (pcs[i := c]) = insert p (loose pcs)" by (rule loose_split [OF i(1)]) (simp add: i(3) c(3))
  have ins: "inserted (insert p (loose pcs)) ((ap_heap a)(p \<mapsto> ob)) = inserted (loose pcs) (ap_heap a)"
    using p by (auto simp: inserted_def fun_eq_iff)
  note other = fresh_not_pointed [OF inv d p]
  have dr: "driver_of h v a'" if "driver_of h v a" for h v
    using that other by (fastforce simp: driver_of_def a')
  note un = fresh_unopened [OF inv d p _ a']
  show "race_inv (pcs[i := c], a')"
  proof (rule race_inv_step [OF inv i(1) c(1)])
    show "handles_wf (ap_handles a')" using race_invD(2) [OF inv] by (simp add: a')
    show "owns (live_entry (dying (pcs[i := c]))) kind_of (ap_handles a') (inserted (loose (pcs[i := c])) (ap_heap a'))"
      using race_invD(3) [OF inv] unfolding D L d by (simp add: a' ins)
    show "point_ok c a'" by (rule c(4))
    fix j assume j: "j < length pcs" "j \<noteq> i"
    have ok: "point_ok (pcs ! j) a" by (rule race_invD(4) [OF inv j(1)])
    then show "point_ok (pcs ! j) a'"
      using un dr p by (cases "pcs ! j") (auto simp: a')
    show "loosens c \<inter> loosens (pcs ! j) = {}"
      using ok p by (cases "pcs ! j") (auto simp: c(3))
  qed
  show "sp_objects (view (pcs[i := c], a')) = sp_objects (view (pcs, a))"
    using other by (auto simp: D d a' fun_eq_iff split: option.splits)
qed

lemma insert_step:
  assumes inv: "race_inv (pcs, a)" and i: "i < length pcs" "creates (pcs ! i)" "loosens (pcs ! i) = {p}"
    and ob: "ap_heap a p = Some ob" "p \<noteq> 0" and c: "continues (pcs ! i) (Returned ans)"
    and n: "CreateHandleFromPointer (ae_rd E) p (kind_of ob) (ap_handles a) = Some (h, t)"
    and pid: "\<And>j op. j < length pcs \<Longrightarrow> j \<noteq> i \<Longrightarrow> ob = OpenProcessObj op \<Longrightarrow> opens (pcs ! j) \<noteq> Some (op_pid op)"
  shows "race_inv (pcs[i := Returned ans], a\<lparr>ap_handles := t\<rparr>)"
    "sp_objects (view (pcs[i := Returned ans], a\<lparr>ap_handles := t\<rparr>)) = (sp_objects (view (pcs, a)))(h \<mapsto> ob)"
    "sp_objects (view (pcs, a)) h = None" "raw h \<noteq> 0"
proof -
  let ?a' = "a\<lparr>ap_handles := t\<rparr>"
  note ex = race_invD(1) [OF inv] and wf = race_invD(2) [OF inv]
  have d: "dying pcs = {}" by (rule opening_no_dying [OF ex i(1,2)])
  note fresh = ht.create_fresh [OF wf n] and cf = ht.create_find [OF wf n]
  obtain R where R: "loose pcs = loosens (pcs ! i) \<union> R" "\<And>c. loose (pcs[i := c]) = loosens c \<union> R"
    "\<And>p. p \<in> R \<Longrightarrow> \<exists>j < length pcs. j \<noteq> i \<and> p \<in> loosens (pcs ! j)"
    by (rule loose_split [OF i(1)], rule that)
  have "p \<notin> R" using R(3) race_invD(5) [OF inv] i(1,3) by (fastforce simp: apart_def)
  then have L: "loose pcs = insert p R" "loose (pcs[i := Returned ans]) = R" using R by (simp_all add: i(3))
  have D: "dying (pcs[i := Returned ans]) = {}" by (rule dying_split [OF i(1)]) (use d in simp)
  have ins: "inserted R (ap_heap a) = (inserted (loose pcs) (ap_heap a))(p \<mapsto> ob)"
    using \<open>p \<notin> R\<close> ob(1) by (auto simp: L inserted_def fun_eq_iff)
  have own: "owns (\<lambda>t h. find_handle h t) kind_of (ap_handles a) (inserted (loose pcs) (ap_heap a))"
    using race_invD(3) [OF inv] by (simp add: d)
  have z: "inserted (loose pcs) (ap_heap a) p = None" by (simp add: L inserted_def)
  from ht.owns_create [OF wf own n z ob(2)]
  have own': "owns (\<lambda>t h. find_handle h t) kind_of t (inserted R (ap_heap a))" unfolding ins .
  have un: "unopened q ?a'" if "unopened q a" "\<And>op. ob = OpenProcessObj op \<Longrightarrow> op_pid op \<noteq> q" for q
    using that ob(1) by (auto simp: unopened_def cf)
  have dr: "driver_of k v ?a'" if "driver_of k v a" for k v
    using that fresh by (auto simp: driver_of_def cf)
  show "race_inv (pcs[i := Returned ans], ?a')"
  proof (rule race_inv_step [OF inv i(1) c])
    show "handles_wf (ap_handles ?a')" using ht.create_wf [OF wf n] by simp
    show "owns (live_entry (dying (pcs[i := Returned ans]))) kind_of (ap_handles ?a')
        (inserted (loose (pcs[i := Returned ans])) (ap_heap ?a'))"
      using own' unfolding D L by simp
    fix j assume j: "j < length pcs" "j \<noteq> i"
    have "point_ok (pcs ! j) a" by (rule race_invD(4) [OF inv j(1)])
    with creating_alone(1) [OF ex i(1,2) j] pid [OF j] un dr fresh show "point_ok (pcs ! j) ?a'"
      by (cases "pcs ! j") (auto simp: cf)
  qed simp_all
  show "sp_objects (view (pcs[i := Returned ans], ?a')) = (sp_objects (view (pcs, a)))(h \<mapsto> ob)"
    using ob(1) by (auto simp: D d cf fun_eq_iff cong: option.case_cong)
  show "sp_objects (view (pcs, a)) h = None" "raw h \<noteq> 0" using fresh by (simp_all add: d)
qed

lemma open_new_simulates:
  assumes E: "new_fresh E" and inv: "race_inv (pcs, a)" and i: "i < length pcs" "pcs ! i = OpenNew pid"
    and s: "call_step E (OpenNew pid) a = Some (c, a')"
  shows "simulates E (pcs, a) (commit (OpenNew pid) c) (pcs[i := c], a')"
proof -
  have k: "continues (pcs ! i) c" using call_continues [OF s] i by simp
  have cr: "creates (pcs ! i)" by (simp add: i creates_def)
  have d: "dying pcs = {}" by (rule opening_no_dying [OF race_invD(1) [OF inv] i(1) cr])
  have un: "unopened pid a" using race_invD(4) [OF inv i(1)] i(2) by simp
  show ?thesis
  proof (cases "drv_OpenProcess (scast pid) = 0")
    case True
    with s have a: "a' = a" "c = Returned (OpenedHandle (HANDLE 0))" by simp_all
    show ?thesis unfolding a(1)
      by (rule quiet_simulates [OF inv i(1) k])
        (use True unopened_view [OF un] in
          \<open>auto simp: i(2) a(2) commit_def simp del: view.simps intro: spec_step.refuse_open\<close>)
  next
    case False
    let ?ob = "OpenProcessObj (opened_process pid)"
    from s False obtain p where n: "ae_new E (ap_heap a) = Some p" "c = OpenInsert pid p" "a' = put_obj p ?ob a"
      by (auto split: option.splits)
    have fresh: "ap_heap a p = None" "p \<noteq> 0" using E n(1) by (auto simp: new_fresh_def)
    have a': "ap_handles a' = ap_handles a" "ap_heap a' = (ap_heap a)(p \<mapsto> ?ob)" by (simp_all add: n(3))
    have "point_ok c a'"
      using fresh_unopened [OF inv d fresh(1) un a'] False fresh(2) by (simp add: n)
    from alloc_step [OF inv i(1) cr _ k _ _ this fresh(1) a']
    have "race_inv (pcs[i := c], a')" "sp_objects (view (pcs[i := c], a')) = sp_objects (view (pcs, a))"
      by (simp_all add: i(2) n(2) del: view.simps race_inv.simps)
    then show ?thesis by (simp add: simulates_def commit_def n(2,3) del: race_inv.simps)
  qed
qed

lemma open_insert_simulates:
  assumes inv: "race_inv (pcs, a)" and i: "i < length pcs" "pcs ! i = OpenInsert pid p"
    and s: "call_step E (OpenInsert pid p) a = Some (c, a')"
  shows "simulates E (pcs, a) (commit (OpenInsert pid p) c) (pcs[i := c], a')"
proof -
  let ?ob = "OpenProcessObj (opened_process pid)"
  have k: "continues (pcs ! i) c" using call_continues [OF s] i by simp
  have cr: "creates (pcs ! i)" by (simp add: i creates_def)
  have ok: "unopened pid a" "p \<noteq> 0" "drv_OpenProcess (scast pid) \<noteq> 0" "ap_heap a p = Some ?ob"
    using race_invD(4) [OF inv i(1)] i(2) by simp_all
  from s obtain h t where n: "CreateHandleFromPointer (ae_rd E) p htProcesHandle (ap_handles a) = Some (h, t)"
    "c = Returned (OpenedHandle h)" "a' = a\<lparr>ap_handles := t\<rparr>" by (auto split: option.splits)
  have n1: "CreateHandleFromPointer (ae_rd E) p (kind_of ?ob) (ap_handles a) = Some (h, t)" using n(1) by simp
  have l: "loosens (pcs ! i) = {p}" by (simp add: i(2))
  have other: "?ob = OpenProcessObj op \<Longrightarrow> opens (pcs ! j) \<noteq> Some (op_pid op)" if "j < length pcs" "j \<noteq> i" for j op
    using creating_alone(2) [OF race_invD(1) [OF inv] i(1) cr that, of pid] by (auto simp: i(2) opened_process_def)
  note ins = insert_step [where ob = ?ob, OF inv i(1) cr l ok(4,2) k [unfolded n(2)] n1 other]
  have "spec_step E (view (pcs, a)) (Opened pid h)
      ((view (pcs, a))\<lparr>sp_objects := (sp_objects (view (pcs, a)))(h \<mapsto> ?ob)\<rparr>)"
    by (rule spec_step.open_new [OF unopened_view [OF ok(1)] ok(3) ins(3,4)])
  moreover have "view (pcs[i := c], a') = (view (pcs, a))\<lparr>sp_objects := (sp_objects (view (pcs, a)))(h \<mapsto> ?ob)\<rparr>"
    using ins(2) by (simp add: n(2,3))
  ultimately show ?thesis using ins(1) by (simp add: simulates_def commit_def n(2,3) del: view.simps race_inv.simps)
qed

text \<open>Snapshots.\<close>

lemma snapshot_step:
  assumes E: "new_fresh E" and inv: "race_inv (pcs, a)" and i: "i < length pcs" "creates (pcs ! i)" "loosens (pcs ! i) = {}"
    and k: "continues (pcs ! i) c" and n: "new_snapshot E ob (a\<lparr>ap_os := s\<rparr>) = Some (c, a')" "kind_of ob \<noteq> htProcesHandle"
  shows "race_inv (pcs[i := c], a')" "view (pcs[i := c], a') = (view (pcs, a))\<lparr>sp_os := s\<rparr>"
    "commit (pcs ! i) c = Some (Listed (Some ob))"
proof -
  from n obtain p where p: "ae_new E (ap_heap a) = Some p" "c = SnapInsert ob p" "a' = put_obj p ob (a\<lparr>ap_os := s\<rparr>)"
    by (auto simp: new_snapshot_def split: option.splits)
  have fresh: "ap_heap a p = None" "p \<noteq> 0" using E p(1) by (auto simp: new_fresh_def)
  have a': "ap_handles a' = ap_handles a" "ap_heap a' = (ap_heap a)(p \<mapsto> ob)" by (simp_all add: p(3))
  have "point_ok c a'" using fresh(2) n(2) by (simp add: p)
  from alloc_step [OF inv i k _ _ this fresh(1) a']
  have r: "race_inv (pcs[i := c], a')" "sp_objects (view (pcs[i := c], a')) = sp_objects (view (pcs, a))"
    by (simp_all add: p(2) del: view.simps race_inv.simps)
  show "race_inv (pcs[i := c], a')" by (rule r(1))
  show "view (pcs[i := c], a') = (view (pcs, a))\<lparr>sp_os := s\<rparr>" using r(2) by (simp add: p(3))
  show "commit (pcs ! i) c = Some (Listed (Some ob))" by (simp add: p(2) commit_def)
qed

lemma view_process:
  assumes "race_inv (pcs, a)" "sp_objects (view (pcs, a)) h = Some (OpenProcessObj op)"
  shows "\<exists>p. find_handle h (ap_handles a) = Some \<lparr>hi_p = p, hi_type = htProcesHandle\<rparr>"
proof -
  from assms(2) obtain x where x: "find_handle h (ap_handles a) = Some x" "h \<notin> dying pcs" "ap_heap a (hi_p x) = Some (OpenProcessObj op)"
    by (auto simp: live_entry_def split: option.splits if_splits)
  obtain ob where "ap_heap a (hi_p x) = Some ob" "kind_of ob = hi_type x" by (rule live_object [OF assms(1) x(1,2)])
  with x(3) have ty: "hi_type x = htProcesHandle" by simp
  obtain p ty where "x = \<lparr>hi_p = p, hi_type = ty\<rparr>" by (rule HANDLE_INFO.cases)
  with x(1) ty show ?thesis by auto
qed

lemma snap_begin_simulates:
  assumes E: "new_fresh E" and inv: "race_inv (pcs, a)" and i: "i < length pcs" "pcs ! i = SnapBegin fl pid"
    and s: "call_step E (SnapBegin fl pid) a = Some (c, a')"
  shows "simulates E (pcs, a) (commit (SnapBegin fl pid) c) (pcs[i := c], a')"
proof -
  have k: "continues (pcs ! i) c" using call_continues [OF s] i by simp
  have cr: "creates (pcs ! i)" "loosens (pcs ! i) = {}" by (simp_all add: i creates_def)
  have d: "dying pcs = {}" by (rule opening_no_dying [OF race_invD(1) [OF inv] i(1) cr(1)])
  have quiet: "simulates E (pcs, a) (commit (SnapBegin fl pid) c) (pcs[i := c], a')"
    if "a' = a" "dies c = {}" "loosens c = {}" "point_ok c a" "commit (SnapBegin fl pid) c = None"
    unfolding that(1) by (rule quiet_simulates [OF inv i(1) k]) (use that in \<open>simp_all add: i(2)\<close>)
  have added: "simulates E (pcs, a) (commit (SnapBegin fl pid) c) (pcs[i := c], a')"
    if "new_snapshot E ob a = Some (c, a')" "kind_of ob \<noteq> htProcesHandle"
      "spec_step E (view (pcs, a)) (Listed (Some ob)) (view (pcs, a))" for ob
  proof -
    have u: "a\<lparr>ap_os := ap_os a\<rparr> = a" by simp
    note st = snapshot_step [where s = "ap_os a", OF E inv i(1) cr k, unfolded u, OF that(1,2)]
    have "view (pcs[i := c], a') = view (pcs, a)" using st(2) by simp
    with st(1,3) that(3) show ?thesis by (simp add: simulates_def i(2) del: view.simps race_inv.simps)
  qed
  consider (process) "fl AND TH32CS_SNAPPROCESS \<noteq> 0"
    | (module) "fl AND TH32CS_SNAPPROCESS = 0" "fl AND TH32CS_SNAPMODULE \<noteq> 0"
    | (thread) "fl AND TH32CS_SNAPPROCESS = 0" "fl AND TH32CS_SNAPMODULE = 0" by blast
  then show ?thesis
  proof cases
    case process
    with s obtain ok v where v: "GetProcessListInfo E False [] (ap_os a) = Some (ok, v)"
      "new_snapshot E (CeProcessList v 0) a = Some (c, a')" by (auto split: option.splits)
    have "spec_step E (view (pcs, a)) (Listed (Some (CeProcessList v 0))) (view (pcs, a))"
      by (rule spec_step.read_processes [of _ _ ok]) (simp add: v(1))
    from added [OF v(2) _ this] show ?thesis by simp
  next
    case module
    obtain h where h: "FindHandleByPID (pid_at (ap_heap a)) pid (ap_handles a) = Some h"
      "if raw h = 0 then unopened pid a
       else \<exists>op. sp_objects (view (pcs, a)) h = Some (OpenProcessObj op) \<and> op_pid op = pid"
      using find_by_pid [OF inv d] by blast
    from s h(1) module have c: "a' = a" "c = (if raw h = 0 then Returned (SnapshotHandle (HANDLE 0)) else SnapPointer h)"
      by auto
    have "point_ok c a" using h(2) view_process [OF inv, of h] by (auto simp: c(2) simp del: view.simps)
    then show ?thesis by (intro quiet) (simp_all add: c commit_def)
  next
    case thread
    show ?thesis
    proof (cases "fl AND TH32CS_SNAPTHREAD \<noteq> 0 \<and> pid \<noteq> 0 \<and> ae_task E (ap_os a) pid \<noteq> None")
      case True
      then obtain names where n: "ae_task E (ap_os a) pid = Some names" by blast
      with s thread True obtain th where th: "list_threads E names = Some th"
        "new_snapshot E (ThreadListObj th) a = Some (c, a')" by (auto split: option.splits)
      have "spec_step E (view (pcs, a)) (Listed (Some (ThreadListObj th))) (view (pcs, a))"
        by (rule spec_step.read_threads [of _ _ pid, OF _ th(1)]) (simp add: n)
      from added [OF th(2) _ this] show ?thesis by simp
    next
      case False
      with s thread have "a' = a" "c = Returned (SnapshotHandle (HANDLE 0))" by (auto split: if_splits option.splits)
      then show ?thesis by (intro quiet) (simp_all add: commit_def)
    qed
  qed
qed

lemma snap_pointer_simulates:
  assumes inv: "race_inv (pcs, a)" and i: "i < length pcs" "pcs ! i = SnapPointer h"
    and s: "call_step E (SnapPointer h) a = Some (c, a')"
  shows "simulates E (pcs, a) (commit (SnapPointer h) c) (pcs[i := c], a')"
proof -
  have a: "a' = a" "c = SnapObject h (GetPointerFromHandle h (ap_handles a))"
    and k: "continues (pcs ! i) c" using s call_continues [OF s] i by auto
  have "point_ok (SnapPointer h) a" using race_invD(4) [OF inv i(1)] i(2) by simp
  then have "point_ok c a" using a(2) by (auto simp: handle_sel)
  then show ?thesis unfolding a(1)
    by (intro quiet_simulates [OF inv i(1) k]) (simp_all add: i(2) a(2) commit_def)
qed

lemma snap_object_simulates:
  assumes inv: "race_inv (pcs, a)" and i: "i < length pcs" "pcs ! i = SnapObject h p"
    and s: "call_step E (SnapObject h p) a = Some (c, a')"
  shows "simulates E (pcs, a) (commit (SnapObject h p) c) (pcs[i := c], a')"
proof -
  from s obtain op where a: "a' = a" "c = SnapModules h (u64DriverProcessHandle op)" "ap_heap a p = Some (OpenProcessObj op)"
    by (auto split: option.splits obj.splits)
  have k: "continues (pcs ! i) c" using call_continues [OF s] i by simp
  have "point_ok (SnapObject h p) a" using race_invD(4) [OF inv i(1)] i(2) by simp
  then have "point_ok c a" using a by (auto simp: driver_of_def)
  then show ?thesis unfolding a(1)
    by (intro quiet_simulates [OF inv i(1) k]) (simp_all add: i(2) a(2) commit_def)
qed

lemma list_modules_kind: "list_modules E r d s = Some (Some ob, s') \<Longrightarrow> kind_of ob = htTHSModule"
  by (auto simp: list_modules_def split: option.splits prod.splits if_splits)

lemma snap_modules_simulates:
  assumes E: "new_fresh E" and inv: "race_inv (pcs, a)" and i: "i < length pcs" "pcs ! i = SnapModules h d"
    and s: "call_step E (SnapModules h d) a = Some (c, a')"
  shows "simulates E (pcs, a) (commit (SnapModules h d) c) (pcs[i := c], a')"
proof -
  have k: "continues (pcs ! i) c" using call_continues [OF s] i by simp
  have cr: "creates (pcs ! i)" "loosens (pcs ! i) = {}" by (simp_all add: i creates_def)
  have dy: "dying pcs = {}" by (rule opening_no_dying [OF race_invD(1) [OF inv] i(1) cr(1)])
  obtain p op where op: "find_handle h (ap_handles a) = Some \<lparr>hi_p = p, hi_type = htProcesHandle\<rparr>"
    "ap_heap a p = Some (OpenProcessObj op)" "u64DriverProcessHandle op = d"
    using race_invD(4) [OF inv i(1)] i(2) by (auto simp: driver_of_def)
  have v: "sp_objects (view (pcs, a)) h = Some (OpenProcessObj op)" using view_live [OF op(1), of pcs] op(2) dy by (simp del: view.simps)
  from s obtain ob w where l: "list_modules E (m_Driver a) d (ap_os a) = Some (ob, w)"
    by (auto split: option.splits)
  have sp: "spec_step E (view (pcs, a)) (Listed ob) ((view (pcs, a))\<lparr>sp_os := w\<rparr>)"
    by (rule spec_step.read_modules [OF v]) (simp add: op(3) l)
  show ?thesis
  proof (cases ob)
    case None
    with s l have c: "c = Returned (SnapshotHandle (HANDLE 0))" "a' = a\<lparr>ap_os := w\<rparr>" by simp_all
    have q: "race_inv (pcs[i := c], a')" "dying (pcs[i := c]) = dying pcs"
      by (rule quiet_step [OF inv i(1) k]; simp add: i(2) c)+
    have "view (pcs[i := c], a') = (view (pcs, a))\<lparr>sp_os := w\<rparr>" using q(2) by (simp add: c(2) cong: option.case_cong)
    with q(1) sp None show ?thesis by (simp add: simulates_def commit_def c(1) del: view.simps race_inv.simps)
  next
    case (Some o1)
    with s l have n: "new_snapshot E o1 (a\<lparr>ap_os := w\<rparr>) = Some (c, a')" by simp
    have "kind_of o1 \<noteq> htProcesHandle" using list_modules_kind l Some by fastforce
    note st = snapshot_step [OF E inv i(1) cr k n this]
    from st sp Some show ?thesis by (simp add: simulates_def i(2) del: view.simps race_inv.simps)
  qed
qed

lemma snap_insert_simulates:
  assumes inv: "race_inv (pcs, a)" and i: "i < length pcs" "pcs ! i = SnapInsert ob p"
    and s: "call_step E (SnapInsert ob p) a = Some (c, a')"
  shows "simulates E (pcs, a) (commit (SnapInsert ob p) c) (pcs[i := c], a')"
proof -
  have k: "continues (pcs ! i) c" using call_continues [OF s] i by simp
  have cr: "creates (pcs ! i)" "loosens (pcs ! i) = {p}" by (simp_all add: i creates_def)
  have ok: "p \<noteq> 0" "kind_of ob \<noteq> htProcesHandle" "ap_heap a p = Some ob"
    using race_invD(4) [OF inv i(1)] i(2) by simp_all
  from s obtain h t where n: "CreateHandleFromPointer (ae_rd E) p (kind_of ob) (ap_handles a) = Some (h, t)"
    "c = Returned (SnapshotHandle h)" "a' = a\<lparr>ap_handles := t\<rparr>" by (auto split: option.splits)
  have other: "ob = OpenProcessObj op \<Longrightarrow> opens (pcs ! j) \<noteq> Some (op_pid op)" for j op using ok(2) by simp
  note ins = insert_step [OF inv i(1) cr ok(3,1) k [unfolded n(2)] n(1) other]
  have "spec_step E (view (pcs, a)) (Snapped h ob)
      ((view (pcs, a))\<lparr>sp_objects := (sp_objects (view (pcs, a)))(h \<mapsto> ob)\<rparr>)"
    by (rule spec_step.add_snapshot [OF ins(3,4) ok(2)])
  moreover have "view (pcs[i := c], a') = (view (pcs, a))\<lparr>sp_objects := (sp_objects (view (pcs, a)))(h \<mapsto> ob)\<rparr>"
    using ins(2) by (simp add: n(2,3))
  ultimately show ?thesis using ins(1) by (simp add: simulates_def commit_def n(2,3) del: view.simps race_inv.simps)
qed

text \<open>All steps together, and the runs through the locale.\<close>

lemmas point_simulates = check_type_simulates load_pointer_simulates use_object_simulates call_driver_simulates
  close_type_simulates close_pointer_simulates close_driver_simulates close_delete_simulates
  close_remove_simulates open_find_simulates open_insert_simulates snap_pointer_simulates
  snap_object_simulates snap_insert_simulates

lemmas alloc_simulates = open_new_simulates snap_begin_simulates snap_modules_simulates

lemma thread_simulates:
  assumes "new_fresh E" "race_inv (pcs, a)" "i < length pcs" "call_step E (pcs ! i) a = Some (c, a')"
  shows "simulates E (pcs, a) (commit (pcs ! i) c) (pcs[i := c], a')"
proof (cases "pcs ! i")
  case (Returned ans)
  with assms(4) show ?thesis by simp
qed (use point_simulates [OF assms(2,3)] alloc_simulates [OF assms(1-3)] assms(4) in \<open>simp_all only:\<close>)

lemma race_simulates:
  assumes "new_fresh E" "race_inv c" "race_step E exclusive c ev c'"
  shows "simulates E c ev c'"
  using assms(3)
proof cases
  case (begin_call i pcs ans d a)
  from begin_call assms(2) have inv: "race_inv (pcs, a)" by simp
  obtain R where R: "dying pcs = dies (pcs ! i) \<union> R" "\<And>c. dying (pcs[i := c]) = dies c \<union> R"
    by (rule dying_split [OF begin_call(4)]) blast
  obtain L where L: "loose pcs = loosens (pcs ! i) \<union> L" "\<And>c. loose (pcs[i := c]) = loosens c \<union> L"
    by (rule loose_split [OF begin_call(4)]) blast
  have e: "dies d = {}" "loosens d = {}" "point_ok d a" using begin_call(6) by (cases d; simp)+
  have D: "dying (pcs[i := d]) = dying pcs" "loose (pcs[i := d]) = loose pcs"
    using R L e begin_call(5) by simp_all
  have "race_inv (pcs[i := d], a)"
    using race_invD [OF inv] begin_call(4,7) e(3) apart_step [OF race_invD(5) [OF inv], of i d]
    by (auto simp: D e(2) nth_list_update)
  with begin_call D show ?thesis by (simp add: simulates_def)
next
  case (run_thread i pcs a d a')
  with thread_simulates [OF assms(1)] assms(2) show ?thesis by simp
qed

interpretation races: refinement_mapping "race_step E exclusive" "spec_step E" "\<lambda>c. new_fresh E \<and> race_inv c" view for E
  by unfold_locales (use race_simulates in \<open>force simp: simulates_def simp del: race_inv.simps view.simps\<close>)+


section \<open>Properties\<close>

definition idle :: "point list \<Rightarrow> bool" where
  "idle pcs \<longleftrightarrow> (\<forall>c \<in> set pcs. \<exists>ans. c = Returned ans)"

lemma idle_sets: "idle pcs \<Longrightarrow> dying pcs = {} \<and> loose pcs = {}"
  by (fastforce simp: idle_def dying_def loose_def)

lemma idle_inv:
  assumes "idle pcs"
  shows "race_inv (pcs, a) \<longleftrightarrow> api_owns a"
proof -
  have r: "\<exists>ans. pcs ! j = Returned ans" if "j < length pcs" for j
    using assms that by (simp add: idle_def)
  have "exclusive pcs" unfolding exclusive_def conflict_def using r by fastforce
  moreover have "\<forall>j < length pcs. point_ok (pcs ! j) a" using r by fastforce
  moreover have "apart pcs" unfolding apart_def using r by fastforce
  ultimately show ?thesis using idle_sets [OF assms] by (simp add: api_owns_def)
qed

lemma no_dangling:
  assumes inv: "race_inv (pcs, a)" and j: "j < length pcs"
  shows "\<not> dangling (pcs ! j) a"
proof -
  note ok = race_invD(4) [OF inv j]
  have live: "map_option kind_of (ap_heap a p) = Some ty"
    if "touches (pcs ! j) = Some h" "pcs ! j \<noteq> CloseRemove h"
      "find_handle h (ap_handles a) = Some \<lparr>hi_p = p, hi_type = ty\<rparr>" for h p ty
    using live_object [OF inv that(3) touched_not_dying [OF race_invD(1) [OF inv] j that(1,2)]] by auto
  show ?thesis
  proof (cases "pcs ! j")
    case (OpenFind pid)
    have "dying pcs = {}" by (rule opening_no_dying [OF race_invD(1) [OF inv] j]) (simp add: OpenFind creates_def)
    from find_by_pid [OF inv this, of pid] show ?thesis by (auto simp: OpenFind)
  next
    case (SnapBegin fl pid)
    have "dying pcs = {}" by (rule opening_no_dying [OF race_invD(1) [OF inv] j]) (simp add: SnapBegin creates_def)
    from find_by_pid [OF inv this, of pid] show ?thesis by (auto simp: SnapBegin)
  next
    case (SnapObject h p)
    have d: "dying pcs = {}" by (rule opening_no_dying [OF race_invD(1) [OF inv] j]) (simp add: SnapObject creates_def)
    from ok have "find_handle h (ap_handles a) = Some \<lparr>hi_p = p, hi_type = htProcesHandle\<rparr>" by (simp add: SnapObject)
    from live_object [OF inv this] d show ?thesis by (auto simp: SnapObject)
  qed (use ok live in auto)
qed


text \<open>Running threads by a list of their numbers.\<close>

primrec schedule :: "'s apienv \<Rightarrow> nat list \<Rightarrow> 's config \<Rightarrow> (event list \<times> 's config) option" where
  "schedule E [] cf = Some ([], cf)"
| "schedule E (i # is) cf =
     (if i < length (fst cf) then
        (case call_step E (fst cf ! i) (snd cf) of
           None \<Rightarrow> None
         | Some (c, a') \<Rightarrow>
             map_option (\<lambda>(tr, cf'). ((case commit (fst cf ! i) c of None \<Rightarrow> [] | Some e \<Rightarrow> [e]) @ tr, cf'))
               (schedule E is ((fst cf)[i := c], a')))
      else None)"

lemma run_cons: "run step c1 tr c2 \<Longrightarrow> step c ev c1 \<Longrightarrow> run step c ((case ev of None \<Rightarrow> [] | Some e \<Rightarrow> [e]) @ tr) c2"
proof (induction rule: run.induct)
  case (run_nil c1)
  have "run step c ([] @ (case ev of None \<Rightarrow> [] | Some e \<Rightarrow> [e])) c1"
    by (rule run.run_step [OF run.run_nil]) (rule run_nil)
  then show ?case by simp
next
  case (run_step c1 tr c2 ev' c3)
  have "run step c (((case ev of None \<Rightarrow> [] | Some e \<Rightarrow> [e]) @ tr) @ (case ev' of None \<Rightarrow> [] | Some e \<Rightarrow> [e])) c3"
    by (rule run.run_step [where step = step, OF run_step.IH [OF run_step.prems] run_step.hyps(2)])
  then show ?case by simp
qed

lemma schedule_run: "schedule E is cf = Some (tr, cf') \<Longrightarrow> run (race_step E allowed) cf tr cf'"
proof (induction "is" arbitrary: cf tr)
  case Nil
  then show ?case by (auto intro: run_nil)
next
  case (Cons i "is")
  then obtain c a' tr' where s: "i < length (fst cf)" "call_step E (fst cf ! i) (snd cf) = Some (c, a')"
    "schedule E is ((fst cf)[i := c], a') = Some (tr', cf')"
    "tr = (case commit (fst cf ! i) c of None \<Rightarrow> [] | Some e \<Rightarrow> [e]) @ tr'"
    by (auto split: if_splits option.splits)
  have "race_step E allowed (fst cf, snd cf) (commit (fst cf ! i) c) ((fst cf)[i := c], a')"
    by (rule race_step.run_thread [OF s(1,2)])
  then show ?case unfolding s(4) by (intro run_cons [OF Cons.IH [OF s(3)]]) simp
qed

text \<open>Two threads begin their calls and run as scheduled.\<close>

lemma two_calls:
  assumes "entry_point c" "entry_point d" "allowed [c, Returned y]" "allowed [c, d]"
    and "schedule E is ([c, d], a) = Some (tr, cf)"
  shows "run (race_step E allowed) ([Returned x, Returned y], a) tr cf"
proof -
  have "race_step E allowed ([Returned x, Returned y], a) None ([Returned x, Returned y][0 := c], a)"
    by (rule race_step.begin_call) (use assms in simp_all)
  then have b: "race_step E allowed ([Returned x, Returned y], a) None ([c, Returned y], a)" by simp
  have "race_step E allowed ([c, Returned y], a) None ([c, Returned y][1 := d], a)"
    by (rule race_step.begin_call) (use assms in simp_all)
  then have "race_step E allowed ([c, Returned y], a) None ([c, d], a)" by simp
  from run_cons [OF run_cons [OF schedule_run [OF assms(5)] this] b] show ?thesis by simp
qed



lemma close_until_removed:
  assumes "api_owns a" "find_handle h (ap_handles a) = Some i"
  shows "schedule E (if hi_type i = htProcesHandle then [0, 0, 0, 0] else [0, 0, 0]) ([CloseType h, d], a) =
    Some ([Closed h], ([CloseRemove h, d], a\<lparr>ap_heap := (ap_heap a)(hi_p i := None)\<rparr>))"
proof -
  have o: "owns (\<lambda>t h. find_handle h t) kind_of (ap_handles a) (ap_heap a)" using assms(1) by (simp add: api_owns_def)
  obtain ob where ob: "ap_heap a (hi_p i) = Some ob" "kind_of ob = hi_type i" using owns_live [OF o assms(2)] by blast
  have t: "GetHandleType h (ap_handles a) = hi_type i" "GetPointerFromHandle h (ap_handles a) = hi_p i"
    using assms(2) by (simp_all add: handle_sel)
  show ?thesis
    by (cases ob) (use ob in \<open>simp_all add: t Let_def commit_def flip: ob(2)\<close>)
qed

lemma schedule_append:
  "schedule E (is @ js) cf =
    (case schedule E is cf of
       None \<Rightarrow> None
     | Some (tr, cf1) \<Rightarrow> map_option (\<lambda>(tr', cf2). (tr @ tr', cf2)) (schedule E js cf1))"
proof (induction "is" arbitrary: cf)
  case Nil
  show ?case by (cases "schedule E js cf") auto
next
  case (Cons i "is")
  show ?case
    by (auto simp: Cons.IH option.map_comp comp_def case_prod_unfold split: option.splits)
qed

lemma find_pid_dangling:
  assumes "e \<in> set tbl" "hi_type (snd e) = htProcesHandle" "pidf (hi_p (snd e)) = None"
    and "\<forall>e \<in> set tbl. hi_type (snd e) = htProcesHandle \<longrightarrow> pidf (hi_p (snd e)) \<noteq> Some pid"
  shows "find_pid_from pidf pid tbl = None"
  using assms by (induction tbl) (auto split: option.splits)

lemma unopened_dangling:
  assumes "find_handle h (ap_handles a) = Some i" "hi_type i = htProcesHandle" "handles_wf (ap_handles a)" "unopened pid a"
  shows "dangling (OpenFind pid) (a\<lparr>ap_heap := (ap_heap a)(hi_p i := None)\<rparr>)"
proof -
  let ?tbl = "m_HandlePointList (ap_handles a)" and ?heap = "(ap_heap a)(hi_p i := None)"
  have "sorted_wrt (<) (map fst ?tbl)" using assms(3) by (simp add: handles_wf_def)
  then have "distinct (map fst ?tbl)" by (simp add: strict_sorted_iff)
  then have f: "find_handle k (ap_handles a) = Some x \<longleftrightarrow> (k, x) \<in> set ?tbl" for k x
    by (simp add: find_handle_def)
  have "pid_at ?heap (hi_p x) \<noteq> Some pid" if "(k, x) \<in> set ?tbl" for k x
    using assms(4) that by (auto simp: unopened_def f pid_at_def split: option.splits obj.splits)
  then have n: "\<forall>e \<in> set ?tbl. hi_type (snd e) = htProcesHandle \<longrightarrow> pid_at ?heap (hi_p (snd e)) \<noteq> Some pid" by auto
  have "(h, i) \<in> set ?tbl" "hi_type (snd (h, i)) = htProcesHandle" "pid_at ?heap (hi_p (snd (h, i))) = None"
    using assms(1,2) f by (simp_all add: pid_at_def)
  from find_pid_dangling [OF this n] have "find_pid_from (pid_at ?heap) pid ?tbl = None" .
  then show ?thesis by (simp add: FindHandleByPID_def)
qed

lemma close_race:
  assumes own: "api_owns a" and i: "find_handle h (ap_handles a) = Some i" and d: "entry_point d"
    and js: "schedule E js ([CloseRemove h, d], a\<lparr>ap_heap := (ap_heap a)(hi_p i := None)\<rparr>) = Some (tr, (pcs', a'))"
    and w: "dangling (pcs' ! 1) a'"
  shows "\<exists>tr pcs' a'. run (race_step E (\<lambda>_. True)) ([Returned x, Returned y], a) tr (pcs', a') \<and> dangling (pcs' ! 1) a'"
proof -
  let ?is = "if hi_type i = htProcesHandle then [0, 0, 0, 0] else [0, 0, 0]"
  have "schedule E (?is @ js) ([CloseType h, d], a) = Some (Closed h # tr, (pcs', a'))"
    unfolding schedule_append close_until_removed [OF own i] by (simp add: js)
  from two_calls [where x = x and y = y, OF _ d _ _ this, of "\<lambda>_. True"] w show ?thesis by auto
qed

text \<open>C11. Without the discipline a close races with every other use of its handle: there is an interleaving
  in which another thread that uses the handle, closes it too, or looks for a process to open it or to
  list its modules, goes through the pointer of the object the first thread has just deleted.\<close>

theorem close_race_dangles:
  assumes "api_owns a" "GetHandleType h (ap_handles a) \<noteq> htEmpty"
    and "(\<exists>u. d = CheckType h u \<and> use_type u = GetHandleType h (ap_handles a)) \<or> d = CloseType h \<or>
      (\<exists>pid. (d = OpenFind pid \<or> d = SnapBegin TH32CS_SNAPMODULE pid) \<and>
        GetHandleType h (ap_handles a) = htProcesHandle \<and> unopened pid a)"
  shows "\<exists>tr pcs' a'. run (race_step E (\<lambda>_. True)) ([Returned x, Returned y], a) tr (pcs', a') \<and>
    dangling (pcs' ! 1) a'"
proof -
  obtain i where i: "find_handle h (ap_handles a) = Some i" using assms(2) by (auto simp: handle_sel split: option.splits)
  have t: "GetHandleType h (ap_handles a) = hi_type i" "GetPointerFromHandle h (ap_handles a) = hi_p i"
    using i by (simp_all add: handle_sel)
  have wf: "handles_wf (ap_handles a)" using assms(1) by (simp add: api_owns_def)
  obtain ob where ob: "kind_of ob = hi_type i" using handle_obj [OF assms(1) t(1)] assms(2) t(1) by metis
  from assms(3) consider (use) u where "d = CheckType h u" "use_type u = hi_type i" | (close) "d = CloseType h"
    | (find) pid where "d = OpenFind pid \<or> d = SnapBegin TH32CS_SNAPMODULE pid" "hi_type i = htProcesHandle" "unopened pid a"
    unfolding t by blast
  then show ?thesis
  proof cases
    case use
    show ?thesis by (rule close_race [where d = d, OF assms(1) i, where js = "[1, 1]"]) (simp_all add: use t commit_def)+
  next
    case close
    let ?d = "if hi_type i = htProcesHandle then CloseDriver h (hi_p i) else CloseDelete h (hi_type i) (hi_p i)"
    let ?a = "a\<lparr>ap_heap := (ap_heap a)(hi_p i := None)\<rparr>"
    have "schedule E [1, 1] ([CloseRemove h, d], ?a) = Some ([], ([CloseRemove h, ?d], ?a))"
      by (cases ob) (use ob in \<open>simp_all add: close t commit_def Let_def flip: ob\<close>)
    then show ?thesis by (rule close_race [where d = d, OF assms(1) i, rotated]) (simp_all add: close)
  next
    case find
    let ?a = "a\<lparr>ap_heap := (ap_heap a)(hi_p i := None)\<rparr>"
    have "schedule E [] ([CloseRemove h, d], ?a) = Some ([], ([CloseRemove h, d], ?a))" by simp
    then show ?thesis
      by (rule close_race [where d = d, OF assms(1) i, rotated])
        (use find(1) unopened_dangling [OF i find(2) wf find(3)] in \<open>auto simp: TH32CS_SNAPPROCESS_def TH32CS_SNAPMODULE_def\<close>)
  qed
qed


theorem close_race_dangles_witness:
  "\<exists>tr pcs' a'. run (race_step demo_api (\<lambda>_. True)) ([Returned HandleClosed, Returned HandleClosed], demo_open) tr (pcs', a') \<and>
    dangling (pcs' ! 1) a'"
proof (rule close_race_dangles [OF demo_open_owns, of "HANDLE 10000" "OpenFind 9"])
  show "GetHandleType (HANDLE 10000) (ap_handles demo_open) \<noteq> htEmpty"
    by (simp add: demo_open_def demo_opened_def GetHandleType_def)
  have "unopened 9 demo_open"
    by (auto simp: unopened_def demo_open_def demo_opened_def find_handle_def demo_process_def split: if_splits)
  then show "(\<exists>u. OpenFind 9 = CheckType (HANDLE 10000) u \<and> use_type u = GetHandleType (HANDLE 10000) (ap_handles demo_open)) \<or>
      OpenFind 9 = CloseType (HANDLE 10000) \<or>
      (\<exists>pid. (OpenFind 9 = OpenFind pid \<or> OpenFind 9 = SnapBegin TH32CS_SNAPMODULE pid) \<and> GetHandleType (HANDLE 10000) (ap_handles demo_open) = htProcesHandle \<and>
        unopened pid demo_open)"
    by (simp add: demo_open_def demo_opened_def GetHandleType_def)
qed

inductive_cases opened_step: "spec_step E S (Opened pid h) S'"
inductive_cases spec_run_snoc: "spec_run spec S (tr @ [e]) S'"
inductive_cases spec_run_empty: "spec_run spec S [] S'"

lemma spec_run_two: "spec_run spec S [e1, e2] S2 \<Longrightarrow> \<exists>S1. spec S e1 S1 \<and> spec S1 e2 S2"
  by (auto elim!: spec_run_snoc [where tr = "[e1]", simplified] spec_run_snoc [where tr = "[]", simplified] spec_run_empty)

text \<open>Atomic calls give one handle for a process.\<close>

lemma opened_twice:
  assumes "not_open pid S" "drv_OpenProcess (scast pid) \<noteq> 0" "spec_run (spec_step E) S [Opened pid h, Opened pid k] S2"
  shows "h = k"
proof -
  obtain S1 where r: "spec_step E S (Opened pid h) S1" "spec_step E S1 (Opened pid k) S2"
    using spec_run_two [OF assms(3)] by blast
  from r(1) assms(1,2) have S1: "S1 = S\<lparr>sp_objects := (sp_objects S)(h \<mapsto> OpenProcessObj (opened_process pid))\<rparr>"
    by (auto elim!: opened_step simp: not_open_def)
  have "\<not> not_open pid S1" by (auto simp: S1 not_open_def opened_process_def)
  with r(2) obtain op where "sp_objects S1 k = Some (OpenProcessObj op)" "op_pid op = pid"
    by (auto elim!: opened_step)
  with assms(1) show ?thesis by (auto simp: S1 not_open_def split: if_splits)
qed

text \<open>C12. Two connections that open the same process at the same time get two different handles for it,
  each with an object of its own. No order of atomic calls gives these answers: the second of them
  would return the handle of the first.\<close>

theorem concurrent_opens_duplicate:
  assumes "new_fresh E" "api_owns a" "unopened pid a" "drv_OpenProcess (scast pid) \<noteq> 0"
    and "ae_new E (ap_heap a) = Some p"
    and "ae_new E ((ap_heap a)(p \<mapsto> OpenProcessObj (opened_process pid))) = Some q"
    and "find_handle (draw_handle (ae_rd E (rd_calls (ap_handles a)))) (ap_handles a) = None"
    and "find_handle (draw_handle (ae_rd E (rd_calls (ap_handles a) + 1))) (ap_handles a) = None"
    and "draw_handle (ae_rd E (rd_calls (ap_handles a) + 1)) \<noteq> draw_handle (ae_rd E (rd_calls (ap_handles a)))"
  shows "\<exists>h k a'. h \<noteq> k \<and>
    run (race_step E (\<lambda>_. True)) ([Returned x, Returned y], a) [Opened pid h, Opened pid k]
      ([Returned (OpenedHandle h), Returned (OpenedHandle k)], a') \<and>
    sp_objects (view ([], a')) h = Some (OpenProcessObj (opened_process pid)) \<and>
    sp_objects (view ([], a')) k = Some (OpenProcessObj (opened_process pid)) \<and>
    (\<forall>S. \<not> spec_run (spec_step E) (view ([], a)) [Opened pid h, Opened pid k] S)"
proof -
  let ?ob = "OpenProcessObj (opened_process pid)" and ?rd = "ae_rd E" and ?n = "rd_calls (ap_handles a)"
  let ?h = "draw_handle (?rd ?n)" and ?k = "draw_handle (?rd (?n + 1))"
  let ?tbl = "m_HandlePointList (ap_handles a)"
  define t1 where "t1 = \<lparr>m_HandlePointList = map_insert ?h \<lparr>hi_p = p, hi_type = htProcesHandle\<rparr> ?tbl, rd_calls = ?n + 1\<rparr>"
  define t2 where "t2 = \<lparr>m_HandlePointList = map_insert ?k \<lparr>hi_p = q, hi_type = htProcesHandle\<rparr> (m_HandlePointList t1),
    rd_calls = ?n + 1 + 1\<rparr>"
  let ?a' = "a\<lparr>ap_heap := (ap_heap a)(p \<mapsto> ?ob, q \<mapsto> ?ob), ap_handles := t2\<rparr>"
  have wf: "handles_wf (ap_handles a)" using assms(2) by (simp add: api_owns_def)
  have tbl: "map_of ?tbl ?h = None" "map_of ?tbl ?k = None" using assms(7,8) by (simp_all add: find_handle_def)
  have c1: "CreateHandleFromPointer ?rd p htProcesHandle (ap_handles a) = Some (?h, t1)"
    using tbl(1) by (simp add: CreateHandleFromPointer_def pick_first t1_def)
  have k1: "map_of (m_HandlePointList t1) ?k = None"
    using tbl assms(9) by (simp add: t1_def map_of_map_insert)
  have c2: "CreateHandleFromPointer ?rd q htProcesHandle t1 = Some (?k, t2)"
    using k1 by (simp add: CreateHandleFromPointer_def pick_first t2_def) (simp add: t1_def pick_first)
  have "race_inv ([], a)" using idle_inv [of "[]" a] assms(2) by (simp add: idle_def)
  from find_by_pid [OF this, of pid] unopened_view [OF assms(3), of "[]"]
  obtain z where z: "FindHandleByPID (pid_at (ap_heap a)) pid (ap_handles a) = Some z" "raw z = 0"
    by (auto simp: dying_def not_open_def simp del: view.simps split: if_splits)
  have "schedule E [0, 1, 0, 1, 0, 1] ([OpenFind pid, OpenFind pid], a) =
      Some ([Opened pid ?h, Opened pid ?k], ([Returned (OpenedHandle ?h), Returned (OpenedHandle ?k)], ?a'))"
    using assms(4-6) z c1 c2 by (simp add: commit_def put_obj_def)
  from two_calls [where x = x and y = y, OF _ _ _ _ this, of "\<lambda>_. True"]
  have r: "run (race_step E (\<lambda>_. True)) ([Returned x, Returned y], a) [Opened pid ?h, Opened pid ?k]
      ([Returned (OpenedHandle ?h), Returned (OpenedHandle ?k)], ?a')" by simp
  show ?thesis
  proof (intro exI conjI)
    show "?h \<noteq> ?k" using assms(9) by simp
    have "find_handle ?h t2 = Some \<lparr>hi_p = p, hi_type = htProcesHandle\<rparr>"
      "find_handle ?k t2 = Some \<lparr>hi_p = q, hi_type = htProcesHandle\<rparr>"
      using tbl(1) k1 assms(9) by (simp_all add: find_handle_def t2_def map_of_map_insert) (simp_all add: t1_def map_of_map_insert)
    then show "sp_objects (view ([], ?a')) ?h = Some ?ob" "sp_objects (view ([], ?a')) ?k = Some ?ob"
      by (simp_all add: dying_def)
    show "\<forall>S. \<not> spec_run (spec_step E) (view ([], a)) [Opened pid ?h, Opened pid ?k] S"
      using opened_twice [OF unopened_view [OF assms(3)] assms(4)] assms(9) by metis
  qed (rule r)
qed

theorem concurrent_opens_duplicate_witness:
  "\<exists>h k a'. h \<noteq> k \<and>
    run (race_step demo_api (\<lambda>_. True)) ([Returned HandleClosed, Returned HandleClosed], api_start demo_reader demo_bp0)
      [Opened 7 h, Opened 7 k] ([Returned (OpenedHandle h), Returned (OpenedHandle k)], a') \<and>
    sp_objects (view ([], a')) h = Some (OpenProcessObj (opened_process 7)) \<and>
    sp_objects (view ([], a')) k = Some (OpenProcessObj (opened_process 7))"
proof -
  have "unopened 7 (api_start demo_reader demo_bp0)" by (simp add: unopened_def api_start_def no_handles_def find_handle_def)
  from concurrent_opens_duplicate [OF demo_new_fresh api_start_owns this, of "0x1000" "0x2000" HandleClosed HandleClosed]
  show ?thesis
    by (auto simp: drv_OpenProcess_def demo_api_sel api_start_def no_handles_def draw_handle_demo find_handle_def
        simp del: view.simps)
qed

end
