(* ===== verification/Rw_Bytewise.thy ===== *)
theory Rw_Bytewise
  imports Rw_Dev
begin

text \<open>
  The driver's read against a reference: \<open>rwmem_read\<close> of rwMem/sys.c walks the page tables once a
  page and copies up to a page at a time; \<open>read_bytewise\<close> walks them for every byte and stops at
  the first one that cannot be read. They deliver the same bytes and the same count.
\<close>

section \<open>The reference\<close>

definition byte_at :: "kenv \<Rightarrow> nat \<Rightarrow> kst \<Rightarrow> bool \<Rightarrow> u64 \<Rightarrow> byte option" where
  "byte_at K p s force va =
     (case get_proc_phy_addr K p va s of (phy, pte, s1) \<Rightarrow>
      if phy \<noteq> 0 \<and> (is_pte_can_read K pte s \<or> force \<and> pte \<noteq> 0) then Some (phys s phy) else None)"

fun read_bytewise :: "kenv \<Rightarrow> nat \<Rightarrow> kst \<Rightarrow> bool \<Rightarrow> u64 \<Rightarrow> nat \<Rightarrow> byte list" where
  "read_bytewise K p s force va 0 = []"
| "read_bytewise K p s force va (Suc n) =
     (case byte_at K p s force va of
        None \<Rightarrow> []
      | Some b \<Rightarrow> b # read_bytewise K p s force (va + 1) n)"

lemma read_bytewise_take:
  assumes "\<And>j. j < k \<Longrightarrow> byte_at K p s f (va + word_of_nat j) = Some (g j)"
  shows "read_bytewise K p s f va (k + m) = map g [0..<k] @ read_bytewise K p s f (va + word_of_nat k) m"
  using assms
proof (induction k arbitrary: va g)
  case 0
  then show ?case by simp
next
  case (Suc k)
  have z: "byte_at K p s f va = Some (g 0)" using Suc.prems [of 0] by simp
  have "byte_at K p s f (va + 1 + word_of_nat j) = Some (g (Suc j))" if "j < k" for j
    using Suc.prems [of "Suc j"] that by (simp add: ac_simps)
  from Suc.IH [OF this] have "read_bytewise K p s f (va + 1) (k + m) =
      map (\<lambda>j. g (Suc j)) [0..<k] @ read_bytewise K p s f (va + 1 + word_of_nat k) m" by simp
  moreover have "map g [0..<Suc k] = g 0 # map (\<lambda>j. g (Suc j)) [0..<k]"
    by (simp add: upt_conv_Cons map_Suc_upt [symmetric] del: upt_Suc)
  ultimately show ?case using z by (simp add: ac_simps)
qed

lemma read_bytewise_length: "length (read_bytewise K p s f va n) \<le> n"
  by (induction n arbitrary: va) (auto split: option.splits)

lemma byte_at_pid [simp]: "byte_at K p (get_pid q s) f va = byte_at K p s f va"
proof -
  have "get_proc_phy_addr K p va (get_pid q s) = (fst (get_proc_phy_addr K p va s),
      fst (snd (get_proc_phy_addr K p va s)), get_pid q s)"
    by (auto simp: get_proc_phy_addr_def get_task_proc_phy_addr_def get_mm_def mmput_def Let_def
        get_pid_def split_beta split: option.splits)
  moreover have "phys (get_pid q s) = phys s" "ptab (get_pid q s) = ptab s" by (simp_all add: get_pid_def)
  ultimately show ?thesis
    by (simp add: byte_at_def split_beta is_pte_can_read_def cong: option.case_cong)
qed

lemma read_bytewise_pid [simp]: "read_bytewise K p (get_pid q s) f va n = read_bytewise K p s f va n"
  by (induction n arbitrary: va) (simp_all cong: option.case_cong)

section \<open>One page\<close>

text \<open>Within the page of a mapped address nothing wraps around to the null address.\<close>

lemma page_not_null:
  assumes "unat (a AND (PAGE_SIZE - 1)) + j < unat PAGE_SIZE" "a \<noteq> 0"
  shows "a + word_of_nat j \<noteq> 0"
proof
  assume z: "a + word_of_nat j = 0"
  then have "page_of a = page_of 0" using page_of_add [OF assms(1)] by simp
  then have "page_of a = 0" by (simp add: page_of_def)
  then have "a = a AND (PAGE_SIZE - 1)" using page_split [of a] by simp
  then have "unat a + j < 4096" using assms(1) by (simp add: PAGE_SIZE_def)
  moreover from this have "unat (a + word_of_nat j) = unat a + j" by (intro unat_add_of_nat) simp
  ultimately show False using z assms(2) by (simp add: word_unat_eq_iff)
qed

lemma page_bytes:
  assumes K: "kenv_lookup_ok K" and w: "get_proc_phy_addr K p va s = (phy, pte, s)" "phy \<noteq> 0"
    and can: "is_pte_can_read K pte s \<or> f \<and> pte \<noteq> 0" and j: "j < unat (next_piece phy sz d)"
  shows "byte_at K p s f (va + word_of_nat j) = Some (phys s (phy + word_of_nat j))"
proof -
  have "unat (phy AND (PAGE_SIZE - 1)) + unat (next_piece phy sz d) \<le> unat PAGE_SIZE"
    unfolding next_piece_def by (rule size_inside_page_page)
  with j have "unat (phy AND (PAGE_SIZE - 1)) + j < unat PAGE_SIZE" by simp
  from page_not_null [OF this w(2)] piece_in_page [OF K w j] can show ?thesis
    by (simp add: byte_at_def)
qed

section \<open>The loop\<close>

context chunk_loop
begin

lemma loop_partial:
  assumes "d \<le> size" "Inv d s"
    and "\<And>d s n s'. d < size \<Longrightarrow> Inv d s \<Longrightarrow> step d s = (n, True, s') \<Longrightarrow> Inv (d + n) s'"
    and "\<And>d s n s'. d < size \<Longrightarrow> Inv d s \<Longrightarrow> step d s = (n, False, s') \<Longrightarrow> Stop (d + n) s'"
  shows "case loop d s of (r, s') \<Rightarrow> r = size \<and> Inv size s' \<or> Stop r s'"
  using assms(1,2)
proof (induction rule: loop_induct [of d _ s])
  case (finish s)
  then show ?case by (simp add: loop_done)
next
  case (more d s)
  obtain n go s' where st: "step d s = (n, go, s')" by (cases "step d s") auto
  show ?case
  proof (cases go)
    case True
    with st have st: "step d s = (n, True, s')" by simp
    from more.IH [OF st] assms(3) [OF more.hyps more.prems st] add_piece(1) [OF more.hyps step_bound [OF more.hyps st]]
    show ?thesis by (simp add: loop_go [OF more.hyps st])
  next
    case False
    with st have st: "step d s = (n, False, s')" by simp
    from assms(4) [OF more.hyps more.prems st] show ?thesis by (simp add: loop_break [OF more.hyps st])
  qed
qed

end

lemma rwmem_read_loop_bytewise:
  assumes K: "kenv_lookup_ok K" "kenv_copy_ok K"
    and rng: "\<forall>i < unat sz. target_phy K p s (va + word_of_nat i) < phy_total K s"
    and lp: "rwmem_read_loop K p va buf sz f 0 s = (r, s')"
  shows "unat r = length (read_bytewise K p s f va (unat sz)) \<and>
    umem s' = mem_write (umem s) buf (read_bytewise K p s f va (unat sz))"
proof -
  let ?ref = "read_bytewise K p s f va (unat sz)"
  let ?Inv = "\<lambda>d s1. only_user s s1 \<and> phy_total K s1 = phy_total K s \<and>
      (\<exists>bs. length bs = unat d \<and> umem s1 = mem_write (umem s) buf bs \<and>
        ?ref = bs @ read_bytewise K p s f (va + d) (unat sz - unat d))"
  let ?Stop = "\<lambda>d s1. length ?ref = unat d \<and> umem s1 = mem_write (umem s) buf ?ref"
  have "case rwmem_read_loop K p va buf sz f 0 s of (r, s') \<Rightarrow> r = sz \<and> ?Inv sz s' \<or> ?Stop r s'"
  proof (rule rd.loop_partial [where Inv = ?Inv and Stop = ?Stop])
    show "?Inv 0 s" by simp
  next
    fix d s1 n s2
    assume d: "d < sz" and inv: "?Inv d s1" and st: "rwmem_read_step K p va buf sz f d s1 = (n, True, s2)"
    from inv have ou: "only_user s s1" and tot: "phy_total K s1 = phy_total K s" by auto
    obtain bs where bs: "length bs = unat d" "umem s1 = mem_write (umem s) buf bs"
      "?ref = bs @ read_bytewise K p s f (va + d) (unat sz - unat d)" using inv by blast
    obtain phy pte where w: "get_proc_phy_addr K p (va + d) s = (phy, pte, s)"
      by (metis get_proc_phy_addr_same prod_cases3)
    have w1: "get_proc_phy_addr K p (va + d) s1 = (phy, pte, s1)"
      using only_user_target(1) [OF ou tot, of p "va + d"] w by simp
    let ?n = "next_piece phy sz d"
    from st have phy: "phy \<noteq> 0" and can: "is_pte_can_read K pte s \<or> f \<and> pte \<noteq> 0" and n: "n = ?n"
      and s2: "s2 = snd (read_ram_physical_addr K phy (buf + d) False ?n s1)"
      using only_user_target(2) [OF ou tot]
      by (auto simp: rwmem_read_step_def w1 Let_def change_pte_read_status_def split: if_splits)
    note a = rd.add_piece [OF d piece_bounds(1) [OF d, of phy]]
    have le: "unat d + unat ?n \<le> unat sz" using a by (simp add: word_le_nat_alt)
    have inr: "phy + word_of_nat j < phy_total K s" if "j < unat ?n" for j
    proof -
      have "unat d + j < unat sz" using that le by simp
      from rng [rule_format, OF this] piece_in_page [OF K(1) w phy that] show ?thesis
        by (simp add: target_phy_def add.assoc)
    qed
    have "phy + ?n \<le> phy_total K s1"
      using piece_in_range [OF K(1) w phy piece_bounds(2) [OF d] inr] tot by simp
    from read_ram_whole [OF K(2) this] s2 have s2: "s2 = s1\<lparr>umem := mem_write (umem s1) (buf + d)
        (mem_read (phys s1) phy (unat ?n)), g_phy_total := phy_total K s1\<rparr>" by simp
    have ph: "phys s1 = phys s" by (rule only_user_fields(1) [OF ou])
    have "only_user s1 s2" by (cases s1) (auto simp: only_user_def s2)
    then have ou2: "only_user s s2" by (rule only_user_trans [OF ou])
    let ?new = "mem_read (phys s) phy (unat ?n)"
    have len: "length bs + length ?new \<le> 2 ^ 64"
      using unat_bound [of "d + ?n"] a(2) by (simp add: bs(1) mem_read_def)
    have um: "umem s2 = mem_write (umem s) buf (bs @ ?new)"
      using mem_write_append [of bs ?new "umem s" buf] len by (simp add: s2 ph bs(1,2))
    have "read_bytewise K p s f (va + d) (unat ?n + (unat sz - unat (d + ?n))) =
        map (\<lambda>j. phys s (phy + word_of_nat j)) [0..<unat ?n] @
        read_bytewise K p s f (va + d + word_of_nat (unat ?n)) (unat sz - unat (d + ?n))"
      by (rule read_bytewise_take) (rule page_bytes [OF K(1) w phy can])
    moreover have "unat ?n + (unat sz - unat (d + ?n)) = unat sz - unat d" using a(2) le by simp
    ultimately have "?ref = (bs @ ?new) @ read_bytewise K p s f (va + (d + ?n)) (unat sz - unat (d + ?n))"
      using bs(3) by (simp add: mem_read_def add.assoc)
    moreover have "length (bs @ ?new) = unat (d + ?n)" by (simp add: bs(1) a(2) mem_read_def)
    ultimately show "?Inv (d + n) s2" using ou2 um tot n unfolding s2 by auto
  next
    fix d s1 n s2
    assume d: "d < sz" and inv: "?Inv d s1" and st: "rwmem_read_step K p va buf sz f d s1 = (n, False, s2)"
    from inv have ou: "only_user s s1" and tot: "phy_total K s1 = phy_total K s" by auto
    obtain phy pte where w: "get_proc_phy_addr K p (va + d) s = (phy, pte, s)"
      by (metis get_proc_phy_addr_same prod_cases3)
    have w1: "get_proc_phy_addr K p (va + d) s1 = (phy, pte, s1)"
      using only_user_target(1) [OF ou tot, of p "va + d"] w by simp
    from st have s2: "s2 = s1" "n = 0" and no: "byte_at K p s f (va + d) = None"
      using only_user_target(2) [OF ou tot]
      by (auto simp: rwmem_read_step_def w1 w byte_at_def Let_def change_pte_read_status_def split: if_splits)
    have "0 < unat sz - unat d" using d by (simp add: word_less_nat_alt)
    with no have "read_bytewise K p s f (va + d) (unat sz - unat d) = []"
      by (cases "unat sz - unat d") simp_all
    with inv show "?Stop (d + n) s2" by (auto simp: s2)
  qed simp
  with lp show ?thesis by auto
qed

lemma rwmem_read_bytewise_ok:
  assumes "kenv_lookup_ok K" "kenv_copy_ok K"
    and "find_get_pid K (hd_pid (request K buf s)) = Some p"
    and "hd_force (request K buf s) \<or>
      fst (check_proc_map_can_read K p (hd_addr (request K buf s)) sz (get_pid p s))"
    and "\<forall>i < unat sz. target_phy K p s (hd_addr (request K buf s) + word_of_nat i) < phy_total K s"
    and "sz < 2 ^ 63"
  shows "let bs = read_bytewise K p s (hd_force (request K buf s)) (hd_addr (request K buf s)) (unat sz)
    in fst (rwmem_read K buf sz s) = int (length bs) \<and>
       umem (snd (rwmem_read K buf sz s)) = mem_write (umem s) buf bs"
proof -
  let ?h = "request K buf s"
  have u: "umem (get_pid q t) = umem t" "umem (put_pid q t) = umem t"
    "phy_total K (get_pid q t) = phy_total K t" for q t
    by (simp_all add: get_pid_def put_pid_def phy_total_def)
  have "fst (copy_from_user K buf 17 s) = 0"
    using assms(2) by (simp add: copy_from_user_def kenv_copy_ok_def Let_def)
  with assms(3,4) show ?thesis
  proof (cases rule: rwmem_read_cases [of K buf sz s])
    case (moved q r s1)
    with assms(3) have q: "q = p" by simp
    have "\<forall>i < unat sz. target_phy K p (get_pid p s) (hd_addr ?h + word_of_nat i) < phy_total K (get_pid p s)"
      using assms(5) by (simp add: u)
    note bw = rwmem_read_loop_bytewise [OF assms(1,2) this moved(5) [unfolded q]]
    have "r \<le> sz" using bw read_bytewise_length [of K p s "hd_force ?h" "hd_addr ?h" "unat sz"]
      by (simp add: word_le_nat_alt)
    from sint_bounds(2) [OF this assms(6)] have "sint r = int (unat r)" by simp
    with bw moved(1) show ?thesis by (simp add: u Let_def)
  qed auto
qed

text \<open>C3. The read of the driver is equivalent to reading byte by byte: with the header accepted and
  the target's frames in the physical range, it returns the number of bytes up to the first one
  that has no page or may not be read, whole ranges and cut-short ones alike, and stores exactly
  these bytes in the caller's buffer.\<close>

theorem rwmem_read_bytewise:
  assumes "kenv_lookup_ok K" "kenv_copy_ok K"
    and "find_get_pid K (hd_pid (request K buf s)) = Some p"
    and "hd_force (request K buf s) \<or>
      fst (check_proc_map_can_read K p (hd_addr (request K buf s)) sz (get_pid p s))"
    and "\<forall>i < unat sz. target_phy K p s (hd_addr (request K buf s) + word_of_nat i) < phy_total K s"
    and "sz < 2 ^ 63"
  shows "let bs = read_bytewise K p s (hd_force (request K buf s)) (hd_addr (request K buf s)) (unat sz)
    in fst (rwmem_read K buf sz s) = int (length bs) \<and>
       umem (snd (rwmem_read K buf sz s)) = mem_write (umem s) buf bs"
  by (rule rwmem_read_bytewise_ok [OF assms])

theorem rwmem_read_bytewise_witness:
  "fst (rwmem_read demo_env 0x100 4 (demo_request True 0x11ffe)) = 2 \<and>
   umem (snd (rwmem_read demo_env 0x100 4 (demo_request True 0x11ffe))) =
     mem_write (umem (demo_request True 0x11ffe)) 0x100 [0xfe, 0xff]"
proof -
  let ?s = "demo_request True 0x11ffe"
  have h: "find_get_pid demo_env (hd_pid (request demo_env 0x100 ?s)) = Some 3"
    "hd_addr (request demo_env 0x100 ?s) = 0x11ffe" "hd_force (request demo_env 0x100 ?s)"
    by (simp_all add: demo_header)
  have b: "byte_at demo_env 3 ?s True 0x11ffe = Some 0xfe" "byte_at demo_env 3 ?s True 0x11fff = Some 0xff"
    "byte_at demo_env 3 ?s True 0x12000 = None"
    by (simp_all add: byte_at_def demo_walk Let_def page_of_def PAGE_SIZE_def is_pte_can_read_def)
  have "unat (4 :: u64) = Suc (Suc (Suc (Suc 0)))" by simp
  then have "read_bytewise demo_env 3 ?s True 0x11ffe (unat (4 :: u64)) = [0xfe, 0xff]"
    by (simp only: read_bytewise.simps) (simp add: b)
  moreover have "\<forall>i < unat (4 :: u64). target_phy demo_env 3 ?s (hd_addr (request demo_env 0x100 ?s) + word_of_nat i)
      < phy_total demo_env ?s"
    by (auto simp: h(2) target_phy_def demo_walk demo_total Let_def page_of_def PAGE_SIZE_def dest!: less_four)
  ultimately show ?thesis
    using rwmem_read_bytewise [OF demo_lookup_ok demo_copy_ok h(1) _ _, of 4] h(2,3) by (simp add: Let_def)
qed

end
