(* ===== verification/Rw_Bytewise_Write.thy ===== *)
theory Rw_Bytewise_Write
  imports Rw_Bytewise
begin

text \<open>
  The driver's write against a reference, as \<open>Rw_Bytewise\<close> for the read: an unforced \<open>rwmem_write\<close>
  of rwMem/sys.c stores what storing byte by byte does, up to the first byte that has no page or
  may not be written. Two pages of the target may share a frame: then the later byte wins in both.
\<close>

fun write_bytewise :: "kenv \<Rightarrow> nat \<Rightarrow> kst \<Rightarrow> u64 \<Rightarrow> byte list \<Rightarrow> memory \<Rightarrow> nat \<times> memory" where
  "write_bytewise K p s va [] ph = (0, ph)"
| "write_bytewise K p s va (b # bs) ph =
     (case get_proc_phy_addr K p va s of (phy, pte, s1) \<Rightarrow>
      if phy \<noteq> 0 \<and> is_pte_can_write K pte s then
        (case write_bytewise K p s (va + 1) bs (ph(phy := b)) of (n, ph') \<Rightarrow> (Suc n, ph'))
      else (0, ph))"

lemma mem_write_Cons:
  assumes "Suc (length bs) \<le> 2 ^ 64"
  shows "mem_write (m(a := b)) (a + 1) bs = mem_write m a (b # bs)"
proof -
  have "mem_write m a [b] = m(a := b)" by (auto simp: mem_write_def fun_eq_iff unat_eq_0)
  with mem_write_append [of "[b]" bs m a] assms show ?thesis by simp
qed

lemma write_bytewise_piece:
  assumes "\<And>j. j < length xs \<Longrightarrow> get_proc_phy_addr K p (va + word_of_nat j) s = (phy + word_of_nat j, pte, s) \<and>
      phy + word_of_nat j \<noteq> 0"
    and "is_pte_can_write K pte s" "length xs \<le> 2 ^ 64"
  shows "write_bytewise K p s va (xs @ ys) ph =
    (case write_bytewise K p s (va + word_of_nat (length xs)) ys (mem_write ph phy xs) of (n, ph') \<Rightarrow> (length xs + n, ph'))"
  using assms(1,3)
proof (induction xs arbitrary: va phy ph)
  case Nil
  then show ?case by (simp add: mem_write_def split: prod.splits)
next
  case (Cons x xs)
  have "get_proc_phy_addr K p (va + 1 + word_of_nat j) s = (phy + 1 + word_of_nat j, pte, s) \<and> phy + 1 + word_of_nat j \<noteq> 0"
    if "j < length xs" for j
    using Cons.prems(1) [of "Suc j"] that by (simp add: ac_simps)
  from Cons.IH [OF this] Cons.prems(2) mem_write_Cons [of xs ph phy x]
  have ih: "write_bytewise K p s (va + 1) (xs @ ys) (ph(phy := x)) =
      (case write_bytewise K p s (va + 1 + word_of_nat (length xs)) ys (mem_write ph phy (x # xs)) of
         (n, ph') \<Rightarrow> (length xs + n, ph'))" by simp
  have "va + 1 + word_of_nat (length xs) = va + word_of_nat (length (x # xs))" by simp
  with ih have "write_bytewise K p s (va + 1) (xs @ ys) (ph(phy := x)) =
      (case write_bytewise K p s (va + word_of_nat (length (x # xs))) ys (mem_write ph phy (x # xs)) of
         (n, ph') \<Rightarrow> (length xs + n, ph'))" by (simp only:)
  moreover have "get_proc_phy_addr K p va s = (phy, pte, s)" "phy \<noteq> 0" using Cons.prems(1) [of 0] by simp_all
  ultimately show ?case
    using assms(2) by (simp add: split_beta del: of_nat_add of_nat_Suc fun_upd_apply)
qed

lemma write_bytewise_none:
  assumes "get_proc_phy_addr K p va s = (phy, pte, s)" "\<not> (phy \<noteq> 0 \<and> is_pte_can_write K pte s)"
  shows "write_bytewise K p s va bs ph = (0, ph)"
  using assms by (cases bs) auto

lemma write_bytewise_le: "fst (write_bytewise K p s va bs ph) \<le> length bs"
proof (induction bs arbitrary: va ph)
  case (Cons b bs)
  then show ?case by (auto simp: split_beta)
qed simp

text \<open>What the caller asks to be stored.\<close>

definition user_data :: "kst \<Rightarrow> u64 \<Rightarrow> u64 \<Rightarrow> byte list" where
  "user_data s buf sz = mem_read (umem s) (buf + 17) (unat sz)"

lemma of_nat_unat_id: "word_of_nat (unat (w :: u64)) = w" by simp

lemma drop_user_data:
  assumes "d \<le> sz" "n \<le> sz - d"
  shows "drop (unat d) (user_data s buf sz) =
    mem_read (umem s) (buf + 17 + d) (unat n) @ drop (unat (d + n)) (user_data s buf sz)"
proof -
  have le: "unat d + unat n \<le> unat sz" "unat (d + n) = unat d + unat n"
  proof -
    show "unat d + unat n \<le> unat sz" using assms by (simp add: word_le_nat_alt)
    then show "unat (d + n) = unat d + unat n" using unat_bound [of sz] by (simp add: unat_word_ariths)
  qed
  have "unat sz = unat d + (unat n + (unat sz - unat (d + n)))" using le by simp
  then have "user_data s buf sz = mem_read (umem s) (buf + 17) (unat d) @ mem_read (umem s) (buf + 17 + d) (unat n) @
      mem_read (umem s) (buf + 17 + d + n) (unat sz - unat (d + n))"
    unfolding user_data_def by (metis mem_read_append of_nat_unat_id)
  then show ?thesis using le(2) by (simp add: mem_read_def)
qed

lemma rwmem_write_loop_bytewise:
  assumes K: "kenv_lookup_ok K" "kenv_copy_ok K"
    and rng: "\<forall>i < unat sz. target_phy K p s (va + word_of_nat i) < phy_total K s"
    and lp: "rwmem_write_loop K p va buf sz False 0 s = (r, s')"
  shows "write_bytewise K p s va (user_data s buf sz) (phys s) = (unat r, phys s') \<and> umem s' = umem s"
proof -
  let ?data = "user_data s buf sz"
  let ?ref = "write_bytewise K p s va ?data (phys s)"
  let ?rest = "\<lambda>d s1. write_bytewise K p s (va + d) (drop (unat d) ?data) (phys s1)"
  let ?Inv = "\<lambda>d s1. only_phys s s1 \<and> phy_total K s1 = phy_total K s \<and>
      ?ref = (unat d + fst (?rest d s1), snd (?rest d s1))"
  let ?Stop = "\<lambda>d s1. only_phys s s1 \<and> ?ref = (unat d, phys s1)"
  have "case rwmem_write_loop K p va buf sz False 0 s of (r, s') \<Rightarrow> r = sz \<and> ?Inv sz s' \<or> ?Stop r s'"
  proof (rule wr.loop_partial [where Inv = ?Inv and Stop = ?Stop])
    show "?Inv 0 s" by simp
  next
    fix d s1 n s2
    assume d: "d < sz" and inv: "?Inv d s1" and st: "rwmem_write_step K p va buf sz False d s1 = (n, True, s2)"
    from inv have op: "only_phys s s1" and tot: "phy_total K s1 = phy_total K s" by auto
    obtain phy pte where w: "get_proc_phy_addr K p (va + d) s = (phy, pte, s)"
      by (metis get_proc_phy_addr_same prod_cases3)
    have w1: "get_proc_phy_addr K p (va + d) s1 = (phy, pte, s1)"
      using only_phys_target(1) [OF op, of K p "va + d"] w by simp
    let ?n = "next_piece phy sz d"
    from st have phy: "phy \<noteq> 0" and can: "is_pte_can_write K pte s" and n: "n = ?n"
      and s2: "s2 = snd (write_ram_physical_addr K phy (buf + 17 + d) False ?n s1)"
      using only_phys_target(2) [OF op]
      by (auto simp: rwmem_write_step_def w1 Let_def split: if_splits)
    note a = rd.add_piece [OF d piece_bounds(1) [OF d, of phy]]
    have le: "unat d + unat ?n \<le> unat sz" using a by (simp add: word_le_nat_alt)
    have inr: "phy + word_of_nat j < phy_total K s" if "j < unat ?n" for j
    proof -
      have "unat d + j < unat sz" using that le by simp
      from rng [rule_format, OF this] piece_in_page [OF K(1) w phy that] show ?thesis
        by (simp add: target_phy_def add.assoc)
    qed
    have "phy + ?n \<le> phy_total K s1"
      using piece_in_range [OF K(1) w phy piece_bounds(2) [OF d] inr] tot by simp
    from write_ram_whole [OF K(2) this] s2 have s2: "s2 = s1\<lparr>phys := mem_write (phys s1) phy
        (mem_read (umem s1) (buf + 17 + d) (unat ?n)), g_phy_total := phy_total K s1\<rparr>" by simp
    have um: "umem s1 = umem s" by (rule only_phys_fields(1) [OF op])
    let ?new = "mem_read (umem s) (buf + 17 + d) (unat ?n)"
    have piece: "get_proc_phy_addr K p (va + d + word_of_nat j) s = (phy + word_of_nat j, pte, s) \<and>
        phy + word_of_nat j \<noteq> 0" if "j < length ?new" for j
    proof -
      have j: "j < unat ?n" using that by (simp add: mem_read_def)
      have "unat (phy AND (PAGE_SIZE - 1)) + unat ?n \<le> unat PAGE_SIZE"
        unfolding next_piece_def by (rule size_inside_page_page)
      with j have "unat (phy AND (PAGE_SIZE - 1)) + j < unat PAGE_SIZE" by simp
      from page_not_null [OF this phy] piece_in_page [OF K(1) w phy j] show ?thesis by simp
    qed
    have len: "length ?new = unat ?n" by (simp add: mem_read_def)
    have "?rest d s1 = (case ?rest (d + ?n) s2 of (m, ph) \<Rightarrow> (unat ?n + m, ph))"
      using write_bytewise_piece [where xs = ?new, OF piece can, where ys = "drop (unat (d + ?n)) ?data" and ph = "phys s1"] unat_bound [of ?n]
        drop_user_data [OF less_imp_le [OF d] piece_bounds(1) [OF d, of phy], of s buf]
      by (simp add: len s2 um add.assoc)
    with inv a(2) have "?ref = (unat (d + n) + fst (?rest (d + n) s2), snd (?rest (d + n) s2))"
      by (simp add: n split: prod.splits)
    moreover have "only_phys s1 s2" by (cases s1) (auto simp: only_phys_def s2)
    then have "only_phys s s2" by (rule only_phys_trans [OF op])
    moreover have "phy_total K s2 = phy_total K s" using tot by (simp add: s2)
    ultimately show "?Inv (d + n) s2" by blast
  next
    fix d s1 n s2
    assume d: "d < sz" and inv: "?Inv d s1" and st: "rwmem_write_step K p va buf sz False d s1 = (n, False, s2)"
    from inv have op: "only_phys s s1" by auto
    obtain phy pte where w: "get_proc_phy_addr K p (va + d) s = (phy, pte, s)"
      by (metis get_proc_phy_addr_same prod_cases3)
    have w1: "get_proc_phy_addr K p (va + d) s1 = (phy, pte, s1)"
      using only_phys_target(1) [OF op, of K p "va + d"] w by simp
    from st have s2: "s2 = s1" "n = 0" and no: "\<not> (phy \<noteq> 0 \<and> is_pte_can_write K pte s)"
      using only_phys_target(2) [OF op]
      by (auto simp: rwmem_write_step_def w1 Let_def split: if_splits)
    from write_bytewise_none [OF w no] inv show "?Stop (d + n) s2" by (simp add: s2)
  qed simp
  then have "only_phys s s' \<and> ?ref = (unat r, phys s')"
    using lp by (auto simp: user_data_def mem_read_def)
  with only_phys_fields(1) show ?thesis by blast
qed

lemma rwmem_write_bytewise_ok:
  assumes "kenv_lookup_ok K" "kenv_copy_ok K"
    and "find_get_pid K (hd_pid (request K buf s)) = Some p" "\<not> hd_force (request K buf s)"
    and "fst (check_proc_map_can_write K p (hd_addr (request K buf s)) sz (get_pid p s))"
    and "\<forall>i < unat sz. target_phy K p s (hd_addr (request K buf s) + word_of_nat i) < phy_total K s"
    and "sz < 2 ^ 63"
  shows "write_bytewise K p s (hd_addr (request K buf s)) (user_data s buf sz) (phys s) =
      (nat (fst (rwmem_write K buf sz s)), phys (snd (rwmem_write K buf sz s))) \<and>
    0 \<le> fst (rwmem_write K buf sz s) \<and> umem (snd (rwmem_write K buf sz s)) = umem s"
proof -
  let ?h = "request K buf s"
  have u: "umem (get_pid q t) = umem t" "umem (put_pid q t) = umem t" "phys (get_pid q t) = phys t"
    "phys (put_pid q t) = phys t" "phy_total K (get_pid q t) = phy_total K t" "ptab (get_pid q t) = ptab t" for q t
    by (simp_all add: get_pid_def put_pid_def phy_total_def)
  have g: "get_proc_phy_addr K p va (get_pid q s) = (fst (get_proc_phy_addr K p va s),
      fst (snd (get_proc_phy_addr K p va s)), get_pid q s)" for va q
    by (auto simp: get_proc_phy_addr_def get_task_proc_phy_addr_def get_mm_def mmput_def Let_def
        get_pid_def split_beta split: option.splits)
  have wb: "write_bytewise K p (get_pid q s) va bs ph = write_bytewise K p s va bs ph" for q va bs ph
    by (induction bs arbitrary: va ph) (simp_all add: g split_beta is_pte_can_write_def u)
  have "fst (copy_from_user K buf 17 s) = 0"
    using assms(2) by (simp add: copy_from_user_def kenv_copy_ok_def Let_def)
  with assms(3-5) show ?thesis
  proof (cases rule: rwmem_write_cases [of K buf sz s])
    case (moved q r s1)
    with assms(3,4) have q: "q = p" and f: "hd_force ?h = False" by simp_all
    have "\<forall>i < unat sz. target_phy K p (get_pid p s) (hd_addr ?h + word_of_nat i) < phy_total K (get_pid p s)"
      using assms(6) by (simp add: u)
    note bw = rwmem_write_loop_bytewise [OF assms(1,2) this moved(5) [unfolded q f]]
    have d: "user_data (get_pid p s) buf sz = user_data s buf sz" by (simp add: user_data_def u)
    have "unat r \<le> unat sz"
      using bw write_bytewise_le [of K p s "hd_addr ?h" "user_data s buf sz" "phys s"]
      by (simp add: wb d u user_data_def mem_read_def)
    then have "r \<le> sz" by (simp add: word_le_nat_alt)
    from sint_bounds(2) [OF this assms(7)] have "sint r = int (unat r)" by simp
    with bw moved(1) show ?thesis by (simp add: wb d u)
  qed auto
qed

text \<open>C4. The write of the driver is equivalent to storing byte by byte: with an unforced request
  accepted and the target's frames in the physical range, it returns the number of bytes up to
  the first one that has no page or is write-protected, and leaves physical memory as if each of
  them had been stored in turn, also where pages of the target share a frame.\<close>

theorem rwmem_write_bytewise:
  assumes "kenv_lookup_ok K" "kenv_copy_ok K"
    and "find_get_pid K (hd_pid (request K buf s)) = Some p" "\<not> hd_force (request K buf s)"
    and "fst (check_proc_map_can_write K p (hd_addr (request K buf s)) sz (get_pid p s))"
    and "\<forall>i < unat sz. target_phy K p s (hd_addr (request K buf s) + word_of_nat i) < phy_total K s"
    and "sz < 2 ^ 63"
  shows "write_bytewise K p s (hd_addr (request K buf s)) (user_data s buf sz) (phys s) =
      (nat (fst (rwmem_write K buf sz s)), phys (snd (rwmem_write K buf sz s))) \<and>
    0 \<le> fst (rwmem_write K buf sz s) \<and> umem (snd (rwmem_write K buf sz s)) = umem s"
  by (rule rwmem_write_bytewise_ok [OF assms])

theorem rwmem_write_bytewise_witness:
  "fst (rwmem_write demo_env 0x100 4 (demo_request False 0x10ffe)) = 4 \<and>
   phys (snd (rwmem_write demo_env 0x100 4 (demo_request False 0x10ffe))) =
     (phys (demo_request False 0x10ffe))(0x5ffe := 0, 0x5fff := 0, 0x9000 := 0, 0x9001 := 0)"
proof -
  let ?s = "demo_request False 0x10ffe"
  have h: "find_get_pid demo_env (hd_pid (request demo_env 0x100 ?s)) = Some 3"
    "hd_addr (request demo_env 0x100 ?s) = 0x10ffe" "\<not> hd_force (request demo_env 0x100 ?s)"
    by (simp_all add: demo_header)
  have w: "get_proc_phy_addr demo_env 3 0x10ffe ?s = (0x5ffe, 0x1010, ?s)"
    "get_proc_phy_addr demo_env 3 0x10fff ?s = (0x5fff, 0x1010, ?s)"
    "get_proc_phy_addr demo_env 3 0x11000 ?s = (0x9000, 0x1011, ?s)"
    "get_proc_phy_addr demo_env 3 0x11001 ?s = (0x9001, 0x1011, ?s)"
    by (simp_all add: demo_walk Let_def page_of_def PAGE_SIZE_def)
  have can: "is_pte_can_write demo_env 0x1010 ?s" "is_pte_can_write demo_env 0x1011 ?s"
    by (simp_all add: is_pte_can_write_def)
  have "user_data ?s 0x100 4 = [0, 0, 0, 0]"
    by (simp add: user_data_def mem_read_def upt_rec demo_request_def mem_write_def)
  then have "write_bytewise demo_env 3 ?s 0x10ffe (user_data ?s 0x100 4) (phys ?s) =
      (4, (phys ?s)(0x5ffe := 0, 0x5fff := 0, 0x9000 := 0, 0x9001 := 0))"
    by (simp add: w can)
  moreover have "\<forall>i < unat (4 :: u64). target_phy demo_env 3 ?s (hd_addr (request demo_env 0x100 ?s) + word_of_nat i)
      < phy_total demo_env ?s"
    by (auto simp: h(2) target_phy_def w demo_total dest!: less_four)
  moreover have "fst (check_proc_map_can_write demo_env 3 (hd_addr (request demo_env 0x100 ?s)) 4 (get_pid 3 ?s))"
    by (simp add: h(2) demo_check)
  ultimately show ?thesis
    using rwmem_write_bytewise [OF demo_lookup_ok demo_copy_ok h(1,3), of 4] h(2) by auto
qed

end
