(* ===== verification/Mem_Fast.thy ===== *)
theory Mem_Fast
  imports Mem_Reader Rw_Bytewise_Write
begin

text \<open>
  The \<open>_Fast\<close> calls of CEServer/MemoryReaderWriter37.hpp, which keep their buffers from call to
  call, against the plain ones. The locale \<open>answering_driver\<close> is a driver whose answer depends on the
  request and not on the rest of the buffer; on it the two agree on every outcome. It is interpreted
  on the driver's model through the bytewise references.
\<close>

section \<open>A driver whose answer depends on the request\<close>

locale answering_driver =
  fixes D :: "'s drv" and fd :: int
    and answer :: "'s \<Rightarrow> u64 \<Rightarrow> u64 \<Rightarrow> u64 \<Rightarrow> bool \<Rightarrow> (int \<times> byte list) option"
    and outcome :: "'s \<Rightarrow> u64 \<Rightarrow> u64 \<Rightarrow> bool \<Rightarrow> byte list \<Rightarrow> (int \<times> 'e) option"
    and effect :: "'s \<Rightarrow> 'e"
  assumes answer_count: "answer s pid va n f = Some (q, bs) \<Longrightarrow> length bs = nat q \<and> length bs \<le> unat n"
    and read_answer: "answer s pid va n f = Some (q, bs) \<Longrightarrow> 17 \<le> length buf \<Longrightarrow> unat n \<le> length buf \<Longrightarrow>
      length buf < 2 ^ 63 \<Longrightarrow> take 17 buf = build_header pid va f \<Longrightarrow>
      \<exists>s'. os_read D fd buf n s = (q, bs @ drop (length bs) buf, s')"
    and write_answer: "outcome s pid va f data = Some (q, e) \<Longrightarrow> length data = unat n \<Longrightarrow> 17 + unat n \<le> length buf \<Longrightarrow>
      length buf < 2 ^ 63 \<Longrightarrow> take 17 buf = build_header pid va f \<Longrightarrow> take (unat n) (drop 17 buf) = data \<Longrightarrow>
      \<exists>s'. os_write D fd buf n s = (q, s') \<and> effect s' = e"
    and new_length: "length (os_new D k) = k"
begin

text \<open>The two calls, by what the driver answers.\<close>

lemma plain_read:
  assumes "m_nDriverLink r = fd" "rw_args_ok r h va n" "length buf = unat n" "unat n < 2 ^ 63"
    and "answer s h va n (f = 1) = Some (q, bs)"
  shows "\<exists>out s'. ReadProcessMemory D r h va buf n f s =
      (0 < q, out, if 0 < q then Some q else None, s') \<and> (0 < q \<longrightarrow> take (length bs) out = bs)"
proof (cases "n < 17")
  case True
  let ?b = "put_header h va f (replicate 17 0)"
  obtain s' where rd: "os_read D fd ?b n s = (q, bs @ drop (length bs) ?b, s')"
    using read_answer [OF assms(5), of ?b] True by (auto simp: put_header_parts word_less_nat_alt simp del: take_all)
  have nq: "nat q = length bs" using answer_count [OF assms(5)] by simp
  show ?thesis
    using True assms(2) by (simp add: ReadProcessMemory_def Let_def assms(1) rd nq put_bytes_def)
next
  case False
  then have "17 \<le> length buf" using assms(3) by (simp add: word_less_nat_alt)
  then obtain s' where rd: "os_read D fd (put_header h va f buf) n s =
      (q, bs @ drop (length bs) (put_header h va f buf), s')"
    using read_answer [OF assms(5), of "put_header h va f buf"] assms(3,4) by (auto simp: put_header_parts)
  show ?thesis
    using False assms(2) by (simp add: ReadProcessMemory_def Let_def assms(1) rd)
qed

lemma fast_read:
  assumes "m_nDriverLink r = fd" "rw_args_ok r h va n" "length buf = unat n" "unat n < 2 ^ 31"
    and "length (lastMallocReadMemBuf r) < 2 ^ 63" "answer s h va n (f = 1) = Some (q, bs)"
  shows "\<exists>r' s'. ReadProcessMemory_Fast D r h va buf n f s =
      Some (0 < q, if 0 < q then bs @ drop (length bs) buf else buf, if 0 < q then Some q else None, r', s')"
proof -
  define B where "B = (if n < 17 then 17 else n)"
  have B: "unat B = max 17 (unat n)" by (auto simp: B_def word_less_nat_alt max_def)
  have ais: "as_int_size B = B" by (rule as_int_size_small) (use B assms(4) in simp)
  have Bs: "\<not> 2 ^ 63 \<le> B" using B assms(4) by (simp add: word_le_nat_alt)
  define old where "old = (if word_of_nat (length (lastMallocReadMemBuf r)) < B
    then replicate (unat B) 0 else lastMallocReadMemBuf r)"
  have ol: "unat B \<le> length old" "length old < 2 ^ 63"
  proof -
    have "unat (word_of_nat (length (lastMallocReadMemBuf r)) :: u64) = length (lastMallocReadMemBuf r)"
      using assms(5) by (intro unat_u64_of_nat) simp
    then show "unat B \<le> length old"
      by (auto simp: old_def word_less_nat_alt not_less simp del: of_nat_less_iff)
    show "length old < 2 ^ 63" using assms(4,5) B by (auto simp: old_def)
  qed
  define Z where "Z = put_bytes 0 (replicate (unat B) 0) old"
  have Zl: "length Z = length old" using ol by (simp add: Z_def)
  have len: "17 \<le> length old" "unat n \<le> length old" using ol B by auto
  let ?b = "put_header h va f Z"
  obtain s' where rd: "os_read D fd ?b n s = (q, bs @ drop (length bs) ?b, s')"
    using read_answer [OF assms(6), of ?b] len ol Zl by (auto simp: put_header_parts)
  have t: "take (nat q) (bs @ drop (length bs) ?b) = bs" using answer_count [OF assms(6)] by simp
  have nl: "\<not> (length old < 17 \<or> unat n > length old)" using len by simp
  have pw: "put_bytes 0 bs buf = bs @ drop (length bs) buf" by (simp add: put_bytes_def)
  show ?thesis
    unfolding ReadProcessMemory_Fast_def Let_def B_def [symmetric] ais
    by (simp only: assms(2) Bs old_def [symmetric] Z_def [symmetric] nl assms(1) rd prod.case t pw
        if_True if_False simp_thms) auto
qed

lemma reads_agree:
  assumes "m_nDriverLink r = fd" "length buf = unat n" "unat n < 2 ^ 31" "length (lastMallocReadMemBuf r) < 2 ^ 63"
    and "answer s h va n (f = 1) = Some (q, bs)" "ok \<longleftrightarrow> rw_args_ok r h va n \<and> 0 < q"
  shows "\<exists>k out out' r' s1 s2. ReadProcessMemory D r h va buf n f s = (ok, out, k, s1) \<and>
    ReadProcessMemory_Fast D r h va buf n f s = Some (ok, out', k, r', s2) \<and>
    (if ok then k = Some (int (length bs)) \<and> take (length bs) out = bs \<and> out' = bs @ drop (length bs) buf
     else k = None \<and> out' = buf)"
proof (cases "rw_args_ok r h va n")
  case False
  then show ?thesis using assms(6) by (simp add: ReadProcessMemory_def ReadProcessMemory_Fast_def)
next
  case True
  have n: "unat n < 2 ^ 63" using assms(3) by simp
  obtain out s1 where p: "ReadProcessMemory D r h va buf n f s = (0 < q, out, if 0 < q then Some q else None, s1)"
    "0 < q \<longrightarrow> take (length bs) out = bs" using plain_read [OF assms(1) True assms(2) n assms(5)] by blast
  obtain r' s2 where q: "ReadProcessMemory_Fast D r h va buf n f s =
      Some (0 < q, if 0 < q then bs @ drop (length bs) buf else buf, if 0 < q then Some q else None, r', s2)"
    using fast_read [OF assms(1) True assms(2-5)] by blast
  have "0 < q \<Longrightarrow> q = int (length bs)" using answer_count [OF assms(5)] by simp
  with p q assms(6) True show ?thesis by (cases "0 < q") auto
qed

lemma writes_agree:
  assumes "m_nDriverLink r = fd" "length buf = unat n" "unat n + 17 < 2 ^ 31" "length (lastMallocWriteMemBuf r) < 2 ^ 63"
    and "outcome s h va (f = 1) buf = Some (q, e)" "ok \<longleftrightarrow> rw_args_ok r h va n \<and> 0 < q"
  shows "\<exists>k r' s1 s2. WriteProcessMemory D r h va buf n f s = Some (ok, k, s1) \<and>
    WriteProcessMemory_Fast D r h va buf n f s = Some (ok, k, r', s2) \<and> effect s1 = effect s2 \<and>
    (ok \<longrightarrow> k = Some q \<and> effect s1 = e) \<and> (\<not> ok \<longrightarrow> k = None)"
proof (cases "rw_args_ok r h va n")
  case False
  then show ?thesis using assms(6) by (simp add: WriteProcessMemory_def WriteProcessMemory_Fast_def)
next
  case True
  have un: "unat (n + 17) = unat n + 17" using unat_add_of_nat [of n 17] assms(3) by simp
  then have ais: "as_int_size (n + 17) = n + 17" by (intro as_int_size_small) (use assms(3) in simp)
  have small: "\<not> 2 ^ 63 \<le> n + 17" using un assms(3) by (simp add: word_le_nat_alt)
  define old where "old = (if word_of_nat (length (lastMallocWriteMemBuf r)) < n + 17
    then os_new D (unat (n + 17)) else lastMallocWriteMemBuf r)"
  have ol: "17 + unat n \<le> length old" "length old < 2 ^ 63"
  proof -
    have "unat (word_of_nat (length (lastMallocWriteMemBuf r)) :: u64) = length (lastMallocWriteMemBuf r)"
      using assms(4) by (intro unat_u64_of_nat) simp
    then show "17 + unat n \<le> length old"
      using un by (auto simp: old_def word_less_nat_alt not_less new_length simp del: of_nat_less_iff)
    show "length old < 2 ^ 63" using assms(3,4) un by (auto simp: old_def new_length)
  qed
  have tk: "take (unat n) buf = buf" using assms(2) by simp
  have w: "\<exists>s'. os_write D fd (put_bytes 17 buf (put_header h va f b)) n s = (q, s') \<and> effect s' = e"
    if "17 + unat n \<le> length b" "length b < 2 ^ 63" for b
    by (rule write_answer [OF assms(5,2)])
      (use that assms(2) put_header_parts(1) [of b h va f] in \<open>auto simp: put_bytes_def min_def\<close>)
  obtain s1 where s1: "os_write D fd (put_bytes 17 buf (put_header h va f (replicate (unat (n + 17)) 0))) n s = (q, s1)"
    "effect s1 = e" using w [of "replicate (unat (n + 17)) 0"] un assms(3) by auto
  obtain s2 where s2: "os_write D fd (put_bytes 17 buf (put_header h va f old)) n s = (q, s2)" "effect s2 = e"
    using w [OF ol] by blast
  have nl: "\<not> (2 ^ 63 \<le> n + 17 \<or> unat (n + 17) < 17 + unat n)" "\<not> length old < 17 + unat n"
    using small un ol by auto
  have p: "WriteProcessMemory D r h va buf n f s = Some (0 < q, if 0 < q then Some q else None, s1)"
    unfolding WriteProcessMemory_def Let_def ais tk assms(1) s1 prod.case
    by (simp only: True nl if_False simp_thms) auto
  have "\<exists>r'. WriteProcessMemory_Fast D r h va buf n f s = Some (0 < q, if 0 < q then Some q else None, r', s2)"
    unfolding WriteProcessMemory_Fast_def Let_def ais tk assms(1) old_def [symmetric] s2 prod.case
    by (simp only: True nl small if_False simp_thms) auto
  with p s1(2) s2(2) assms(6) True show ?thesis by auto
qed

end

section \<open>The driver's answers\<close>

definition kernel_answer :: "ioenv \<Rightarrow> bpw \<Rightarrow> u64 \<Rightarrow> u64 \<Rightarrow> u64 \<Rightarrow> bool \<Rightarrow> (int \<times> byte list) option" where
  "kernel_answer E w pid va n force =
     (if \<not> (kenv_lookup_ok (b_k E) \<and> kenv_copy_ok (b_k E) \<and> n < 2 ^ 63) then None
      else
        (case find_get_pid (b_k E) (ucast pid) of
           None \<Rightarrow> Some (- 1, [])
         | Some p \<Rightarrow>
             if \<not> (force \<or> fst (check_proc_map_can_read (b_k E) p va n (get_pid p (bk w)))) then Some (- 1, [])
             else if \<forall>i < unat n. target_phy (b_k E) p (bk w) (va + word_of_nat i) < phy_total (b_k E) (bk w)
             then (let bs = read_bytewise (b_k E) p (bk w) force va (unat n) in Some (int (length bs), bs))
             else None))"

definition kernel_outcome :: "ioenv \<Rightarrow> bpw \<Rightarrow> u64 \<Rightarrow> u64 \<Rightarrow> bool \<Rightarrow> byte list \<Rightarrow> (int \<times> memory) option" where
  "kernel_outcome E w pid va force data =
     (if \<not> (kenv_lookup_ok (b_k E) \<and> kenv_copy_ok (b_k E) \<and> length data < 2 ^ 63) \<or> force then None
      else
        (case find_get_pid (b_k E) (ucast pid) of
           None \<Rightarrow> Some (- 1, phys (bk w))
         | Some p \<Rightarrow>
             if \<not> fst (check_proc_map_can_write (b_k E) p va (word_of_nat (length data)) (get_pid p (bk w)))
             then Some (- 1, phys (bk w))
             else if \<forall>i < length data. target_phy (b_k E) p (bk w) (va + word_of_nat i) < phy_total (b_k E) (bk w)
             then (case write_bytewise (b_k E) p (bk w) va data (phys (bk w)) of (k, m) \<Rightarrow> Some (int k, m))
             else None))"

lemma walk_umem:
  "get_proc_phy_addr K p va (s\<lparr>umem := m\<rparr>) =
    (fst (get_proc_phy_addr K p va s), fst (snd (get_proc_phy_addr K p va s)), s\<lparr>umem := m\<rparr>)"
  by (auto simp: get_proc_phy_addr_def get_task_proc_phy_addr_def get_mm_def mmput_def Let_def
      split_beta split: option.splits)

lemma bytewise_umem [simp]:
  "read_bytewise K p (s\<lparr>umem := m\<rparr>) f va n = read_bytewise K p s f va n"
  "write_bytewise K p (s\<lparr>umem := m\<rparr>) va bs ph = write_bytewise K p s va bs ph"
  "phy_total K (s\<lparr>umem := m\<rparr>) = phy_total K s"
proof -
  have b: "byte_at K p (s\<lparr>umem := m\<rparr>) f va = byte_at K p s f va" for va
    by (simp add: byte_at_def walk_umem split_beta is_pte_can_read_def cong: option.case_cong)
  show "read_bytewise K p (s\<lparr>umem := m\<rparr>) f va n = read_bytewise K p s f va n"
    by (induction n arbitrary: va) (simp_all add: b cong: option.case_cong)
  show "write_bytewise K p (s\<lparr>umem := m\<rparr>) va bs ph = write_bytewise K p s va bs ph"
    by (induction bs arbitrary: va ph) (simp_all add: walk_umem split_beta is_pte_can_write_def)
  show "phy_total K (s\<lparr>umem := m\<rparr>) = phy_total K s" by (simp add: phy_total_def)
qed

lemma refused_read:
  assumes "kenv_copy_ok K" "case find_get_pid K (hd_pid (request K buf s)) of None \<Rightarrow> True
    | Some p \<Rightarrow> \<not> hd_force (request K buf s) \<and> \<not> fst (check_proc_map_can_read K p (hd_addr (request K buf s)) n (get_pid p s))"
  shows "read_ret (fst (rwmem_read K buf n s)) = - 1 \<and> snd (rwmem_read K buf n s) = s"
proof -
  have "fst (copy_from_user K buf 17 s) = 0"
    using assms(1) by (simp add: copy_from_user_def kenv_copy_ok_def Let_def)
  with assms(2) show ?thesis
    by (cases rule: rwmem_read_cases [of K buf n s]) (auto simp: read_ret_def EINVAL_def EFAULT_def)
qed

lemma refused_write:
  assumes "kenv_copy_ok K" "case find_get_pid K (hd_pid (request K buf s)) of None \<Rightarrow> True
    | Some p \<Rightarrow> \<not> hd_force (request K buf s) \<and> \<not> fst (check_proc_map_can_write K p (hd_addr (request K buf s)) n (get_pid p s))"
  shows "read_ret (fst (rwmem_write K buf n s)) = - 1 \<and> snd (rwmem_write K buf n s) = s"
proof -
  have "fst (copy_from_user K buf 17 s) = 0"
    using assms(1) by (simp add: copy_from_user_def kenv_copy_ok_def Let_def)
  with assms(2) show ?thesis
    by (cases rule: rwmem_write_cases [of K buf n s]) (auto simp: read_ret_def EINVAL_def EFAULT_def)
qed

lemma check_place:
  "fst (check_proc_map_can_read K p va n (get_pid q (place u buf s))) = fst (check_proc_map_can_read K p va n (get_pid q s))"
  "fst (check_proc_map_can_write K p va n (get_pid q (place u buf s))) = fst (check_proc_map_can_write K p va n (get_pid q s))"
  by (simp_all add: place_def)

lemma kernel_reads_answer:
  assumes "kernel_answer E w pid va n f = Some (q, bs)" "17 \<le> length buf" "unat n \<le> length buf"
    and "length buf < 2 ^ 63" "take 17 buf = build_header pid va f"
  shows "\<exists>w'. os_read (kernel_drv u E) fd buf n w = (q, bs @ drop (length bs) buf, w')"
proof -
  let ?K = "b_k E" and ?s = "place u buf (bk w)"
  from assms(1) have K: "kenv_lookup_ok ?K" "kenv_copy_ok ?K" and n: "n < 2 ^ 63"
    by (auto simp: kernel_answer_def split: if_splits)
  have rq: "request ?K u ?s = \<lparr>hd_pid = ucast pid, hd_addr = va, hd_force = f\<rparr>"
    by (rule request_place [OF K(2) assms(5,2)]) (use assms(4) in simp)
  have kept: "mem_read (umem ?s) u (length buf) = buf"
    unfolding place_def by (simp, rule mem_read_write_n) (use assms(4) in auto)
  have os: "os_read (kernel_drv u E) fd buf n w = (read_ret (fst (rwmem_read ?K u n ?s)),
      mem_read (umem (snd (rwmem_read ?K u n ?s))) u (length buf), w\<lparr>bk := snd (rwmem_read ?K u n ?s)\<rparr>)"
    by (simp add: kernel_drv_def split_beta)
  show ?thesis
  proof (cases "case find_get_pid ?K (ucast pid) of None \<Rightarrow> True
      | Some p \<Rightarrow> \<not> f \<and> \<not> fst (check_proc_map_can_read ?K p va n (get_pid p (bk w)))")
    case True
    then have "q = - 1 \<and> bs = []"
      using assms(1) by (auto simp: kernel_answer_def split: if_splits option.splits)
    moreover from True have "read_ret (fst (rwmem_read ?K u n ?s)) = - 1 \<and> snd (rwmem_read ?K u n ?s) = ?s"
      by (intro refused_read [OF K(2)]) (simp add: rq check_place cong: option.case_cong)
    ultimately show ?thesis by (simp add: os kept)
  next
    case False
    then obtain p where p: "find_get_pid ?K (ucast pid) = Some p"
      and chk: "f \<or> fst (check_proc_map_can_read ?K p va n (get_pid p (bk w)))" by (auto split: option.splits)
    with assms(1) K n have rng: "\<forall>i < unat n. target_phy ?K p (bk w) (va + word_of_nat i) < phy_total ?K (bk w)"
      and bs: "bs = read_bytewise ?K p (bk w) f va (unat n)" "q = int (length bs)"
      by (auto simp: kernel_answer_def Let_def split: if_splits)
    have R: "fst (rwmem_read ?K u n ?s) = int (length bs) \<and> umem (snd (rwmem_read ?K u n ?s)) = mem_write (umem ?s) u bs"
      using rwmem_read_bytewise_ok [OF K, of u ?s p n] p chk rng n by (simp add: rq bs(1)) (simp add: place_def Let_def)
    have lb: "length bs \<le> length buf" using read_bytewise_length [of ?K p "bk w" f va "unat n"] assms(3) by (simp add: bs(1))
    have um: "mem_write (umem ?s) u bs = mem_write (umem (bk w)) u (bs @ drop (length bs) buf)"
      using mem_overwrite [OF lb] by (simp add: place_def)
    have "mem_read (mem_write (umem (bk w)) u (bs @ drop (length bs) buf)) u (length buf) = bs @ drop (length bs) buf"
      by (rule mem_read_write_n) (use lb assms(4) in auto)
    with R show ?thesis by (simp add: os um bs(2) read_ret_def)
  qed
qed

lemma kernel_writes_outcome:
  assumes "kernel_outcome E w pid va f data = Some (q, e)" "length data = unat n" "17 + unat n \<le> length buf"
    and "length buf < 2 ^ 63" "take 17 buf = build_header pid va f" "take (unat n) (drop 17 buf) = data"
  shows "\<exists>w'. os_write (kernel_drv u E) fd buf n w = (q, w') \<and> phys (bk w') = e"
proof -
  let ?K = "b_k E" and ?s = "place u buf (bk w)"
  from assms(1,2) have K: "kenv_lookup_ok ?K" "kenv_copy_ok ?K" and f: "\<not> f" and n': "unat n < 2 ^ 63"
    by (auto simp: kernel_outcome_def split: if_splits)
  have n: "n < 2 ^ 63" "word_of_nat (length data) = n" using n' assms(2) by (simp_all add: word_less_nat_alt)
  have rq: "request ?K u ?s = \<lparr>hd_pid = ucast pid, hd_addr = va, hd_force = f\<rparr>"
    by (rule request_place [OF K(2) assms(5)]) (use assms(3,4) in simp_all)
  have os: "os_write (kernel_drv u E) fd buf n w = (read_ret (fst (rwmem_write ?K u n ?s)), w\<lparr>bk := snd (rwmem_write ?K u n ?s)\<rparr>)"
    by (simp add: kernel_drv_def split_beta)
  have ud: "user_data ?s u n = data"
  proof (rule nth_equalityI)
    show "length (user_data ?s u n) = length data" by (simp add: user_data_def assms(2))
    fix i assume "i < length (user_data ?s u n)"
    then have i: "i < unat n" by (simp add: user_data_def)
    have e: "u + 17 + word_of_nat i - u = word_of_nat (17 + i)" by simp
    have "unat (word_of_nat (17 + i) :: u64) = 17 + i"
      by (rule unat_u64_of_nat) (use i assms(3,4) in simp)
    then have "umem ?s (u + 17 + word_of_nat i) = buf ! (17 + i)"
      using i assms(3) by (simp add: place_def mem_write_def e del: of_nat_add)
    with i assms(3) show "user_data ?s u n ! i = data ! i"
      by (simp add: user_data_def flip: assms(6))
  qed
  show ?thesis
  proof (cases "case find_get_pid ?K (ucast pid) of None \<Rightarrow> True
      | Some p \<Rightarrow> \<not> f \<and> \<not> fst (check_proc_map_can_write ?K p va n (get_pid p (bk w)))")
    case True
    then have "q = - 1 \<and> e = phys (bk w)"
      using assms(1) by (auto simp: kernel_outcome_def n(2) split: if_splits option.splits)
    moreover from True have "read_ret (fst (rwmem_write ?K u n ?s)) = - 1 \<and> snd (rwmem_write ?K u n ?s) = ?s"
      by (intro refused_write [OF K(2)]) (simp add: rq check_place cong: option.case_cong)
    ultimately show ?thesis by (simp add: os) (simp add: place_def)
  next
    case False
    then obtain p where p: "find_get_pid ?K (ucast pid) = Some p"
      and chk: "fst (check_proc_map_can_write ?K p va n (get_pid p (bk w)))" using f by (auto split: option.splits)
    with assms(1) K f have rng: "\<forall>i < unat n. target_phy ?K p (bk w) (va + word_of_nat i) < phy_total ?K (bk w)"
      and bs: "write_bytewise ?K p (bk w) va data (phys (bk w)) = (nat q, e)" "0 \<le> q"
      by (auto simp: kernel_outcome_def n(2) assms(2) split: if_splits prod.splits)
    have R: "write_bytewise ?K p ?s va data (phys ?s) = (nat (fst (rwmem_write ?K u n ?s)), phys (snd (rwmem_write ?K u n ?s)))"
      "0 \<le> fst (rwmem_write ?K u n ?s)"
      using rwmem_write_bytewise_ok [OF K, of u ?s p n] p chk rng n f ud by (simp_all add: rq) (simp_all add: place_def)
    then have "fst (rwmem_write ?K u n ?s) = q" "phys (snd (rwmem_write ?K u n ?s)) = e"
      using bs by (auto simp: place_def eq_nat_nat_iff)
    with bs(2) show ?thesis by (simp add: os read_ret_def)
  qed
qed

interpretation ka: answering_driver "kernel_drv u E" fd "kernel_answer E" "kernel_outcome E" "\<lambda>w. phys (bk w)" for u E fd
proof unfold_locales
  fix w pid va n f q bs
  assume "kernel_answer E w pid va n f = Some (q, bs)"
  then show "length bs = nat q \<and> length bs \<le> unat n"
    by (auto simp: kernel_answer_def Let_def read_bytewise_length split: if_splits option.splits)
next
  fix k show "length (os_new (kernel_drv u E) k) = k" by (simp add: kernel_drv_def)
qed (rule kernel_reads_answer kernel_writes_outcome; assumption)+



end
