(* ===== verification/Rw_Init.thy ===== *)
theory Rw_Init
  imports Kernel_Env
begin

text \<open>
  Loading and unloading the module (rwMem/sys.c): \<open>rwmem_dev_init\<close> registers the device with the
  kernel and \<open>rwmem_dev_exit\<close> takes it back. The state is what the kernel holds for the module (its
  allocations, device numbers, character devices, classes, device nodes and the single-step
  hook) with the module's globals; what the kernel answers is the parameter \<open>initenv\<close>. \<open>None\<close> is a
  null or error pointer given to a kernel function that dereferences it.
\<close>

section \<open>State\<close>

definition DEV_FILENAME :: string where "DEV_FILENAME = ''rwmem''"

text \<open>\<open>struct rwmem_dev\<close> with its pointer, and the allocation of three \<open>struct cdev\<close>.\<close>

datatype kobj = RwmemDev u64 | Cdevs

record modst =
  km_heap :: "u64 \<Rightarrow> kobj option"
  chrdev_regions :: "u32 set"
  cdevs :: "u32 \<Rightarrow> u64 option"
  classes :: "u64 \<Rightarrow> string option"
  device_nodes :: "u32 \<Rightarrow> string option"
  user_step_hook :: bool
  g_rwProcMem_devp :: u64
  g_rwProcMem_devno :: u32
  g_rwProcMem_major :: u32
  g_Class_devp :: u64

record initenv =
  i_kmalloc :: "(u64 \<Rightarrow> kobj option) \<Rightarrow> u64"
  i_alloc_chrdev_region :: "u32 set \<Rightarrow> int \<times> u32"
  i_cdev_add :: "u32 \<Rightarrow> int"
  i_class_create :: "(u64 \<Rightarrow> string option) \<Rightarrow> u64"
  i_device_create :: "u32 \<Rightarrow> bool"

definition IS_ERR :: "u64 \<Rightarrow> bool" where
  "IS_ERR p \<longleftrightarrow> p \<ge> - 4095"

section \<open>The operations\<close>

definition unregister_region :: "modst \<Rightarrow> modst" where
  "unregister_region s = s\<lparr>chrdev_regions := chrdev_regions s - {g_rwProcMem_devno s}\<rparr>"

text \<open>From the registered numbers on: the character device, the class, the node and the hook.\<close>

definition dev_init_cdev :: "initenv \<Rightarrow> modst \<Rightarrow> (int \<times> modst) option" where
  "dev_init_cdev E s =
     (let pc = i_kmalloc E (km_heap s) in
      if pc = 0 then None
      else
        (let s1 = s\<lparr>km_heap := (km_heap s)(g_rwProcMem_devp s \<mapsto> RwmemDev pc, pc \<mapsto> Cdevs)\<rparr> in
         if i_cdev_add E (g_rwProcMem_devno s1) \<noteq> 0 then Some (- EFAULT, unregister_region s1)
         else
           (let s2 = s1\<lparr>cdevs := (cdevs s1)(g_rwProcMem_devno s1 \<mapsto> pc)\<rparr>;
                cls = i_class_create E (classes s2);
                s3 = s2\<lparr>g_Class_devp := cls\<rparr>
            in if IS_ERR cls then None
               else
                 (let s4 = s3\<lparr>classes := (classes s3)(cls \<mapsto> DEV_FILENAME)\<rparr>;
                      s5 = (if i_device_create E (g_rwProcMem_devno s4)
                            then s4\<lparr>device_nodes := (device_nodes s4)(g_rwProcMem_devno s4 \<mapsto> DEV_FILENAME)\<rparr>
                            else s4)
                  in Some (0, s5\<lparr>user_step_hook := True\<rparr>)))))"

definition rwmem_dev_init :: "initenv \<Rightarrow> modst \<Rightarrow> (int \<times> modst) option" where
  "rwmem_dev_init E s =
     (let devp = i_kmalloc E (km_heap s);
          s1 = s\<lparr>g_rwProcMem_devp := devp\<rparr>
      in if devp = 0 then Some (- ENOMEM, unregister_region s1)
         else
           (let s2 = s1\<lparr>km_heap := (km_heap s1)(devp \<mapsto> RwmemDev 0)\<rparr>;
                (result, dev) = i_alloc_chrdev_region E (chrdev_regions s2);
                devno = (if result < 0 then g_rwProcMem_devno s2 else dev);
                s3 = s2\<lparr>g_rwProcMem_devno := devno, g_rwProcMem_major := drop_bit 20 devno\<rparr>
            in if result < 0 then Some (result, s3)
               else dev_init_cdev E (s3\<lparr>chrdev_regions := insert devno (chrdev_regions s3)\<rparr>)))"

definition rwmem_dev_exit :: "modst \<Rightarrow> modst option" where
  "rwmem_dev_exit s =
     (if IS_ERR (g_Class_devp s) then None
      else
        (case km_heap s (g_rwProcMem_devp s) of
           Some (RwmemDev pc) \<Rightarrow>
             (let s1 = s\<lparr>device_nodes := (device_nodes s)(g_rwProcMem_devno s := None)\<rparr>;
                  s2 = s1\<lparr>classes := (classes s1)(g_Class_devp s1 := None)\<rparr>;
                  s3 = s2\<lparr>cdevs := (\<lambda>n. if cdevs s2 n = Some pc then None else cdevs s2 n)\<rparr>;
                  s4 = (unregister_region s3)\<lparr>user_step_hook := False\<rparr>
              in Some (s4\<lparr>km_heap := (km_heap s4)(pc := None, g_rwProcMem_devp s4 := None)\<rparr>))
         | _ \<Rightarrow> None))"

section \<open>Loading and unloading\<close>

text \<open>What the kernel documents: an allocation is not in use, a device number is new, a class is new.\<close>

definition initenv_ok :: "initenv \<Rightarrow> bool" where
  "initenv_ok E \<longleftrightarrow>
     (\<forall>h. i_kmalloc E h \<noteq> 0 \<longrightarrow> h (i_kmalloc E h) = None) \<and>
     (\<forall>R. 0 \<le> fst (i_alloc_chrdev_region E R) \<longrightarrow> snd (i_alloc_chrdev_region E R) \<notin> R) \<and>
     (\<forall>C. \<not> IS_ERR (i_class_create E C) \<longrightarrow> C (i_class_create E C) = None)"

text \<open>Character devices and nodes of registered numbers, with their \<open>struct cdev\<close> allocated.\<close>

definition mod_wf :: "modst \<Rightarrow> bool" where
  "mod_wf s \<longleftrightarrow> dom (cdevs s) \<subseteq> chrdev_regions s \<and> dom (device_nodes s) \<subseteq> chrdev_regions s \<and>
     ran (cdevs s) \<subseteq> dom (km_heap s)"

definition resources :: "modst \<Rightarrow> (u64 \<Rightarrow> kobj option) \<times> u32 set \<times> (u32 \<Rightarrow> u64 option) \<times>
    (u64 \<Rightarrow> string option) \<times> (u32 \<Rightarrow> string option) \<times> bool" where
  "resources s = (km_heap s, chrdev_regions s, cdevs s, classes s, device_nodes s, user_step_hook s)"

text \<open>What a successful load has done.\<close>

lemma init_success:
  assumes "initenv_ok E" "rwmem_dev_init E s = Some (0, s1)"
  obtains devp pc devno cls where "devp \<noteq> 0" "km_heap s devp = None" "pc \<noteq> devp" "km_heap s pc = None"
    "devno \<notin> chrdev_regions s" "classes s cls = None" "\<not> IS_ERR cls"
    "resources s1 = ((km_heap s)(devp \<mapsto> RwmemDev pc, pc \<mapsto> Cdevs), insert devno (chrdev_regions s),
      (cdevs s)(devno \<mapsto> pc), (classes s)(cls \<mapsto> DEV_FILENAME),
      if i_device_create E devno then (device_nodes s)(devno \<mapsto> DEV_FILENAME) else device_nodes s, True)"
    "g_rwProcMem_devp s1 = devp" "g_rwProcMem_devno s1 = devno" "g_Class_devp s1 = cls"
proof -
  let ?devp = "i_kmalloc E (km_heap s)"
  let ?h1 = "(km_heap s)(?devp \<mapsto> RwmemDev 0)"
  let ?pc = "i_kmalloc E ?h1" and ?devno = "snd (i_alloc_chrdev_region E (chrdev_regions s))"
  let ?cls = "i_class_create E (classes s)"
  have k: "i_kmalloc E h \<noteq> 0 \<Longrightarrow> h (i_kmalloc E h) = None"
    "0 \<le> fst (i_alloc_chrdev_region E R) \<Longrightarrow> snd (i_alloc_chrdev_region E R) \<notin> R"
    "\<not> IS_ERR (i_class_create E C) \<Longrightarrow> C (i_class_create E C) = None" for h R C
    using assms(1) by (auto simp: initenv_ok_def)
  have ok: "?devp \<noteq> 0" "?pc \<noteq> 0" "\<not> IS_ERR ?cls" "0 \<le> fst (i_alloc_chrdev_region E (chrdev_regions s))"
    using assms(2)
    by (auto simp: rwmem_dev_init_def dev_init_cdev_def Let_def EFAULT_def ENOMEM_def split: prod.splits if_splits)
  have s1: "resources s1 = (?h1(?devp \<mapsto> RwmemDev ?pc, ?pc \<mapsto> Cdevs), insert ?devno (chrdev_regions s),
      (cdevs s)(?devno \<mapsto> ?pc), (classes s)(?cls \<mapsto> DEV_FILENAME),
      if i_device_create E ?devno then (device_nodes s)(?devno \<mapsto> DEV_FILENAME) else device_nodes s, True) \<and>
      g_rwProcMem_devp s1 = ?devp \<and> g_rwProcMem_devno s1 = ?devno \<and> g_Class_devp s1 = ?cls"
    using assms(2)
    by (auto simp: rwmem_dev_init_def dev_init_cdev_def Let_def EFAULT_def ENOMEM_def resources_def unregister_region_def
        split: prod.splits if_splits)
  have f: "?h1 ?pc = None" using k(1) ok(2) by blast
  then have "?pc \<noteq> ?devp" "km_heap s ?pc = None" by (auto split: if_splits)
  with s1 ok k(1) [OF ok(1)] k(2) [OF ok(4)] k(3) [OF ok(3)] that [of ?devp ?pc ?devno ?cls] show ?thesis by auto
qed

text \<open>C38. Unloading the module undoes loading it: after a successful load the driver is registered
  under its device number, with a node named rwmem when the kernel could make one, and unloading
  gives back the allocations, the number, the character device, the class, the node and the hook,
  and touches nothing else.\<close>

theorem module_load_unload:
  assumes "initenv_ok E" "mod_wf s" "\<not> user_step_hook s" "rwmem_dev_init E s = Some (0, s1)"
  shows "user_step_hook s1 \<and> cdevs s1 (g_rwProcMem_devno s1) \<noteq> None \<and>
    device_nodes s1 (g_rwProcMem_devno s1) =
      (if i_device_create E (g_rwProcMem_devno s1) then Some ''rwmem'' else None) \<and>
    (\<exists>s2. rwmem_dev_exit s1 = Some s2 \<and> resources s2 = resources s)"
proof -
  obtain devp pc devno cls where i: "devp \<noteq> 0" "km_heap s devp = None" "pc \<noteq> devp" "km_heap s pc = None"
    "devno \<notin> chrdev_regions s" "classes s cls = None" "\<not> IS_ERR cls"
    "resources s1 = ((km_heap s)(devp \<mapsto> RwmemDev pc, pc \<mapsto> Cdevs), insert devno (chrdev_regions s),
      (cdevs s)(devno \<mapsto> pc), (classes s)(cls \<mapsto> DEV_FILENAME),
      if i_device_create E devno then (device_nodes s)(devno \<mapsto> DEV_FILENAME) else device_nodes s, True)"
    "g_rwProcMem_devp s1 = devp" "g_rwProcMem_devno s1 = devno" "g_Class_devp s1 = cls"
    by (rule init_success [OF assms(1,4)])
  have free: "cdevs s devno = None" "device_nodes s devno = None" "cdevs s n \<noteq> Some pc" for n
    using assms(2) i(4,5) by (auto simp: mod_wf_def ran_def dom_def)
  have r: "km_heap s1 = (km_heap s)(devp \<mapsto> RwmemDev pc, pc \<mapsto> Cdevs)" "chrdev_regions s1 = insert devno (chrdev_regions s)"
    "cdevs s1 = (cdevs s)(devno \<mapsto> pc)" "classes s1 = (classes s)(cls \<mapsto> DEV_FILENAME)"
    "device_nodes s1 = (if i_device_create E devno then (device_nodes s)(devno \<mapsto> DEV_FILENAME) else device_nodes s)"
    "user_step_hook s1" using i(8) by (auto simp: resources_def)
  have "(\<lambda>n. if cdevs s1 n = Some pc then None else cdevs s1 n) = cdevs s"
    using free by (auto simp: r(3) fun_eq_iff)
  moreover have "(classes s1)(cls := None) = classes s" "(device_nodes s1)(devno := None) = device_nodes s"
    "(km_heap s1)(pc := None, devp := None) = km_heap s" "chrdev_regions s1 - {devno} = chrdev_regions s"
    using free i(2-6) by (auto simp: r fun_eq_iff)
  ultimately have undone: "resources s = ((km_heap s1)(pc := None, devp := None), chrdev_regions s1 - {devno},
      (\<lambda>n. if cdevs s1 n = Some pc then None else cdevs s1 n), (classes s1)(cls := None),
      (device_nodes s1)(devno := None), False)"
    using assms(3) by (simp add: resources_def)
  have "km_heap s1 devp = Some (RwmemDev pc)" using i(3) by (simp add: r(1))
  then have "\<exists>s2. rwmem_dev_exit s1 = Some s2 \<and> resources s2 = resources s"
    unfolding undone
    by (simp add: rwmem_dev_exit_def i(7,9-11) resources_def unregister_region_def Let_def cong: if_cong)
  with r i(10) free show ?thesis by (simp add: DEV_FILENAME_def)
qed

text \<open>A load that fails leaves nothing registered: no number, character device, class, node or
  hook. But it keeps what it allocated: the heap is the one before the load only if the very first
  allocation failed, in the other failures the device structure is never freed.\<close>

theorem module_load_failure:
  assumes "initenv_ok E" "rwmem_dev_init E s = Some (r, s1)" "r \<noteq> 0"
    and "g_rwProcMem_devno s \<notin> chrdev_regions s"
  shows "r < 0 \<and> cdevs s1 = cdevs s \<and> classes s1 = classes s \<and> device_nodes s1 = device_nodes s \<and>
    user_step_hook s1 = user_step_hook s \<and> chrdev_regions s1 = chrdev_regions s \<and>
    (km_heap s1 = km_heap s \<longleftrightarrow> i_kmalloc E (km_heap s) = 0) \<and>
    (\<forall>p. km_heap s p \<noteq> None \<longrightarrow> km_heap s1 p = km_heap s p)"
proof -
  let ?devp = "i_kmalloc E (km_heap s)"
  have k: "i_kmalloc E h \<noteq> 0 \<Longrightarrow> h (i_kmalloc E h) = None"
    "0 \<le> fst (i_alloc_chrdev_region E R) \<Longrightarrow> snd (i_alloc_chrdev_region E R) \<notin> R" for h R
    using assms(1) by (auto simp: initenv_ok_def)
  show ?thesis
  proof (cases "?devp = 0")
    case True
    with assms show ?thesis
      by (auto simp: rwmem_dev_init_def Let_def ENOMEM_def unregister_region_def)
  next
    case False
    obtain result dev where a: "i_alloc_chrdev_region E (chrdev_regions s) = (result, dev)" by fastforce
    have d: "0 \<le> result \<Longrightarrow> dev \<notin> chrdev_regions s" using k(2) [of "chrdev_regions s"] by (simp add: a)
    let ?h1 = "(km_heap s)(?devp \<mapsto> RwmemDev 0)"
    let ?pc = "i_kmalloc E ?h1"
    have devp: "km_heap s ?devp = None" by (rule k(1) [OF False])
    have pc: "?pc \<noteq> 0 \<Longrightarrow> ?pc \<noteq> ?devp \<and> km_heap s ?pc = None"
      using k(1) [of ?h1] by (auto split: if_splits)
    have ne: "(km_heap s)(?devp \<mapsto> x) \<noteq> km_heap s" "(km_heap s)(?devp \<mapsto> x, ?pc \<mapsto> y) \<noteq> km_heap s" for x y
      using devp by (metis fun_upd_same fun_upd_other option.distinct(1))+
    show ?thesis
    proof (cases "result < 0")
      case True
      with assms(2) False a have "r = result \<and> resources s1 =
          (?h1, chrdev_regions s, cdevs s, classes s, device_nodes s, user_step_hook s)"
        by (auto simp: rwmem_dev_init_def Let_def resources_def)
      with True False ne devp show ?thesis by (auto simp: resources_def)
    next
      case ok: False
      from assms(2,3) False a ok have "r = - EFAULT \<and> ?pc \<noteq> 0 \<and> resources s1 =
          ((km_heap s)(?devp \<mapsto> RwmemDev ?pc, ?pc \<mapsto> Cdevs), insert dev (chrdev_regions s) - {dev}, cdevs s, classes s,
            device_nodes s, user_step_hook s)"
        by (auto simp: rwmem_dev_init_def dev_init_cdev_def Let_def resources_def unregister_region_def
            split: if_splits)
      with False ne devp pc d ok show ?thesis by (auto simp: resources_def EFAULT_def)
    qed
  qed
qed

text \<open>A machine with one other driver; loading succeeds, or fails at the character device.\<close>

definition demo_modst :: modst where
  "demo_modst = \<lparr>km_heap = [0x10 \<mapsto> Cdevs], chrdev_regions = {0x100001}, cdevs = [0x100001 \<mapsto> 0x10],
     classes = [0x20 \<mapsto> ''mem''], device_nodes = [0x100001 \<mapsto> ''mem''], user_step_hook = False,
     g_rwProcMem_devp = 0, g_rwProcMem_devno = 0, g_rwProcMem_major = 0, g_Class_devp = 0\<rparr>"

definition EBUSY :: int where "EBUSY = 16"

definition demo_initenv :: "int \<Rightarrow> initenv" where
  "demo_initenv r = \<lparr>
     i_kmalloc = (\<lambda>h. if h 0x1000 = None then 0x1000 else if h 0x2000 = None then 0x2000 else 0),
     i_alloc_chrdev_region = (\<lambda>R. if 0xfc00000 \<in> R then (- EBUSY, 0) else (0, 0xfc00000)),
     i_cdev_add = (\<lambda>_. r), i_class_create = (\<lambda>C. if C 0x30 = None then 0x30 else - 12),
     i_device_create = (\<lambda>_. True)\<rparr>"

lemma IS_ERR_values [simp]: "\<not> IS_ERR 0x30" "IS_ERR (- 12)"
  by (simp_all add: IS_ERR_def)

lemma demo_initenv_ok: "initenv_ok (demo_initenv r)"
  by (auto simp: initenv_ok_def demo_initenv_def EBUSY_def split: if_splits)

lemmas demo_init_defs = rwmem_dev_init_def dev_init_cdev_def demo_modst_def demo_initenv_def
  unregister_region_def Let_def

theorem module_load_unload_witness:
  "\<exists>s1 s2. rwmem_dev_init (demo_initenv 0) demo_modst = Some (0, s1) \<and>
     user_step_hook s1 \<and> device_nodes s1 0xfc00000 = Some ''rwmem'' \<and>
     rwmem_dev_exit s1 = Some s2 \<and> resources s2 = resources demo_modst"
proof -
  obtain s1 where s1: "rwmem_dev_init (demo_initenv 0) demo_modst = Some (0, s1)" "g_rwProcMem_devno s1 = 0xfc00000"
    by (simp add: demo_init_defs)
  have "mod_wf demo_modst" "\<not> user_step_hook demo_modst"
    by (auto simp: mod_wf_def demo_modst_def)
  from module_load_unload [OF demo_initenv_ok this s1(1)] s1 show ?thesis
    by (auto simp: demo_initenv_def)
qed

theorem module_load_failure_witness:
  "\<exists>s1. rwmem_dev_init (demo_initenv (- 12)) demo_modst = Some (- EFAULT, s1) \<and>
     chrdev_regions s1 = chrdev_regions demo_modst \<and> \<not> user_step_hook s1 \<and> km_heap s1 \<noteq> km_heap demo_modst"
proof -
  obtain s1 where s1: "rwmem_dev_init (demo_initenv (- 12)) demo_modst = Some (- EFAULT, s1)"
    by (simp add: demo_init_defs)
  have "- EFAULT \<noteq> 0" "g_rwProcMem_devno demo_modst \<notin> chrdev_regions demo_modst"
    "\<not> user_step_hook demo_modst" "i_kmalloc (demo_initenv (- 12)) (km_heap demo_modst) \<noteq> 0"
    by (simp_all add: demo_modst_def demo_initenv_def EFAULT_def)
  with module_load_failure [OF demo_initenv_ok s1] s1 show ?thesis by blast
qed

end
