(* ===== verification/Rs_Device.thy ===== *)
theory Rs_Device
  imports Mem_Reader
begin

text \<open>
  The Rust client of the driver (\<^verbatim>\<open>librwmem/src/lib.rs\<close>, \<open>impl Device\<close>): reading and writing a
  process, the residency check, the list of mappings and adding a breakpoint. The operating system
  is the same parameter \<open>'s drv\<close> as for the C++ client; the crates the library uses are the other
  fields of \<open>rsenv\<close>. The value of a call is \<open>None\<close> where the code panics; sizes wrap as they do in
  the release build.
\<close>

section \<open>The crates, errors and results\<close>

text \<open>The request codes of nix's ioctl macros, \<open>errno\<close>, \<open>from_utf8_lossy\<close>, and where the compiler puts
  the two components of the tuple \<open>AllRegs\<close>, which the language does not say.\<close>

record 's rsenv =
  rs_drv :: "'s drv"
  rs_errno :: "'s \<Rightarrow> int"
  request_code_readwrite :: "u32 \<Rightarrow> u32 \<Rightarrow> nat \<Rightarrow> u32"
  request_code_none :: "u32 \<Rightarrow> u32 \<Rightarrow> u32"
  request_code_write_int :: "u32 \<Rightarrow> u32 \<Rightarrow> u32"
  request_code_write_ptr :: "u32 \<Rightarrow> u32 \<Rightarrow> nat \<Rightarrow> u32"
  from_utf8_lossy :: "byte list \<Rightarrow> string"
  all_regs_layout :: "nat \<times> nat"

text \<open>What nix documents: the codes are those of the C macros, with a C \<open>int\<close> for \<open>ioctl_write_int!\<close>.\<close>

definition nix_ok :: "'s rsenv \<Rightarrow> bool" where
  "nix_ok E \<longleftrightarrow>
     (\<forall>g n len. request_code_readwrite E g n len = IOWR g n (word_of_nat len)) \<and>
     (\<forall>g n. request_code_none E g n = IOC_IO g n) \<and>
     (\<forall>g n. request_code_write_int E g n = IOW g n 4) \<and>
     (\<forall>g n len. request_code_write_ptr E g n len = IOW g n (word_of_nat len))"

datatype rs_error =
    Errno int | ReadFailed u64 u64 | WriteFailed u64 u64 | MapsTooLong | MapsParseError | NotAligned
  | BeginLargerThanEnd u64 u64 | InvalidRegister u64 | InvalidBreakpointType string

type_synonym ('a, 's) rs = "((rs_error + 'a) \<times> 's) option"

definition errno_result :: "'s rsenv \<Rightarrow> int \<Rightarrow> 's \<Rightarrow> rs_error + int" where
  "errno_result E r s = (if r = -1 then Inl (Errno (rs_errno E s)) else Inr r)"

definition RWMEM_MAGIC :: u32 where "RWMEM_MAGIC = 100"
definition RS_MAPS_COUNT :: u32 where "RS_MAPS_COUNT = 0"
definition RS_MAPS_LIST :: u32 where "RS_MAPS_LIST = 1"
definition RS_CHECK_PHY :: u32 where "RS_CHECK_PHY = 2"

definition DEFAULT_DRIVER_PATH :: string where "DEFAULT_DRIVER_PATH = ''/dev/rwmem''"

record MapsEntry =
  me_start :: u64
  me_end :: u64
  read_permission :: bool
  write_permission :: bool
  execute_permission :: bool
  shared :: bool
  me_name :: string

section \<open>Opening, reading and writing\<close>

text \<open>A pid is an \<open>i32\<close>; \<open>(pid as i64).to_ne_bytes()\<close>.\<close>

definition pid_bytes :: "u32 \<Rightarrow> byte list" where "pid_bytes pid = u64_bytes (scast pid)"

definition Device_new :: "'s rsenv \<Rightarrow> string \<Rightarrow> 's \<Rightarrow> (rs_error + int) \<times> 's" where
  "Device_new E path s =
     (case os_open (rs_drv E) path s of (fd, s') \<Rightarrow> (if fd < 0 then Inl (Errno (- fd)) else Inr fd, s'))"

text \<open>The error or success of a transfer of \<open>n\<close> bytes.\<close>

definition transfer_result ::
    "'s rsenv \<Rightarrow> (u64 \<Rightarrow> u64 \<Rightarrow> rs_error) \<Rightarrow> nat \<Rightarrow> int \<Rightarrow> 's \<Rightarrow> rs_error + unit" where
  "transfer_result E failed n r s =
     (case errno_result E r s of
        Inl e \<Rightarrow> Inl e
      | Inr real \<Rightarrow> if real \<noteq> int n then Inl (failed (word_of_nat n) (word_of_int real)) else Inr ())"

definition rs_read_mem ::
    "'s rsenv \<Rightarrow> int \<Rightarrow> u32 \<Rightarrow> u64 \<Rightarrow> byte list \<Rightarrow> 's \<Rightarrow> (unit, byte list \<times> 's) rs" where
  "rs_read_mem E fd pid addr buf s =
     (let n = length buf in
      if n < 17 then
        (let new_buf = put_bytes 8 (u64_bytes addr) (put_bytes 0 (pid_bytes pid) (replicate 17 0)) in
         case os_read (rs_drv E) fd new_buf (word_of_nat n) s of (r, new_buf', s') \<Rightarrow>
         (case transfer_result E ReadFailed n r s' of
            Inl e \<Rightarrow> Some (Inl e, buf, s')
          | Inr _ \<Rightarrow> Some (Inr (), take n new_buf', s')))
      else
        (let buf1 = put_bytes 8 (u64_bytes addr) (put_bytes 0 (pid_bytes pid) buf) in
         if n \<le> 17 then None
         else
           (let buf2 = put_bytes 17 [0] buf1 in
            case os_read (rs_drv E) fd buf2 (word_of_nat n) s of (r, buf', s') \<Rightarrow>
            Some (transfer_result E ReadFailed n r s', buf', s'))))"

definition rs_write_mem ::
    "'s rsenv \<Rightarrow> int \<Rightarrow> u32 \<Rightarrow> u64 \<Rightarrow> byte list \<Rightarrow> 's \<Rightarrow> (rs_error + unit) \<times> 's" where
  "rs_write_mem E fd pid addr buf s =
     (let n = length buf;
          new_buf = put_bytes 17 buf (put_bytes 16 [1] (put_bytes 8 (u64_bytes addr)
            (put_bytes 0 (pid_bytes pid) (replicate (17 + n) 0)))) in
      case os_write (rs_drv E) fd new_buf (word_of_nat n) s of (r, s') \<Rightarrow>
      (transfer_result E WriteFailed n r s', s'))"

section \<open>The residency check\<close>

text \<open>A \<open>BitVec<u8, Lsb0>\<close> made from a vector of bytes and truncated.\<close>

definition bits_of :: "nat \<Rightarrow> byte list \<Rightarrow> bool list" where
  "bits_of n buf = map (\<lambda>k. bit (buf ! (k div 8)) (k mod 8)) [0..<min n (8 * length buf)]"

definition rs_is_mem_phy ::
    "'s rsenv \<Rightarrow> int \<Rightarrow> u32 \<Rightarrow> u64 \<Rightarrow> u64 \<Rightarrow> 's \<Rightarrow> (bool list, 's) rs" where
  "rs_is_mem_phy E fd pid begin_addr end_addr s =
     (if begin_addr AND 0xfff \<noteq> 0 then Some (Inl NotAligned, s)
      else if end_addr AND 0xfff \<noteq> 0 then Some (Inl NotAligned, s)
      else if begin_addr \<ge> end_addr then Some (Inl (BeginLargerThanEnd begin_addr end_addr), s)
      else
        (let pages = drop_bit 12 end_addr - drop_bit 12 begin_addr;
             buf_size = max 24 ((pages + 7) div 8);
             buf = put_bytes 16 (u64_bytes end_addr) (put_bytes 8 (u64_bytes begin_addr)
                     (put_bytes 0 (pid_bytes pid) (replicate (unat buf_size) 0)))
         in case os_ioctl_buf (rs_drv E) fd (request_code_readwrite E RWMEM_MAGIC RS_CHECK_PHY 8) buf s of
              None \<Rightarrow> None
            | Some (r, buf', s') \<Rightarrow>
                (case errno_result E r s' of
                   Inl e \<Rightarrow> Some (Inl e, s')
                 | Inr _ \<Rightarrow> Some (Inr (bits_of (unat pages) buf'), s'))))"

section \<open>The list of mappings\<close>

text \<open>The loop over the pages of one mapping: \<open>i\<close>, \<open>is_last_phy\<close>, \<open>begin_phy\<close> and \<open>result\<close>; \<open>entry\<close>
  is the mapping's record.\<close>

fun phy_entries ::
    "MapsEntry \<Rightarrow> nat \<Rightarrow> bool \<Rightarrow> u64 \<Rightarrow> bool list \<Rightarrow> MapsEntry list \<Rightarrow> bool \<times> u64 \<times> MapsEntry list" where
  "phy_entries entry i is_last_phy begin_phy [] result = (is_last_phy, begin_phy, result)"
| "phy_entries entry i is_last_phy begin_phy (is_phy # is_mem_phy) result =
     (if is_phy then
        (if \<not> is_last_phy then
           phy_entries entry (i + 1) True (me_start entry + word_of_nat i * 0x1000) is_mem_phy result
         else phy_entries entry (i + 1) is_last_phy begin_phy is_mem_phy result)
      else if is_last_phy then
        phy_entries entry (i + 1) False begin_phy is_mem_phy
          (result @ [entry\<lparr>me_start := begin_phy, me_end := me_start entry + word_of_nat i * 0x1000\<rparr>])
      else phy_entries entry (i + 1) is_last_phy begin_phy is_mem_phy result)"

definition push_phy :: "MapsEntry \<Rightarrow> bool list \<Rightarrow> MapsEntry list \<Rightarrow> MapsEntry list" where
  "push_phy entry is_mem_phy result =
     (case phy_entries entry 0 False 0 is_mem_phy result of (is_last_phy, begin_phy, result') \<Rightarrow>
        if is_last_phy then result' @ [entry\<lparr>me_start := begin_phy\<rparr>] else result')"

definition parse_entry :: "'s rsenv \<Rightarrow> byte list \<Rightarrow> MapsEntry" where
  "parse_entry E rec =
     \<lparr>me_start = u64_of (get_bytes 0 8 rec), me_end = u64_of (get_bytes 8 8 rec),
      read_permission = (rec ! 16 \<noteq> 0), write_permission = (rec ! 17 \<noteq> 0),
      execute_permission = (rec ! 18 \<noteq> 0), shared = (rec ! 19 \<noteq> 0),
      me_name = from_utf8_lossy E (cstr (get_bytes 20 512 rec))\<rparr>"

fun rs_entries ::
    "'s rsenv \<Rightarrow> int \<Rightarrow> u32 \<Rightarrow> bool \<Rightarrow> byte list \<Rightarrow> nat \<Rightarrow> nat \<Rightarrow> MapsEntry list \<Rightarrow> 's \<Rightarrow> (MapsEntry list, 's) rs" where
  "rs_entries E fd pid phy_only buf pos 0 result s = Some (Inr result, s)"
| "rs_entries E fd pid phy_only buf pos (Suc real_count) result s =
     (if pos + 532 > length buf then Some (Inl MapsParseError, s)
      else
        (let entry = parse_entry E (get_bytes pos 532 buf) in
         if phy_only then
           (case rs_is_mem_phy E fd pid (me_start entry) (me_end entry) s of
              None \<Rightarrow> None
            | Some (Inl e, s') \<Rightarrow> Some (Inl e, s')
            | Some (Inr is_mem_phy, s') \<Rightarrow>
                rs_entries E fd pid phy_only buf (pos + 532) real_count (push_phy entry is_mem_phy result) s')
         else rs_entries E fd pid phy_only buf (pos + 532) real_count (result @ [entry]) s))"

definition rs_get_mem_map_count :: "'s rsenv \<Rightarrow> int \<Rightarrow> u32 \<Rightarrow> 's \<Rightarrow> (u64, 's) rs" where
  "rs_get_mem_map_count E fd pid s =
     (case os_ioctl_val (rs_drv E) fd (request_code_write_int E RWMEM_MAGIC RS_MAPS_COUNT) (scast pid) s of
        None \<Rightarrow> None
      | Some (r, s') \<Rightarrow> Some (map_sum id word_of_int (errno_result E r s'), s'))"

text \<open>\<open>vec!\<close> and \<open>with_capacity\<close> panic above \<open>isize::MAX\<close> bytes; a \<open>MapsEntry\<close> has 48.\<close>

definition rs_get_mem_map :: "'s rsenv \<Rightarrow> int \<Rightarrow> u32 \<Rightarrow> bool \<Rightarrow> 's \<Rightarrow> (MapsEntry list, 's) rs" where
  "rs_get_mem_map E fd pid phy_only s =
     (case rs_get_mem_map_count E fd pid s of
        None \<Rightarrow> None
      | Some (Inl e, s1) \<Rightarrow> Some (Inl e, s1)
      | Some (Inr count, s1) \<Rightarrow>
          (let buf_len = 8 + 532 * (count + 50) in
           if buf_len \<ge> 2 ^ 63 \<or> buf_len < 24 then None
           else
             (let buf = put_bytes 16 (u64_bytes buf_len) (put_bytes 8 (u64_bytes 512)
                    (put_bytes 0 (pid_bytes pid) (replicate (unat buf_len) 0))) in
              case os_ioctl_buf (rs_drv E) fd (request_code_readwrite E RWMEM_MAGIC RS_MAPS_LIST 8) buf s1 of
                None \<Rightarrow> None
              | Some (r, buf', s2) \<Rightarrow>
                  (case errno_result E r s2 of
                     Inl e \<Rightarrow> Some (Inl e, s2)
                   | Inr unfinished \<Rightarrow>
                       if unfinished \<noteq> 0 then Some (Inl MapsTooLong, s2)
                       else
                         (let real_count = unat (u64_of (get_bytes 0 8 buf')) in
                          if real_count * 48 \<ge> 2 ^ 63 then None
                          else rs_entries E fd pid phy_only buf' 8 real_count [] s2)))))"

section \<open>Breakpoints\<close>

datatype BreakpointType = BpRead | BpWrite | BpReadWrite | BpExecute

fun bp_type_code :: "BreakpointType \<Rightarrow> byte" where
  "bp_type_code BpRead = 1"
| "bp_type_code BpWrite = 2"
| "bp_type_code BpReadWrite = 3"
| "bp_type_code BpExecute = 4"

text \<open>The new breakpoint is its descriptor.\<close>

definition rs_add_bp ::
    "'s rsenv \<Rightarrow> int \<Rightarrow> u32 \<Rightarrow> BreakpointType \<Rightarrow> byte \<Rightarrow> u64 \<Rightarrow> 's \<Rightarrow> (int, 's) rs" where
  "rs_add_bp E fd pid bp_type len addr s =
     (let buf = put_bytes 8 (u64_bytes addr) (((put_bytes 0 (u32_bytes pid) (replicate 16 0))
            [4 := bp_type_code bp_type])[5 := len]) in
      case os_ioctl_buf (rs_drv E) fd (request_code_readwrite E RWMEM_MAGIC 3 8) buf s of
        None \<Rightarrow> None
      | Some (r, buf', s') \<Rightarrow> Some (errno_result E r s', s'))"

definition rs_get_num :: "u32 \<Rightarrow> 's rsenv \<Rightarrow> int \<Rightarrow> 's \<Rightarrow> (int, 's) rs" where
  "rs_get_num nr E fd s =
     (case os_ioctl_val (rs_drv E) fd (request_code_none E RWMEM_MAGIC nr) 0 s of
        None \<Rightarrow> None
      | Some (r, s') \<Rightarrow> Some (errno_result E r s', s'))"

definition rs_get_num_brps :: "'s rsenv \<Rightarrow> int \<Rightarrow> 's \<Rightarrow> (int, 's) rs" where
  "rs_get_num_brps = rs_get_num 4"

definition rs_get_num_wrps :: "'s rsenv \<Rightarrow> int \<Rightarrow> 's \<Rightarrow> (int, 's) rs" where
  "rs_get_num_wrps = rs_get_num 5"

section \<open>What the calls do with a driver that keeps its contract\<close>

lemma transfer_ok: "0 \<le> int n \<Longrightarrow> transfer_result E failed n (int n) s = Inr ()"
  by (simp add: transfer_result_def errno_result_def)

context read_driver
begin

lemma rs_read_content:
  assumes "rs_drv E = D" "0 < length buf" "length buf \<noteq> 17" "length buf < 2 ^ 63"
    and flag: "17 < length buf \<Longrightarrow> buf ! 16 \<in> {0, 1}"
    and c: "content s (scast pid) va (length buf) (17 < length buf \<and> buf ! 16 = 1) = Some bs"
  shows "\<exists>s'. rs_read_mem E fd pid va buf s = Some (Inr (), bs, s')"
proof -
  let ?n = "word_of_nat (length buf) :: u64"
  have un: "unat ?n = length buf" by (rule unat_u64_of_nat) (use assms(4) in simp)
  have pos: "0 < ?n" using assms(2) un by (simp add: word_less_nat_alt)
  have lb: "length bs = length buf" by (rule content_length [OF c])
  show ?thesis
  proof (cases "length buf < 17")
    case True
    let ?b = "put_bytes 8 (u64_bytes va) (put_bytes 0 (pid_bytes pid) (replicate 17 0))"
    have h: "take 17 ?b = build_header (scast pid) va False"
      by (simp add: put_bytes_def build_header_def pid_bytes_def)
    obtain s' where "os_read D fd ?b ?n s = (int (length buf), bs @ drop (length buf) ?b, s')"
      using read_content [of s "scast pid" va ?n False bs ?b] c un pos h True by (auto simp: pid_bytes_def)
    with True lb show ?thesis by (simp add: rs_read_mem_def Let_def assms(1) transfer_ok)
  next
    case False
    then have l: "17 < length buf" using assms(3) by simp
    let ?b = "put_bytes 17 [0] (put_bytes 8 (u64_bytes va) (put_bytes 0 (pid_bytes pid) buf))"
    have t17: "take 17 ?b = take 17 (put_bytes 8 (u64_bytes va) (put_bytes 0 (pid_bytes pid) buf))"
      using l by (simp add: put_bytes_def pid_bytes_def)
    have "take (Suc 0) (drop 16 buf) = [buf ! 16]"
      using l by (simp add: take_Suc_conv_app_nth)
    then have h: "take 17 ?b = build_header (scast pid) va (buf ! 16 = 1)"
      using flag [OF l] l unfolding t17 by (auto simp: put_bytes_def pid_bytes_def build_header_def)
    obtain s' where "os_read D fd ?b ?n s = (int (length buf), bs @ drop (length buf) ?b, s')"
      using read_content [of s "scast pid" va ?n "buf ! 16 = 1" bs ?b] c un pos h l assms(4)
      by (auto simp: pid_bytes_def)
    with l lb show ?thesis by (simp add: rs_read_mem_def Let_def assms(1) transfer_ok pid_bytes_def)
  qed
qed

end

context write_driver
begin

lemma rs_write_stores:
  assumes "rs_drv E = D" "0 < length buf" "17 + length buf < 2 ^ 63"
    and "writable s (scast pid) va (length buf) True"
  shows "\<exists>s'. rs_write_mem E fd pid va buf s = (Inr (), s') \<and> stored s (scast pid) va buf s'"
proof -
  let ?n = "word_of_nat (length buf) :: u64"
  have un: "unat ?n = length buf" by (rule unat_u64_of_nat) (use assms(3) in simp)
  have pos: "0 < ?n" using assms(2) un by (simp add: word_less_nat_alt)
  let ?b = "put_bytes 17 buf (put_bytes 16 [1] (put_bytes 8 (u64_bytes va)
      (put_bytes 0 (pid_bytes pid) (replicate (17 + length buf) 0))))"
  have h: "take 17 ?b = build_header (scast pid) va True" "take (length buf) (drop 17 ?b) = buf"
    "length ?b = 17 + length buf"
    by (simp_all add: put_bytes_def build_header_def pid_bytes_def)
  obtain s' where "os_write D fd ?b ?n s = (int (length buf), s')" "stored s (scast pid) va buf s'"
    using write_stores [of s "scast pid" va ?n True ?b] assms(3,4) un pos h by auto
  then show ?thesis by (simp add: rs_write_mem_def Let_def assms(1) transfer_ok)
qed

end

lemma hpp_check_request: "nix_ok E \<Longrightarrow> request_code_readwrite E RWMEM_MAGIC RS_CHECK_PHY 8 = HPP_CHECK_PHY"
  by (simp add: nix_ok_def RWMEM_MAGIC_def RS_CHECK_PHY_def HPP_CHECK_PHY_def)

text \<open>The page offset is all zero in a page's address.\<close>

lemma page_mask: "(0xfff :: u64) = PAGE_SIZE - 1" by (simp add: PAGE_SIZE_def)

context residency_driver
begin

lemma rs_is_mem_phy_bits:
  assumes E: "rs_drv E = D" "nix_ok E"
    and res: "residents s (scast pid) a b = Some f" and N: "N = unat ((b - a) div PAGE_SIZE)"
  shows "\<exists>s'. rs_is_mem_phy E fd pid a b s = Some (Inr (map f [0..<N]), s') \<and> residents s' = residents s"
proof -
  from residents_aligned [OF res] have al: "a AND (PAGE_SIZE - 1) = 0" "b AND (PAGE_SIZE - 1) = 0" "a < b"
    and N31: "N < 2 ^ 31" by (simp_all add: N)
  note pc = page_count [OF al, folded N]
  have d: "drop_bit 12 b - drop_bit 12 a = (word_of_nat N :: u64)"
  proof (rule word_unat_eq_iff [THEN iffD2])
    have "unat (drop_bit 12 b) = unat (drop_bit 12 a) + N"
      using pc(1) by (simp add: drop_bit_eq_div unat_div_distrib)
    then show "unat (drop_bit 12 b - drop_bit 12 a) = unat (word_of_nat N :: u64)"
      using N31 by (simp add: unat_sub_if' unat_u64_of_nat)
  qed
  have uN: "unat (word_of_nat N :: u64) = N" "unat (word_of_nat N + 7 :: u64) = N + 7"
    using N31 unat_u64_of_nat [of N] unat_add_of_nat [of "word_of_nat N" 7] by simp_all
  define L where "L = unat (max 24 ((word_of_nat N + 7) div 8 :: u64))"
  have Lm: "L = max 24 ((N + 7) div 8)"
    by (simp add: L_def max_def word_le_nat_alt unat_div_distrib uN)
  have "(N + 7) div 8 < 2 ^ 63" using N31 by simp
  then have L: "24 \<le> L" "(N + 7) div 8 \<le> L" "L < 2 ^ 63" by (simp_all add: Lm)
  define buf where "buf = put_bytes 16 (u64_bytes b) (put_bytes 8 (u64_bytes a)
    (put_bytes 0 (pid_bytes pid) (replicate L 0)))"
  have bl: "length buf = L" using L by (simp add: buf_def pid_bytes_def)
  have b24: "take 24 buf = u64_bytes (scast pid) @ u64_bytes a @ u64_bytes b"
    using L by (simp add: buf_def put_bytes_def pid_bytes_def)
  let ?out = "put_bytes 0 (bitmap f ((N + 7) div 8)) buf"
  from residents_answer [OF res, of buf] L bl b24 obtain s' where
    io: "os_ioctl_buf D fd HPP_CHECK_PHY buf s = Some (int N, ?out, s')" "residents s' = residents s"
    unfolding N by auto
  have lo: "length ?out = L" using L bl by simp
  have "bits_of N ?out = map f [0..<N]"
  proof (rule nth_equalityI)
    have "N \<le> 8 * ((N + 7) div 8)" by linarith
    then have "N \<le> 8 * length ?out" using L by (simp add: lo)
    then show l: "length (bits_of N ?out) = length (map f [0..<N])" by (simp add: bits_of_def)
    fix k assume "k < length (bits_of N ?out)"
    then have k: "k < N" using l by simp
    then have "k div 8 < (N + 7) div 8" by linarith
    then have "?out ! (k div 8) = bitmap f ((N + 7) div 8) ! (k div 8)"
      by (simp add: put_bytes_def nth_append)
    with k \<open>N \<le> 8 * length ?out\<close> \<open>k div 8 < _\<close> bitmap_bit [of k "(N + 7) div 8" f]
    show "bits_of N ?out ! k = map f [0..<N] ! k" by (simp add: bits_of_def)
  qed
  then have "rs_is_mem_phy E fd pid a b s = Some (Inr (map f [0..<N]), s')"
    using al io(1) N31
    unfolding rs_is_mem_phy_def page_mask d uN Let_def hpp_check_request [OF E(2)] E(1)
      L_def [symmetric] buf_def [symmetric]
    by (simp add: errno_result_def)
  with io(2) show ?thesis by blast
qed

end

section \<open>The pages of a mapping\<close>

text \<open>The entry of one run of resident pages.\<close>

definition run_entry :: "MapsEntry \<Rightarrow> nat \<times> nat \<Rightarrow> MapsEntry" where
  "run_entry entry ab = entry\<lparr>me_start := me_start entry + word_of_nat (fst ab) * 0x1000,
     me_end := me_start entry + word_of_nat (snd ab) * 0x1000\<rparr>"

lemma phy_entries_runs:
  assumes "case st of None \<Rightarrow> \<not> lst | Some k \<Rightarrow> lst \<and> b = me_start entry + word_of_nat k * 0x1000"
    and "me_end entry = me_start entry + word_of_nat (i + length bits) * 0x1000"
  shows "case phy_entries entry i lst b bits result of (lst', b', result') \<Rightarrow>
    (if lst' then result' @ [entry\<lparr>me_start := b'\<rparr>] else result') =
      result @ map (run_entry entry) (runs_from i st bits)"
  using assms
proof (induction bits arbitrary: i lst b st result)
  case Nil
  then show ?case by (cases st) (auto simp: run_entry_def)
next
  case (Cons x bits)
  have e: "me_end entry = me_start entry + word_of_nat (i + 1 + length bits) * 0x1000"
    using Cons.prems(2) by (simp add: algebra_simps)
  show ?case
  proof (cases st)
    case None
    with Cons.prems(1) Cons.IH [OF _ e, where st = "if x then Some i else None" and lst = x
        and b = "if x then me_start entry + word_of_nat i * 0x1000 else b"] show ?thesis by (cases x) simp_all
  next
    case (Some k)
    with Cons.prems(1) Cons.IH [OF _ e, where st = "if x then Some k else None" and lst = x and b = b
        and result = "if x then result else result @ [run_entry entry (k, i)]"] show ?thesis
      by (cases x) (simp_all add: run_entry_def split del: if_split cong: if_cong split: prod.splits)
  qed
qed

lemma push_phy_runs:
  assumes "me_end entry = me_start entry + word_of_nat (length bits) * 0x1000"
  shows "push_phy entry bits result = result @ map (run_entry entry) (runs bits)"
  using phy_entries_runs [where st = None and lst = False and b = 0 and entry = entry and i = 0
      and bits = bits and result = result] assms
  by (auto simp: push_phy_def runs_def split: prod.splits)

section \<open>The driver's records\<close>

definition vma_entry :: "'s rsenv \<Rightarrow> kenv \<Rightarrow> mm \<Rightarrow> vma \<Rightarrow> MapsEntry" where
  "vma_entry E K m v =
     \<lparr>me_start = vm_start v, me_end = vm_end v,
      read_permission = (vm_flags v AND VM_READ \<noteq> 0), write_permission = (vm_flags v AND VM_WRITE \<noteq> 0),
      execute_permission = (vm_flags v AND VM_EXEC \<noteq> 0), shared = (vm_flags v AND VM_MAYSHARE \<noteq> 0),
      me_name = from_utf8_lossy E (the (maps_name K m v))\<rparr>"

lemma parse_kernel_entry:
  assumes "maps_name K m v = Some name"
  shows "parse_entry E (vma_record K m 512 v) = vma_entry E K m v"
proof -
  have l: "length name < 512" using maps_name_length [OF assms] by (simp add: MY_PATH_MAX_LEN_def)
  then have z: "512 - length name = Suc (511 - length name)" by simp
  have "get_bytes 20 512 (vma_record K m 512 v) = name @ 0 # drop (Suc (length name)) (get_bytes 20 512 (vma_record K m 512 v))"
  proof -
    have "get_bytes 20 512 (vma_record K m 512 v) =
        take 511 (name @ replicate (512 - length name) 0) @ [0]"
      using l by (simp add: vma_record_def get_bytes_def assms MY_PATH_MAX_LEN_def)
    also have "\<dots> = name @ replicate (512 - length name) 0"
      unfolding z replicate_Suc replicate_append_same [symmetric] using l by simp
    finally show ?thesis unfolding z by simp
  qed
  then have nm: "cstr (get_bytes 20 512 (vma_record K m 512 v)) = name"
    using cstr_append_nul [OF maps_name_no_nul [OF assms]] by metis
  have f: "vma_record K m 512 v ! (16 + i) = maps_flags v ! i" if "i < 4" for i
    using that by (simp add: vma_record_def nth_append)
  have g: "get_bytes 0 8 (vma_record K m 512 v) = u64_bytes (vm_start v)"
    "get_bytes 8 8 (vma_record K m 512 v) = u64_bytes (vm_end v)"
    by (simp_all add: vma_record_def get_bytes_def)
  show ?thesis
    using f [of 0] f [of 1] f [of 2] f [of 3]
    by (simp add: parse_entry_def g nm vma_entry_def assms maps_flags_def flag_byte_def)
qed

text \<open>What the list gives for one mapping.\<close>

definition listed :: "'s rsenv \<Rightarrow> bool \<Rightarrow> kenv \<Rightarrow> mm \<Rightarrow> (nat \<Rightarrow> bool) \<Rightarrow> vma \<Rightarrow> MapsEntry list" where
  "listed E phy_only K m f v =
     (if phy_only then map (run_entry (vma_entry E K m v))
        (runs (map f [0..<unat ((vm_end v - vm_start v) div PAGE_SIZE)]))
      else [vma_entry E K m v])"

context residency_driver
begin

lemma rs_entries_records:
  assumes E: "rs_drv E = D" "nix_ok E"
    and "\<forall>v \<in> set vs. maps_name K m v \<noteq> None"
    and "phy_only \<Longrightarrow> \<forall>v \<in> set vs. residents s (scast pid) (vm_start v) (vm_end v) = Some (f v)"
  shows "\<exists>s'. rs_entries E fd pid phy_only (pre @ concat (map (vma_record K m 512) vs) @ post)
    (length pre) (length vs) result s =
    Some (Inr (result @ concat (map (\<lambda>v. listed E phy_only K m (f v) v) vs)), s')"
  using assms(3,4)
proof (induction vs arbitrary: pre result s)
  case (Cons v vs)
  let ?r = "vma_record K m 512 v"
  from Cons.prems(1) obtain name where nm: "maps_name K m v = Some name" by auto
  have lr: "length ?r = 532" using length_vma_record [of K m v 512] nm by (simp add: MY_PATH_MAX_LEN_def)
  let ?buf = "pre @ concat (map (vma_record K m 512) (v # vs)) @ post"
  have buf: "?buf = (pre @ ?r) @ concat (map (vma_record K m 512) vs) @ post" by simp
  have "get_bytes (length pre) 532 ?buf = ?r" using lr by (simp add: get_bytes_def)
  then have en: "parse_entry E (get_bytes (length pre) 532 ?buf) = vma_entry E K m v"
    by (simp add: parse_kernel_entry [OF nm])
  have fits: "\<not> length pre + 532 > length ?buf" using lr by simp
  have go: "\<exists>s'. rs_entries E fd pid phy_only ?buf (length pre + 532) (length vs) (result @ listed E phy_only K m (f v) v) s1 =
      Some (Inr (result @ concat (map (\<lambda>v. listed E phy_only K m (f v) v) (v # vs))), s')"
    if "phy_only \<Longrightarrow> residents s1 = residents s" for s1
    using Cons.IH [of s1 "pre @ ?r" "result @ listed E phy_only K m (f v) v"] Cons.prems that lr
    unfolding buf by auto
  show ?case
  proof (cases phy_only)
    case False
    with go [of s] en fits show ?thesis by (simp add: listed_def Let_def)
  next
    case True
    let ?N = "unat ((vm_end v - vm_start v) div PAGE_SIZE)"
    have res: "residents s (scast pid) (vm_start v) (vm_end v) = Some (f v)" using Cons.prems(2) True by simp
    from rs_is_mem_phy_bits [OF E res refl] obtain s1 where
      ph: "rs_is_mem_phy E fd pid (vm_start v) (vm_end v) s = Some (Inr (map (f v) [0..<?N]), s1)"
      "residents s1 = residents s" by blast
    from residents_aligned [OF res] page_count(4) [of "vm_start v" "vm_end v"]
    have ve: "vm_end v = vm_start v + word_of_nat ?N * 0x1000" by (simp add: mult.commute)
    have "push_phy (vma_entry E K m v) (map (f v) [0..<?N]) result = result @ listed E True K m (f v) v"
      unfolding listed_def if_True by (rule push_phy_runs) (use ve in \<open>simp add: vma_entry_def\<close>)
    with go [OF ph(2)] True en fits ph(1) show ?thesis by (simp add: Let_def vma_entry_def)
  qed
qed simp

end

section \<open>Properties over the driver's model\<close>

text \<open>C34. A read through the Rust library fills the caller's buffer with the target's bytes, for
  every length but 17. It is forced when the caller's buffer happens to hold a 1 at offset 16: the
  library means to clear that byte and clears the next one. A buffer of 17 bytes makes it panic.\<close>

theorem rs_reads_target:
  assumes "0 < length buf" "length buf < 2 ^ 63" "17 < length buf \<Longrightarrow> buf ! 16 \<in> {0, 1}"
    and "kernel_content K w (scast pid) va (length buf) (17 < length buf \<and> buf ! 16 = 1) = Some bs"
    and "rs_drv E = kernel_drv u K"
  shows "if length buf = 17 then rs_read_mem E fd pid va buf w = None
    else \<exists>w'. rs_read_mem E fd pid va buf w = Some (Inr (), bs, w')"
proof (cases "length buf = 17")
  case True
  then show ?thesis by (simp add: rs_read_mem_def)
next
  case False
  then show ?thesis using kr.rs_read_content [OF assms(5,1) False assms(2,3,4)] by simp
qed

text \<open>A write through the Rust library, which is always forced, puts the caller's bytes at the
  places the target's range translates to, and changes nothing else.\<close>

theorem rs_writes_target:
  assumes "0 < length buf" "17 + length buf < 2 ^ 63"
    and "kernel_writable K w (scast pid) va (length buf) True" "rs_drv E = kernel_drv u K"
  shows "\<exists>w'. rs_write_mem E fd pid va buf w = (Inr (), w') \<and> kernel_stored K w (scast pid) va buf w'"
  by (rule kw.rs_write_stores [OF assms(4,1,2,3)])

text \<open>The Rust library's reading of the driver's records gives each mapping's bounds,
  permissions and name, and with the filter the maximal runs of its resident pages, as the
  driver's own residency command reports them.\<close>

theorem rs_lists_mappings:
  assumes "rs_drv E = kernel_drv u K" "nix_ok E"
    and "\<forall>v \<in> set vs. maps_name (b_k K) m v \<noteq> None"
    and "phy_only \<Longrightarrow> \<forall>v \<in> set vs. kernel_residents K w (scast pid) (vm_start v) (vm_end v) = Some (f v)"
  shows "\<exists>w'. rs_entries E fd pid phy_only (pre @ concat (map (vma_record (b_k K) m 512) vs) @ post)
    (length pre) (length vs) [] w =
    Some (Inr (concat (map (\<lambda>v. listed E phy_only (b_k K) m (f v) v) vs)), w')"
  using krs.rs_entries_records [OF assms, where fd = fd and pre = pre and post = post and result = "[]"]
  by simp

text \<open>But the Rust library cannot ask for them: the request code of its count command carries the
  size of an int, the driver's that of a size_t, so the list of mappings of every process is the
  error of a refused command.\<close>

theorem rs_list_rejected:
  assumes "rs_drv E = kernel_drv u K" "nix_ok E"
  shows "rs_get_mem_map E fd pid phy_only w = Some (Inl (Errno (rs_errno E w)), w)"
proof -
  have "rwmem_ioctl K (IOW 100 0 4) (scast pid) w = Some (- EINVAL, w)"
    by (simp add: rwmem_ioctl_def rwmem_cmd_values ioc_defs push_bit_eq_mult)
  with assms have "rs_get_mem_map_count E fd pid w = Some (Inl (Errno (rs_errno E w)), w)"
    by (simp add: rs_get_mem_map_count_def nix_ok_def RWMEM_MAGIC_def RS_MAPS_COUNT_def
        kernel_drv_def ioctl_ret_def EINVAL_def errno_result_def)
  then show ?thesis by (simp add: rs_get_mem_map_def)
qed

section \<open>Samples\<close>

definition demo_rsenv :: "bpw rsenv" where
  "demo_rsenv = \<lparr>rs_drv = kernel_drv 0x1000 (demo_ioenv (Inr 0)), rs_errno = (\<lambda>_. EINVAL),
     request_code_readwrite = (\<lambda>g n len. IOWR g n (word_of_nat len)), request_code_none = IOC_IO,
     request_code_write_int = (\<lambda>g n. IOW g n 4), request_code_write_ptr = (\<lambda>g n len. IOW g n (word_of_nat len)),
     from_utf8_lossy = map (\<lambda>b. char_of (unat b)),
     all_regs_layout = (0, 272)\<rparr>"

lemma demo_rsenv_ok [simp]:
  "nix_ok demo_rsenv" "rs_drv demo_rsenv = kernel_drv 0x1000 (demo_ioenv (Inr 0))"
  "rs_errno demo_rsenv w = EINVAL"
  by (simp_all add: nix_ok_def demo_rsenv_def)

lemma length_four: "length [a, b, c, d] = 4" by simp

theorem rs_reads_target_witness:
  "\<exists>w'. rs_read_mem demo_rsenv 3 7 0x10ffe [0, 0, 0, 0] demo_bp0 = Some (Inr (), [0xfe, 0xff, 0, 1], w')"
proof -
  have "kernel_content (demo_ioenv (Inr 0)) demo_bp0 (scast (7::u32)) 0x10ffe (length [0::byte, 0, 0, 0])
      (17 < length [0::byte, 0, 0, 0] \<and> [0::byte, 0, 0, 0] ! 16 = 1) = Some [0xfe, 0xff, 0, 1]"
    unfolding length_four using demo_content by simp
  from rs_reads_target [OF _ _ _ this demo_rsenv_ok(2), of 3] show ?thesis by simp
qed

theorem rs_writes_target_witness:
  "\<exists>w'. rs_write_mem demo_rsenv 3 7 0x10ffe [1, 2, 3, 4] demo_bp0 = (Inr (), w') \<and>
    kernel_stored (demo_ioenv (Inr 0)) demo_bp0 7 0x10ffe [1, 2, 3, 4] w'"
proof -
  have "kernel_writable (demo_ioenv (Inr 0)) demo_bp0 (scast (7::u32)) 0x10ffe (length [1::byte, 2, 3, 4]) True"
    unfolding length_four using demo_writable by (auto simp: kernel_writable_def split: option.splits)
  from rs_writes_target [OF _ _ this demo_rsenv_ok(2), of 3] show ?thesis by simp
qed

theorem rs_lists_mappings_witness:
  "\<exists>w' es. rs_entries demo_rsenv 3 7 True
      (replicate 8 0 @ concat (map (vma_record demo_env demo_mm 512) demo_vmas) @ []) 8 2 [] demo_bp0 =
    Some (Inr es, w') \<and> map me_start es = [0x10000, 0x20000] \<and> map me_end es = [0x12000, 0x21000]"
proof -
  let ?K = "demo_ioenv (Inr 0)"
  let ?f = "\<lambda>v k. k < unat ((vm_end v - vm_start v) div PAGE_SIZE) \<and>
    resident demo_env 5 (bk demo_bp0) (vm_start v + word_of_nat (4096 * k))"
  let ?es = "concat (map (\<lambda>v. listed demo_rsenv True demo_env demo_mm (?f v) v) demo_vmas)"
  have "\<forall>v \<in> set demo_vmas. maps_name (b_k ?K) demo_mm v \<noteq> None"
    by (simp add: demo_ioenv_sel demo_vmas_def demo_mm_def maps_name_def)
  moreover have "\<forall>v \<in> set demo_vmas. kernel_residents ?K demo_bp0 (scast (7::u32)) (vm_start v) (vm_end v) = Some (?f v)"
    by (simp add: demo_ioenv_sel demo_vmas_def kernel_residents_def demo_copy_ok PAGE_SIZE_def)
  ultimately have w: "\<exists>w'. rs_entries demo_rsenv 3 7 True
      (replicate 8 0 @ concat (map (vma_record (b_k ?K) demo_mm 512) demo_vmas) @ [])
      (length (replicate 8 (0::byte))) (length demo_vmas) [] demo_bp0 =
    Some (Inr (concat (map (\<lambda>v. listed demo_rsenv True (b_k ?K) demo_mm (?f v) v) demo_vmas)), w')"
    by (rule rs_lists_mappings [OF demo_rsenv_ok(2,1)])
  have l: "length demo_vmas = 2" "b_k ?K = demo_env" by (simp_all add: demo_vmas_def demo_ioenv_sel)
  have "map me_start ?es = [0x10000, 0x20000]" "map me_end ?es = [0x12000, 0x21000]"
    by (simp_all add: demo_vmas_def PAGE_SIZE_def upt_rec runs_def demo_page_resident listed_def run_entry_def
        vma_entry_def)
  with w [unfolded l length_replicate] show ?thesis by (elim exE) (intro exI conjI)
qed

theorem rs_list_rejected_witness:
  "rs_get_mem_map demo_rsenv 3 7 True demo_bp0 = Some (Inl (Errno EINVAL), demo_bp0)"
  using rs_list_rejected [OF demo_rsenv_ok(2,1), of 3 7 True demo_bp0] by simp

end
