(* ===== verification/Rs_Breakpoint.thy ===== *)
theory Rs_Breakpoint
  imports Rs_Device
begin

text \<open>
  The Rust library's breakpoints (\<^verbatim>\<open>librwmem/src/lib.rs\<close>, \<open>impl Breakpoint\<close>, \<open>BreakpointType\<close>): a
  descriptor on which registers are read and set and the target is resumed or stepped. The locale
  \<open>stopped_breakpoint\<close> is what the library needs of such a descriptor; it is interpreted on
  \<open>kernel_files\<close>, the driver's breakpoint files behind the process's descriptors.
\<close>

section \<open>Types\<close>

definition RWMEM_BP_MAGIC :: u32 where "RWMEM_BP_MAGIC = 101"

record Regs =
  rg_regs :: "u64 list"
  rg_sp :: u64
  rg_pc :: u64
  rg_pstate :: u64

record SimdRegs =
  sr_regs :: "u128 list"
  sr_fpsr :: u32
  sr_fpcr :: u32

text \<open>The transmutes of 272 and 528 bytes.\<close>

definition Regs_of :: "byte list \<Rightarrow> Regs" where
  "Regs_of buf = \<lparr>rg_regs = map (\<lambda>i. u64_of (get_bytes (8 * i) 8 buf)) [0..<31],
     rg_sp = u64_of (get_bytes 248 8 buf), rg_pc = u64_of (get_bytes 256 8 buf),
     rg_pstate = u64_of (get_bytes 264 8 buf)\<rparr>"

definition SimdRegs_of :: "byte list \<Rightarrow> SimdRegs" where
  "SimdRegs_of buf = \<lparr>sr_regs = map (\<lambda>i. word_of_nat (le_nat (get_bytes (16 * i) 16 buf))) [0..<32],
     sr_fpsr = u32_of (get_bytes 512 4 buf), sr_fpcr = u32_of (get_bytes 516 4 buf)\<rparr>"

text \<open>\<open>to_lowercase\<close> on the letters of the accepted words.\<close>

definition lower :: "char \<Rightarrow> char" where
  "lower c = (if 65 \<le> (of_char c :: nat) \<and> (of_char c :: nat) \<le> 90 then char_of (of_char c + 32 :: nat) else c)"

definition BreakpointType_from_str :: "string \<Rightarrow> rs_error + BreakpointType" where
  "BreakpointType_from_str s =
     (let l = map lower s in
      if l = ''r'' then Inr BpRead
      else if l = ''w'' then Inr BpWrite
      else if l = ''rw'' then Inr BpReadWrite
      else if l = ''x'' then Inr BpExecute
      else if l = ''read'' then Inr BpRead
      else if l = ''write'' then Inr BpWrite
      else if l = ''readwrite'' then Inr BpReadWrite
      else if l = ''read_write'' then Inr BpReadWrite
      else if l = ''execute'' then Inr BpExecute
      else Inl (InvalidBreakpointType s))"

section \<open>The operations\<close>

text \<open>A command without an argument.\<close>

definition bp_call :: "u32 \<Rightarrow> 's rsenv \<Rightarrow> int \<Rightarrow> 's \<Rightarrow> (int, 's) rs" where
  "bp_call nr E fd s =
     (case os_ioctl_val (rs_drv E) fd (request_code_none E RWMEM_BP_MAGIC nr) 0 s of
        None \<Rightarrow> None
      | Some (r, s') \<Rightarrow> Some (errno_result E r s', s'))"

definition rs_cont :: "'s rsenv \<Rightarrow> int \<Rightarrow> 's \<Rightarrow> (int, 's) rs" where "rs_cont = bp_call 0"

definition rs_step :: "'s rsenv \<Rightarrow> int \<Rightarrow> 's \<Rightarrow> (int, 's) rs" where "rs_step = bp_call 3"

definition rs_is_stopped :: "'s rsenv \<Rightarrow> int \<Rightarrow> 's \<Rightarrow> (bool, 's) rs" where
  "rs_is_stopped E fd s =
     (case bp_call 4 E fd s of None \<Rightarrow> None | Some (r, s') \<Rightarrow> Some (map_sum id (\<lambda>n. n \<noteq> 0) r, s'))"

text \<open>A command with a pointer to \<open>param\<close>.\<close>

definition bp_write_call :: "u32 \<Rightarrow> nat \<Rightarrow> 's rsenv \<Rightarrow> int \<Rightarrow> byte list \<Rightarrow> 's \<Rightarrow> (unit, 's) rs" where
  "bp_write_call nr len E fd param s =
     (case os_ioctl_buf (rs_drv E) fd (request_code_write_ptr E RWMEM_BP_MAGIC nr len) param s of
        None \<Rightarrow> None
      | Some (r, _, s') \<Rightarrow> Some (map_sum id (\<lambda>_. ()) (errno_result E r s'), s'))"

definition rs_set_reg :: "'s rsenv \<Rightarrow> int \<Rightarrow> byte \<Rightarrow> u64 \<Rightarrow> 's \<Rightarrow> (unit, 's) rs" where
  "rs_set_reg E fd reg value s =
     (if reg \<ge> 34 then Some (Inl (InvalidRegister (ucast reg)), s)
      else bp_write_call 1 16 E fd (u64_bytes (ucast reg) @ u64_bytes value) s)"

text \<open>The struct is aligned to its \<open>u128\<close>: eight bytes of padding with whatever they hold.\<close>

definition rs_set_simd_reg :: "'s rsenv \<Rightarrow> int \<Rightarrow> byte \<Rightarrow> u128 \<Rightarrow> 's \<Rightarrow> (unit, 's) rs" where
  "rs_set_simd_reg E fd reg value s =
     (if reg \<ge> 34 then Some (Inl (InvalidRegister (ucast reg)), s)
      else bp_write_call 2 32 E fd
        (u64_bytes (ucast reg) @ os_new (rs_drv E) 8 @ le_bytes 16 (unat value)) s)"

definition rs_get_regs :: "'s rsenv \<Rightarrow> int \<Rightarrow> 's \<Rightarrow> (rs_error + Regs) \<times> 's" where
  "rs_get_regs E fd s =
     (case os_read (rs_drv E) fd (replicate 272 0) 272 s of (r, buf, s') \<Rightarrow>
      (map_sum id (\<lambda>_. Regs_of buf) (errno_result E r s'), s'))"

definition rs_get_regs_with_simd :: "'s rsenv \<Rightarrow> int \<Rightarrow> 's \<Rightarrow> (rs_error + (Regs \<times> SimdRegs)) \<times> 's" where
  "rs_get_regs_with_simd E fd s =
     (case os_read (rs_drv E) fd (replicate 800 0) 800 s of (r, buf, s') \<Rightarrow>
      (map_sum id (\<lambda>_. (Regs_of (drop (fst (all_regs_layout E)) buf), SimdRegs_of (drop (snd (all_regs_layout E)) buf)))
        (errno_result E r s'), s'))"

section \<open>A descriptor of a stopped breakpoint\<close>

text \<open>The contract: \<open>target\<close> is the stopped target's registers, the 34 words of \<open>user_regs\<close>, the
  vectors and the two control words.\<close>

type_synonym all_regs = "u64 list \<times> u128 list \<times> u32 \<times> u32"

definition all_bytes :: "all_regs \<Rightarrow> byte list" where
  "all_bytes T = (case T of (rs, vs, sr, cr) \<Rightarrow>
     concat (map u64_bytes rs) @ concat (map (\<lambda>v. le_bytes 16 (unat v)) vs) @ u32_bytes sr @ u32_bytes cr @ replicate 8 0)"

definition set_simd :: "u64 \<Rightarrow> u128 \<Rightarrow> all_regs \<Rightarrow> all_regs" where
  "set_simd r v T = (case T of (rs, vs, sr, cr) \<Rightarrow>
     if r < 32 then (rs, vs[unat r := v], sr, cr)
     else if r = 32 then (rs, vs, ucast v, cr) else (rs, vs, sr, ucast v))"

locale stopped_breakpoint =
  fixes D :: "'s drv" and fd :: int
    and target :: "'s \<Rightarrow> all_regs option"
  assumes target_shape: "target s = Some (rs, vs, sr, cr) \<Longrightarrow> length rs = 34 \<and> length vs = 32"
    and read_target: "target s = Some T \<Longrightarrow> length buf \<in> {272, 800} \<Longrightarrow>
      \<exists>n s'. os_read D fd buf (word_of_nat (length buf)) s = (int n, take (length buf) (all_bytes T), s') \<and>
        target s' = Some T"
    and set_target: "target s = Some (rs, vs, sr, cr) \<Longrightarrow> r < 34 \<Longrightarrow>
      \<exists>buf s'. os_ioctl_buf D fd IOCTL_BP_SET_REG (u64_bytes r @ u64_bytes v) s = Some (0, buf, s') \<and>
        target s' = Some (rs[unat r := v], vs, sr, cr)"
    and set_simd_target: "target s = Some T \<Longrightarrow> r < 34 \<Longrightarrow> length pad = 8 \<Longrightarrow>
      \<exists>buf s'. os_ioctl_buf D fd IOCTL_BP_SET_SIMD_REG (u64_bytes r @ pad @ le_bytes 16 (unat x)) s =
        Some (0, buf, s') \<and> target s' = Some (set_simd r x T)"

text \<open>The library's view of the registers.\<close>

definition regs_view :: "all_regs \<Rightarrow> Regs" where
  "regs_view T = (case T of (rs, _) \<Rightarrow>
     \<lparr>rg_regs = take 31 rs, rg_sp = rs ! 31, rg_pc = rs ! 32, rg_pstate = rs ! 33\<rparr>)"

definition simd_view :: "all_regs \<Rightarrow> SimdRegs" where
  "simd_view T = (case T of (_, vs, sr, cr) \<Rightarrow> \<lparr>sr_regs = vs, sr_fpsr = sr, sr_fpcr = cr\<rparr>)"

lemma get_concat:
  assumes "\<forall>x \<in> set xs. length (g x) = k" "i < length xs"
  shows "get_bytes (k * i) k (concat (map g xs) @ ys) = g (xs ! i)"
  using assms
proof (induction xs arbitrary: i)
  case (Cons x xs)
  show ?case
  proof (cases i)
    case 0
    with Cons.prems show ?thesis by (simp add: get_bytes_def)
  next
    case (Suc j)
    have "get_bytes (k * i) k (concat (map g (x # xs)) @ ys) = get_bytes (k * j) k (concat (map g xs) @ ys)"
      using Cons.prems(1) Suc by (simp add: get_bytes_def)
    then show ?thesis using Cons.IH [of j] Cons.prems Suc by simp
  qed
qed simp

lemma u128_of_bytes: "word_of_nat (le_nat (le_bytes 16 (unat v))) = (v :: u128)"
proof -
  have "unat v mod 256 ^ 16 = unat v" using unat_bound [of v] by simp
  then show ?thesis by (simp only: le_nat_le_bytes) simp
qed

lemma length_concat_u128: "length (concat (map (\<lambda>v. le_bytes 16 (unat v)) l)) = 16 * length l"
  by (induction l) simp_all

lemma unat_byte_u64 [simp]: "unat (ucast (b :: byte) :: u64) = unat b"
proof -
  have "unat b < 2 ^ 64" using unat_bound [of b] by simp
  then show ?thesis by (simp add: unsigned_ucast_eq take_bit_nat_eq_self)
qed

lemma Regs_of_view:
  assumes "length rs = 34"
  shows "Regs_of (concat (map u64_bytes rs) @ ys) = regs_view (rs, rest)"
proof -
  have g: "u64_of (get_bytes (8 * i) 8 (concat (map u64_bytes rs) @ ys)) = rs ! i" if "i < 34" for i
    using get_concat [of rs u64_bytes 8 i ys] assms that by simp
  have "map (\<lambda>i. u64_of (get_bytes (8 * i) 8 (concat (map u64_bytes rs) @ ys))) [0..<31] = take 31 rs"
    using assms by (intro nth_equalityI) (simp_all add: g)
  with g [of 31] g [of 32] g [of 33] show ?thesis by (simp add: Regs_of_def regs_view_def)
qed

lemma SimdRegs_of_view:
  assumes "length vs = 32"
  shows "SimdRegs_of (concat (map (\<lambda>v. le_bytes 16 (unat v)) vs) @ u32_bytes sr @ u32_bytes cr @ ys) =
    simd_view (rs, vs, sr, cr)"
proof -
  let ?b = "concat (map (\<lambda>v. le_bytes 16 (unat v)) vs)"
  let ?buf = "?b @ u32_bytes sr @ u32_bytes cr @ ys"
  have l: "length ?b = 512" using assms by (simp only: length_concat_u128)
  have g: "word_of_nat (le_nat (get_bytes (16 * i) 16 ?buf)) = vs ! i" if "i < 32" for i
    using get_concat [of vs "\<lambda>v. le_bytes 16 (unat v)" 16 i "u32_bytes sr @ u32_bytes cr @ ys"] assms that
    by (simp add: u128_of_bytes)
  have "map (\<lambda>i. word_of_nat (le_nat (get_bytes (16 * i) 16 ?buf))) [0..<32] = vs"
    using assms by (intro nth_equalityI) (simp_all add: g)
  moreover have "get_bytes 512 4 ?buf = u32_bytes sr" "get_bytes 516 4 ?buf = u32_bytes cr"
    using l by (simp_all add: get_bytes_def)
  ultimately show ?thesis by (simp add: SimdRegs_of_def simd_view_def)
qed

context stopped_breakpoint
begin

lemma rs_get_regs_target:
  assumes "rs_drv E = D" "target s = Some T"
  shows "\<exists>s'. rs_get_regs E fd s = (Inr (regs_view T), s') \<and> target s' = Some T"
proof -
  obtain rs vs sr cr where T: "T = (rs, vs, sr, cr)" by (cases T) auto
  have l: "length rs = 34" using target_shape assms(2) T by blast
  obtain n s' where r: "os_read D fd (replicate 272 0) (word_of_nat 272) s = (int n, take 272 (all_bytes T), s')"
    "target s' = Some T" using read_target [OF assms(2), of "replicate 272 0"] by auto
  have "take 272 (all_bytes T) = concat (map u64_bytes rs) @ []"
    using l length_concat_u64 [of rs] by (simp add: all_bytes_def T)
  then have "Regs_of (take 272 (all_bytes T)) = regs_view T" using Regs_of_view [OF l] T by metis
  with r show ?thesis by (simp add: rs_get_regs_def assms(1) errno_result_def)
qed

lemma rs_get_all_target:
  assumes "rs_drv E = D" "all_regs_layout E = (0, 272)" "target s = Some T"
  shows "\<exists>s'. rs_get_regs_with_simd E fd s = (Inr (regs_view T, simd_view T), s') \<and> target s' = Some T"
proof -
  obtain rs vs sr cr where T: "T = (rs, vs, sr, cr)" by (cases T) auto
  have l: "length rs = 34" "length vs = 32" using target_shape assms(3) T by blast+
  obtain n s' where r: "os_read D fd (replicate 800 0) (word_of_nat 800) s = (int n, take 800 (all_bytes T), s')"
    "target s' = Some T" using read_target [OF assms(3), of "replicate 800 0"] by auto
  have len: "length (concat (map u64_bytes rs)) = 272"
    "length (concat (map (\<lambda>v. le_bytes 16 (unat v)) vs)) = 512"
    using l by (simp_all only: length_concat_u64 length_concat_u128)
  then have "take 800 (all_bytes T) = all_bytes T" by (simp add: all_bytes_def T)
  moreover have "drop 272 (all_bytes T) = concat (map (\<lambda>v. le_bytes 16 (unat v)) vs) @ u32_bytes sr @
      u32_bytes cr @ replicate 8 0" using len by (simp add: all_bytes_def T)
  moreover have "Regs_of (all_bytes T) = regs_view T"
    using Regs_of_view [OF l(1)] by (simp add: all_bytes_def T)
  ultimately show ?thesis
    using r SimdRegs_of_view [OF l(2), of sr cr "replicate 8 0" rs]
    by (simp add: rs_get_regs_with_simd_def assms(1,2) errno_result_def T)
qed

lemma rs_set_reg_target:
  assumes "rs_drv E = D" "nix_ok E" "target s = Some (rs, vs, sr, cr)" "reg < 34"
  shows "\<exists>s'. rs_set_reg E fd reg v s = Some (Inr (), s') \<and>
    target s' = Some (rs[unat reg := v], vs, sr, cr)"
proof -
  have lt: "(ucast reg :: u64) < 34" "unat (ucast reg :: u64) = unat reg"
    using assms(4) by (simp_all add: word_less_nat_alt)
  have code: "request_code_write_ptr E RWMEM_BP_MAGIC 1 16 = IOCTL_BP_SET_REG"
    using assms(2) by (simp add: nix_ok_def RWMEM_BP_MAGIC_def IOCTL_BP_SET_REG_def RWMEM_BP_MAJOR_NUM_def)
  from set_target [OF assms(3) lt(1), of v] obtain buf s' where
    "os_ioctl_buf D fd IOCTL_BP_SET_REG (u64_bytes (ucast reg) @ u64_bytes v) s = Some (0, buf, s')"
    "target s' = Some (rs[unat reg := v], vs, sr, cr)" by (auto simp: lt(2))
  then show ?thesis
    using assms(4) by (simp add: rs_set_reg_def bp_write_call_def assms(1) code errno_result_def)
qed

lemma rs_set_simd_target:
  assumes "rs_drv E = D" "nix_ok E" "target s = Some T" "reg < 34" "length (os_new D 8) = 8"
  shows "\<exists>s'. rs_set_simd_reg E fd reg v s = Some (Inr (), s') \<and> target s' = Some (set_simd (ucast reg) v T)"
proof -
  have lt: "(ucast reg :: u64) < 34"
    using assms(4) by (simp add: word_less_nat_alt)
  have code: "request_code_write_ptr E RWMEM_BP_MAGIC 2 32 = IOCTL_BP_SET_SIMD_REG"
    using assms(2) by (simp add: nix_ok_def RWMEM_BP_MAGIC_def IOCTL_BP_SET_SIMD_REG_def RWMEM_BP_MAJOR_NUM_def)
  from set_simd_target [OF assms(3) lt assms(5), of v] obtain buf s' where
    "os_ioctl_buf D fd IOCTL_BP_SET_SIMD_REG (u64_bytes (ucast reg) @ os_new D 8 @ le_bytes 16 (unat v)) s =
      Some (0, buf, s')" "target s' = Some (set_simd (ucast reg) v T)" by auto
  then show ?thesis
    using assms(4) by (simp add: rs_set_simd_reg_def bp_write_call_def assms(1) code errno_result_def)
qed

end

section \<open>The driver's breakpoint files\<close>

text \<open>The descriptors of the process: the device, or for \<open>Some filp\<close> a breakpoint file. Closing a
  breakpoint's descriptor is the last close of its file.\<close>

definition kernel_files :: "u64 \<Rightarrow> ioenv \<Rightarrow> (int \<Rightarrow> u64 option) \<Rightarrow> bpw drv" where
  "kernel_files u E F = (kernel_drv u E)\<lparr>
     os_read := (\<lambda>fd buf n w. case F fd of
         None \<Rightarrow> os_read (kernel_drv u E) fd buf n w
       | Some f \<Rightarrow> (case rwmem_bp_read (bpenv.truncate E) f u n (w\<lparr>bk := place u buf (bk w)\<rparr>) of
             None \<Rightarrow> (- 1, buf, w)
           | Some (r, w') \<Rightarrow> (read_ret r, mem_read (umem (bk w')) u (length buf), w'))),
     os_ioctl_buf := (\<lambda>fd cmd buf w. case F fd of
         None \<Rightarrow> os_ioctl_buf (kernel_drv u E) fd cmd buf w
       | Some f \<Rightarrow> (case rwmem_bp_ioctl (bpenv.truncate E) f cmd u (w\<lparr>bk := place u buf (bk w)\<rparr>) of
             None \<Rightarrow> None
           | Some (r, w') \<Rightarrow> Some (ioctl_ret r, mem_read (umem (bk w')) u (length buf), w'))),
     os_ioctl_val := (\<lambda>fd cmd v w. case F fd of
         None \<Rightarrow> os_ioctl_val (kernel_drv u E) fd cmd v w
       | Some f \<Rightarrow> (case rwmem_bp_ioctl (bpenv.truncate E) f cmd v w of
             None \<Rightarrow> None | Some (r, w') \<Rightarrow> Some (ioctl_ret r, w'))),
     os_close := (\<lambda>fd w. case F fd of
         None \<Rightarrow> w
       | Some f \<Rightarrow> (case rwmem_bp_release f w of None \<Rightarrow> w | Some (_, w') \<Rightarrow> w'))\<rparr>"

text \<open>The registers of the task a stopped file waits for.\<close>

definition kernel_target :: "ioenv \<Rightarrow> u64 \<Rightarrow> bpw \<Rightarrow> all_regs option" where
  "kernel_target E f w =
     (case bp_files w f of
        None \<Rightarrow> None
      | Some d \<Rightarrow>
          (case target_task d of
             None \<Rightarrow> None
           | Some t \<Rightarrow>
               if stopped_flag d \<and> kenv_copy_ok (b_k E) \<and> regs_ok w then Some (task_regs (bp_tasks w t)) else None))"

lemma kernel_targetE:
  assumes "kernel_target E f w = Some T"
  obtains d t where "bp_files w f = Some d" "stopped_flag d" "target_task d = Some t" "kenv_copy_ok (b_k E)"
    "regs_ok w" "T = task_regs (bp_tasks w t)"
  using assms by (auto simp: kernel_target_def split: option.splits if_splits)

lemma kernel_target_bk [simp]: "kernel_target E f (w\<lparr>bk := k\<rparr>) = kernel_target E f w"
  by (simp add: kernel_target_def regs_ok_def cong: option.case_cong if_cong)

lemma truncate_sel [simp]: "b_k (bpenv.truncate E) = b_k E" "sizeof_pt_regs (bpenv.truncate E) = sizeof_pt_regs E"
  by (simp_all add: bpenv.truncate_def)

lemma all_bytes_task: "all_bytes (task_regs u) = user_regs_bytes u @ fpsimd_bytes u"
  by (simp add: all_bytes_def task_regs_def user_regs_bytes_def fpsimd_bytes_def)

lemma set_task_same: "bp_tasks (set_task t u w) t' = (if t' = t then u else bp_tasks w t')"
  "bp_files (set_task t u w) = bp_files w"
  by (simp_all add: set_task_def)

lemma regs_ok_lengths: "regs_ok w \<Longrightarrow> length (t_regs (bp_tasks w t)) = 34 \<and> length (t_vregs (bp_tasks w t)) = 32"
  by (simp add: regs_ok_def)

definition files_target :: "ioenv \<Rightarrow> (int \<Rightarrow> u64 option) \<Rightarrow> int \<Rightarrow> bpw \<Rightarrow> all_regs option" where
  "files_target E F fd w = (case F fd of None \<Rightarrow> None | Some f \<Rightarrow> kernel_target E f w)"

lemma copy_out_place:
  assumes "kenv_copy_ok (b_k E)"
  shows "copy_out E a bs w = (True, w\<lparr>bk := (bk w)\<lparr>umem := mem_write (umem (bk w)) a bs\<rparr>\<rparr>)"
  using assms by (simp add: copy_out_def copy_to_user_def kenv_copy_ok_def)

lemma target_bytes_length:
  assumes "regs_ok w"
  shows "length (user_regs_bytes (bp_tasks w t)) = 272" "length (fpsimd_bytes (bp_tasks w t)) = 528"
  using assms by (simp_all only: user_regs_bytes_def fpsimd_bytes_def regs_ok_def length_concat_u64
      length_concat_u128 length_append length_u32_bytes length_replicate)

lemma bp_read_target:
  assumes "kernel_target E f w = Some T" "length buf \<in> {272, 800}"
  shows "\<exists>w'. rwmem_bp_read (bpenv.truncate E) f u (word_of_nat (length buf)) (w\<lparr>bk := place u buf (bk w)\<rparr>) =
      Some (int (sizeof_pt_regs E) + (if length buf = 800 then 528 else 0), w') \<and>
    mem_read (umem (bk w')) u (length buf) = take (length buf) (all_bytes T) \<and> kernel_target E f w' = Some T"
proof -
  obtain d t where d: "bp_files w f = Some d" "stopped_flag d" "target_task d = Some t" "kenv_copy_ok (b_k E)"
    "regs_ok w" "T = task_regs (bp_tasks w t)" by (rule kernel_targetE [OF assms(1)])
  let ?u = "bp_tasks w t"
  have co: "copy_out (bpenv.truncate E) a bs w' = (True, w'\<lparr>bk := (bk w')\<lparr>umem := mem_write (umem (bk w')) a bs\<rparr>\<rparr>)"
    for a bs w' by (rule copy_out_place) (simp add: d(4))
  note len = target_bytes_length [OF d(5), of t]
  let ?k = "place u buf (bk w)"
  show ?thesis
  proof (cases "length buf = 272")
    case True
    let ?w' = "w\<lparr>bk := ?k\<lparr>umem := mem_write (umem ?k) u (user_regs_bytes ?u)\<rparr>\<rparr>"
    have "rwmem_bp_read (bpenv.truncate E) f u (word_of_nat (length buf)) (w\<lparr>bk := ?k\<rparr>) =
        Some (int (sizeof_pt_regs E), ?w')"
      unfolding True by (simp add: rwmem_bp_read_def d co Let_def)
    moreover have "mem_read (umem (bk ?w')) u 272 = take 272 (all_bytes T)"
      using len by (simp add: d(6) all_bytes_task)
    ultimately show ?thesis using True assms(1) by simp
  next
    case False
    then have l: "length buf = 800" using assms(2) by simp
    let ?m = "mem_write (mem_write (umem ?k) u (user_regs_bytes ?u)) (u + 272) (fpsimd_bytes ?u)"
    let ?w' = "w\<lparr>bk := ?k\<lparr>umem := ?m\<rparr>\<rparr>"
    have "rwmem_bp_read (bpenv.truncate E) f u (word_of_nat (length buf)) (w\<lparr>bk := ?k\<rparr>) =
        Some (int (sizeof_pt_regs E) + 528, ?w')"
      unfolding l by (simp add: rwmem_bp_read_def d co Let_def)
    moreover have "?m = mem_write (umem ?k) u (all_bytes T)"
      using mem_write_append [of "user_regs_bytes ?u" "fpsimd_bytes ?u" "umem ?k" u] len
      by (simp add: d(6) all_bytes_task)
    then have "mem_read ?m u 800 = take 800 (all_bytes T)"
      using len by (simp add: d(6) all_bytes_task)
    ultimately show ?thesis using l assms(1) by simp
  qed
qed

lemma place_copied:
  assumes "kenv_copy_ok (b_k E)" "length bs \<le> 2 ^ 64"
  shows "copy_from_user (b_k E) u (length bs) (place u bs s) = (0, bs)"
  using assms by (simp add: copy_from_user_def kenv_copy_ok_def place_def)

lemma kernel_target_set:
  assumes "bp_files w f = Some d" "stopped_flag d" "target_task d = Some t" "kenv_copy_ok (b_k E)" "regs_ok w"
    and "length (t_regs x) = 34" "length (t_vregs x) = 32"
  shows "kernel_target E f (set_task t x w) = Some (task_regs x)"
  using assms by (simp add: kernel_target_def set_task_def regs_ok_def)

lemma bp_set_target:
  assumes "kernel_target E f w = Some (rs, vs, sr, cr)" "r < 34"
  shows "\<exists>w'. rwmem_bp_ioctl (bpenv.truncate E) f IOCTL_BP_SET_REG u
      (w\<lparr>bk := place u (u64_bytes r @ u64_bytes v) (bk w)\<rparr>) = Some (0, w') \<and>
    kernel_target E f w' = Some (rs[unat r := v], vs, sr, cr)"
proof -
  obtain d t where d: "bp_files w f = Some d" "stopped_flag d" "target_task d = Some t" "kenv_copy_ok (b_k E)"
    "regs_ok w" "(rs, vs, sr, cr) = task_regs (bp_tasks w t)" by (rule kernel_targetE [OF assms(1)])
  let ?k = "place u (u64_bytes r @ u64_bytes v) (bk w)"
  have c: "copy_from_user (b_k E) u 16 ?k = (0, u64_bytes r @ u64_bytes v)"
    using place_copied [OF d(4), of "u64_bytes r @ u64_bytes v" u "bk w"] by simp
  let ?x = "(bp_tasks w t)\<lparr>t_regs := (t_regs (bp_tasks w t))[unat r := v]\<rparr>"
  have "rwmem_bp_ioctl (bpenv.truncate E) f IOCTL_BP_SET_REG u (w\<lparr>bk := ?k\<rparr>) = Some (0, set_task t ?x (w\<lparr>bk := ?k\<rparr>))"
    using assms(2) d(1-4) c
    by (simp add: rwmem_bp_ioctl_def bp_set_reg_def get_bytes_def Let_def linorder_not_less [symmetric])
  moreover have "kernel_target E f (set_task t ?x (w\<lparr>bk := ?k\<rparr>)) = Some (task_regs ?x)"
    using d by (intro kernel_target_set) (simp_all add: regs_ok_def)
  ultimately show ?thesis using d(6) by (simp add: task_regs_def)
qed

lemma bp_set_simd_target:
  assumes "kernel_target E f w = Some T" "r < 34" "length pad = 8"
  shows "\<exists>w'. rwmem_bp_ioctl (bpenv.truncate E) f IOCTL_BP_SET_SIMD_REG u
      (w\<lparr>bk := place u (u64_bytes r @ pad @ le_bytes 16 (unat x)) (bk w)\<rparr>) = Some (0, w') \<and>
    kernel_target E f w' = Some (set_simd r x T)"
proof -
  obtain d t where d: "bp_files w f = Some d" "stopped_flag d" "target_task d = Some t" "kenv_copy_ok (b_k E)"
    "regs_ok w" "T = task_regs (bp_tasks w t)" by (rule kernel_targetE [OF assms(1)])
  let ?p = "u64_bytes r @ pad @ le_bytes 16 (unat x)"
  let ?k = "place u ?p (bk w)"
  have c: "copy_from_user (b_k E) u 32 ?k = (0, ?p)"
    using place_copied [OF d(4), of ?p u "bk w"] assms(3) by simp
  have g: "u64_of (get_bytes 0 8 ?p) = r" "word_of_nat (le_nat (get_bytes 16 16 ?p)) = x"
    using assms(3) by (simp_all add: get_bytes_def u128_of_bytes)
  let ?t = "bp_tasks w t"
  let ?x = "if r < 32 then ?t\<lparr>t_vregs := (t_vregs ?t)[unat r := x]\<rparr>
    else if r = 32 then ?t\<lparr>t_fpsr := ucast x\<rparr> else ?t\<lparr>t_fpcr := ucast x\<rparr>"
  have r: "r < 32 \<or> r = 32 \<or> r = 33"
  proof -
    have "unat r < 34" using assms(2) by (simp add: word_less_nat_alt)
    then have "unat r < 32 \<or> unat r = 32 \<or> unat r = 33" by linarith
    then show ?thesis by (auto simp: word_less_nat_alt word_unat_eq_iff)
  qed
  have "rwmem_bp_ioctl (bpenv.truncate E) f IOCTL_BP_SET_SIMD_REG u (w\<lparr>bk := ?k\<rparr>) =
      Some (0, set_task t ?x (w\<lparr>bk := ?k\<rparr>))"
    using r d(1-4) c g by (auto simp: rwmem_bp_ioctl_def bp_set_simd_reg_def Let_def)
  moreover have "kernel_target E f (set_task t ?x (w\<lparr>bk := ?k\<rparr>)) = Some (task_regs ?x)"
    using d by (intro kernel_target_set) (simp_all add: regs_ok_def)
  moreover have "task_regs ?x = set_simd r x T" by (simp add: d(6) task_regs_def set_simd_def)
  ultimately show ?thesis by simp
qed

interpretation kb: stopped_breakpoint "kernel_files u E F" fd "files_target E F fd" for u E F fd
proof unfold_locales
  fix w rs vs sr cr
  assume "files_target E F fd w = Some (rs, vs, sr, cr)"
  then obtain f where "kernel_target E f w = Some (rs, vs, sr, cr)" by (auto simp: files_target_def split: option.splits)
  then show "length rs = 34 \<and> length vs = 32"
    by (elim kernel_targetE) (simp add: task_regs_def regs_ok_def)
next
  fix w T and buf :: "byte list"
  assume a: "files_target E F fd w = Some T" "length buf \<in> {272, 800}"
  then obtain f where f: "F fd = Some f" "kernel_target E f w = Some T" by (auto simp: files_target_def split: option.splits)
  from bp_read_target [OF f(2) a(2), of u] obtain w' where w:
    "rwmem_bp_read (bpenv.truncate E) f u (word_of_nat (length buf)) (w\<lparr>bk := place u buf (bk w)\<rparr>) =
      Some (int (sizeof_pt_regs E) + (if length buf = 800 then 528 else 0), w')"
    "mem_read (umem (bk w')) u (length buf) = take (length buf) (all_bytes T)" "kernel_target E f w' = Some T" by blast
  have "read_ret (int (sizeof_pt_regs E) + (if length buf = 800 then 528 else 0)) =
      int (sizeof_pt_regs E + (if length buf = 800 then 528 else 0))" by (simp add: read_ret_def)
  with w f(1) show "\<exists>n w'. os_read (kernel_files u E F) fd buf (word_of_nat (length buf)) w =
      (int n, take (length buf) (all_bytes T), w') \<and> files_target E F fd w' = Some T"
    by (intro exI [of _ "sizeof_pt_regs E + (if length buf = 800 then 528 else 0)"] exI [of _ w'] conjI)
      (simp_all add: kernel_files_def files_target_def)
next
  fix w rs vs sr cr r v
  assume a: "files_target E F fd w = Some (rs, vs, sr, cr)" "r < (34 :: u64)"
  then obtain f where f: "F fd = Some f" "kernel_target E f w = Some (rs, vs, sr, cr)"
    by (auto simp: files_target_def split: option.splits)
  from bp_set_target [OF f(2) a(2), of u v] f(1)
  show "\<exists>buf w'. os_ioctl_buf (kernel_files u E F) fd IOCTL_BP_SET_REG (u64_bytes r @ u64_bytes v) w =
      Some (0, buf, w') \<and> files_target E F fd w' = Some (rs[unat r := v], vs, sr, cr)"
    by (auto simp: kernel_files_def files_target_def ioctl_ret_def)
next
  fix w T r pad x
  assume a: "files_target E F fd w = Some T" "r < (34 :: u64)" "length (pad :: byte list) = 8"
  then obtain f where f: "F fd = Some f" "kernel_target E f w = Some T"
    by (auto simp: files_target_def split: option.splits)
  from bp_set_simd_target [OF f(2) a(2,3), of u x] f(1)
  show "\<exists>buf w'. os_ioctl_buf (kernel_files u E F) fd IOCTL_BP_SET_SIMD_REG
      (u64_bytes r @ pad @ le_bytes 16 (unat x)) w = Some (0, buf, w') \<and>
    files_target E F fd w' = Some (set_simd r x T)"
    by (auto simp: kernel_files_def files_target_def ioctl_ret_def)
qed

section \<open>Properties\<close>

lemma rs_add_bp_ok:
  assumes "rs_drv E = kernel_files u K F" "nix_ok E" "F fd = None" "kenv_copy_ok (b_k K)"
    and "len \<in> {1, 2, 4, 8}" "find_get_pid (b_k K) pid = Some p" "pid_task (b_k K) p = Some t"
    and "0 \<le> get_unused_fd K" "get_unused_fd K < 2 ^ 31" "anon_inode_getfile K = Inr f"
    and "perf_create K addr len (bp_type_code ty) t = Inr bp"
  shows "\<exists>w'. rs_add_bp E fd pid ty len addr w = Some (Inr (get_unused_fd K), w') \<and>
    w' = attach_bp f bp t (create_rwmem_bp_file f (w\<lparr>bk := bk w'\<rparr>))"
proof -
  let ?buf = "u32_bytes pid @ [bp_type_code ty, len] @ [0, 0] @ u64_bytes addr"
  have buf: "put_bytes 8 (u64_bytes addr) (((put_bytes 0 (u32_bytes pid) (replicate 16 0))
      [4 := bp_type_code ty])[5 := len]) = ?buf"
    by (simp add: put_bytes_def list_update_append numeral_eq_Suc)
  let ?w = "w\<lparr>bk := place u ?buf (bk w)\<rparr>"
  have ty: "bp_type_code ty \<le> 4" by (cases ty) simp_all
  have "mem_read (umem (bk ?w)) u 16 = ?buf" by (simp add: place_def)
  then have "ioctl_add_bp K u ?w = Some (get_unused_fd K, attach_bp f bp t (create_rwmem_bp_file f ?w))"
    by (rule ioctl_add_bp_ok [OF assms(4) _ _ ty assms(5-8,10,11)]) simp
  moreover have "request_code_readwrite E RWMEM_MAGIC 3 8 = IOCTL_ADD_BP"
    using assms(2) by (simp add: nix_ok_def RWMEM_MAGIC_def IOCTL_ADD_BP_def RWMEM_MAJOR_NUM_def)
  moreover have "rwmem_ioctl K IOCTL_ADD_BP u ?w = ioctl_add_bp K u ?w"
    by (simp add: rwmem_ioctl_def rwmem_cmd_values)
  moreover have "ioctl_ret (get_unused_fd K) = get_unused_fd K"
    using ioctl_ret_small [of "nat (get_unused_fd K)"] assms(8,9) by simp
  moreover have "bk (attach_bp f bp t (create_rwmem_bp_file f ?w)) = bk ?w"
    by (simp add: attach_bp_def create_rwmem_bp_file_def set_data_def Let_def)
  ultimately show ?thesis
    using assms(3,8)
    by (simp add: rs_add_bp_def Let_def buf assms(1) kernel_files_def kernel_drv_def errno_result_def
        del: replicate_Suc)
qed

text \<open>C29. Adding a breakpoint through the Rust library is the creation step of the driver's breakpoint
  state machine: for a process that exists, a length the hardware has and an event the kernel
  grants, the call returns the new descriptor, and a breakpoint of the asked type is attached to
  the process's task at the asked address.\<close>

theorem rs_add_bp_attaches:
  assumes "rs_drv E = kernel_files u K F" "nix_ok E" "F fd = None" "kenv_copy_ok (b_k K)"
    and "len \<in> {1, 2, 4, 8}" "find_get_pid (b_k K) pid = Some p" "pid_task (b_k K) p = Some t"
    and "0 \<le> get_unused_fd K" "get_unused_fd K < 2 ^ 31" "anon_inode_getfile K = Inr f"
    and "perf_create K addr len (bp_type_code ty) t = Inr bp"
  shows "\<exists>w'. rs_add_bp E fd pid ty len addr w = Some (Inr (get_unused_fd K), w') \<and>
    w' = attach_bp f bp t (create_rwmem_bp_file f (w\<lparr>bk := bk w'\<rparr>))"
  by (rule rs_add_bp_ok [OF assms])

text \<open>C26. Registers set through the Rust library are the ones it reads back: on the descriptor of a
  stopped breakpoint setting a general and a vector register succeeds, and the registers then
  read are the old ones with exactly these two changed. For the call that reads both sets this
  needs the compiler to place the general registers first in the tuple.\<close>

theorem rs_registers_roundtrip:
  assumes "rs_drv E = kernel_files u K F" "nix_ok E" "F fd = Some f"
    and "kernel_target K f w = Some (rs, vs, sr, cr)" "reg < 34" "reg' < 34"
  shows "\<exists>w1 w2 w3. rs_set_reg E fd reg v w = Some (Inr (), w1) \<and>
    rs_set_simd_reg E fd reg' x w1 = Some (Inr (), w2) \<and>
    rs_get_regs E fd w2 = (Inr (regs_view (rs[unat reg := v], vs, sr, cr)), w3) \<and>
    (all_regs_layout E = (0, 272) \<longrightarrow> (\<exists>w4. rs_get_regs_with_simd E fd w3 =
      (Inr (regs_view (rs[unat reg := v], vs, sr, cr),
        simd_view (set_simd (ucast reg') x (rs[unat reg := v], vs, sr, cr))), w4)))"
proof -
  let ?T = "(rs[unat reg := v], vs, sr, cr)" and ?T' = "set_simd (ucast reg') x (rs[unat reg := v], vs, sr, cr)"
  have t: "files_target K F fd w = Some (rs, vs, sr, cr)" using assms(3,4) by (simp add: files_target_def)
  obtain w1 where w1: "rs_set_reg E fd reg v w = Some (Inr (), w1)" "files_target K F fd w1 = Some ?T"
    using kb.rs_set_reg_target [OF assms(1,2) t assms(5)] by blast
  have "length (os_new (kernel_files u K F) 8) = 8" by (simp add: kernel_files_def kernel_drv_def)
  from kb.rs_set_simd_target [OF assms(1,2) w1(2) assms(6) this] obtain w2 where
    w2: "rs_set_simd_reg E fd reg' x w1 = Some (Inr (), w2)" "files_target K F fd w2 = Some ?T'" by blast
  obtain w3 where w3: "rs_get_regs E fd w2 = (Inr (regs_view ?T'), w3)" "files_target K F fd w3 = Some ?T'"
    using kb.rs_get_regs_target [OF assms(1) w2(2)] by blast
  have "regs_view ?T' = regs_view ?T" by (simp add: regs_view_def set_simd_def)
  with w1 w2 w3 kb.rs_get_all_target [OF assms(1) _ w3(2)] show ?thesis by fastforce
qed

text \<open>While the target runs, the Rust library reports the breakpoint as not stopped, and
  continuing, stepping, setting a register and reading the registers are errors that leave the
  target and its breakpoints alone; a register number the target does not have is refused without
  asking the driver.\<close>

theorem rs_running_refused:
  assumes "rs_drv E = kernel_files u K F" "nix_ok E" "F fd = Some f" "bp_files w f = Some d" "\<not> stopped_flag d"
  shows "rs_is_stopped E fd w = Some (Inr False, w) \<and>
    rs_cont E fd w = Some (Inl (Errno (rs_errno E w)), w) \<and>
    rs_step E fd w = Some (Inl (Errno (rs_errno E w)), w) \<and>
    (\<exists>e w'. rs_set_reg E fd reg v w = Some (Inl e, w') \<and> w' = w\<lparr>bk := bk w'\<rparr> \<and>
      (34 \<le> reg \<longrightarrow> e = InvalidRegister (ucast reg) \<and> w' = w)) \<and>
    (\<exists>e w'. rs_get_regs E fd w = (Inl e, w') \<and> w' = w\<lparr>bk := bk w'\<rparr>)"
proof -
  have codes: "request_code_none E RWMEM_BP_MAGIC 0 = IOCTL_BP_CONTINUE"
    "request_code_none E RWMEM_BP_MAGIC 3 = IOCTL_BP_STEP" "request_code_none E RWMEM_BP_MAGIC 4 = IOCTL_BP_IS_STOPPED"
    "request_code_write_ptr E RWMEM_BP_MAGIC 1 16 = IOCTL_BP_SET_REG"
    using assms(2) by (simp_all add: nix_ok_def RWMEM_BP_MAGIC_def RWMEM_BP_MAJOR_NUM_def IOCTL_BP_CONTINUE_def
        IOCTL_BP_STEP_def IOCTL_BP_IS_STOPPED_def IOCTL_BP_SET_REG_def)
  have ioctl: "rwmem_bp_ioctl B f IOCTL_BP_CONTINUE x w = Some (- EINVAL, w)"
    "rwmem_bp_ioctl B f IOCTL_BP_STEP x w = Some (- EINVAL, w)"
    "rwmem_bp_ioctl B f IOCTL_BP_IS_STOPPED x w = Some (0, w)" for B x
    using assms(4,5) by (simp_all add: rwmem_bp_ioctl_def bp_ioctl_defs)
  have val: "os_ioctl_val (kernel_files u K F) fd IOCTL_BP_CONTINUE x w = Some (-1, w)"
    "os_ioctl_val (kernel_files u K F) fd IOCTL_BP_STEP x w = Some (-1, w)"
    "os_ioctl_val (kernel_files u K F) fd IOCTL_BP_IS_STOPPED x w = Some (0, w)" for x
    using assms(3) by (simp_all add: kernel_files_def ioctl ioctl_ret_def EINVAL_def)
  have buf: "\<exists>b. os_ioctl_buf (kernel_files u K F) fd IOCTL_BP_SET_REG p w = Some (-1, b, w\<lparr>bk := place u p (bk w)\<rparr>)" for p
    using assms(3-5) by (simp add: kernel_files_def rwmem_bp_ioctl_def bp_ioctl_defs ioctl_ret_def EINVAL_def)
  have rd: "\<exists>b. os_read (kernel_files u K F) fd p n w = (-1, b, w\<lparr>bk := place u p (bk w)\<rparr>)" for p n
    using assms(3-5) by (simp add: kernel_files_def rwmem_bp_read_def read_ret_def EINVAL_def)
  have "rs_is_stopped E fd w = Some (Inr False, w)" "rs_cont E fd w = Some (Inl (Errno (rs_errno E w)), w)"
    "rs_step E fd w = Some (Inl (Errno (rs_errno E w)), w)"
    by (simp_all add: rs_is_stopped_def rs_cont_def rs_step_def bp_call_def assms(1) codes val errno_result_def)
  moreover have "\<exists>e w'. rs_set_reg E fd reg v w = Some (Inl e, w') \<and> w' = w\<lparr>bk := bk w'\<rparr> \<and>
      (34 \<le> reg \<longrightarrow> e = InvalidRegister (ucast reg) \<and> w' = w)"
    using buf [of "u64_bytes (ucast reg) @ u64_bytes v"]
    by (auto simp: rs_set_reg_def bp_write_call_def assms(1) codes errno_result_def)
  moreover have "\<exists>e w'. rs_get_regs E fd w = (Inl e, w') \<and> w' = w\<lparr>bk := bk w'\<rparr>"
    using rd [of "replicate 272 0" 272] by (auto simp: rs_get_regs_def assms(1) errno_result_def)
  ultimately show ?thesis by blast
qed

text \<open>Descriptor 4 is the breakpoint of the sample machine.\<close>

definition demo_files :: "int \<Rightarrow> u64 option" where "demo_files fd = (if fd = 4 then Some demo_file else None)"

definition demo_rsbp :: "bpw rsenv" where
  "demo_rsbp = demo_rsenv\<lparr>rs_drv := kernel_files 0x1000 (demo_ioenv (Inr 0)) demo_files\<rparr>"

lemma demo_rsbp_ok [simp]:
  "nix_ok demo_rsbp" "rs_drv demo_rsbp = kernel_files 0x1000 (demo_ioenv (Inr 0)) demo_files"
  "rs_errno demo_rsbp w = EINVAL" "all_regs_layout demo_rsbp = (0, 272)" "demo_files 4 = Some demo_file"
  using demo_rsenv_ok(1) by (simp_all add: demo_rsbp_def nix_ok_def demo_rsenv_def demo_files_def)

lemma demo_target:
  "kernel_target (demo_ioenv (Inr 0)) demo_file demo_bp3 = Some (replicate 34 9, replicate 32 0, 0, 0)"
proof -
  have "regs_ok demo_bp3" using bp_reach_inv [OF demo_reach] by (simp add: bp_inv_def)
  moreover have "task_regs (bp_tasks demo_bp3 5) = (replicate 34 9, replicate 32 0, 0, 0)"
    by (simp add: task_regs_def demo_bp3_def demo_bp2_def bp_callback_def queue_work_def bp_after_enter_def demo_bp_defs)
  ultimately show ?thesis
    by (simp add: kernel_target_def demo_bp3_sel demo_data_def demo_ioenv_sel demo_copy_ok)
qed

theorem rs_registers_roundtrip_witness:
  "\<exists>w1 w2 w3. rs_set_reg demo_rsbp 4 32 0x4000 demo_bp3 = Some (Inr (), w1) \<and>
    rs_set_simd_reg demo_rsbp 4 0 5 w1 = Some (Inr (), w2) \<and>
    rs_get_regs demo_rsbp 4 w2 = (Inr \<lparr>rg_regs = replicate 31 9, rg_sp = 9, rg_pc = 0x4000, rg_pstate = 9\<rparr>, w3)"
proof -
  have "regs_view ((replicate 34 9)[unat (32 :: byte) := 0x4000], replicate 32 0, 0, 0) =
      \<lparr>rg_regs = replicate 31 9, rg_sp = 9, rg_pc = 0x4000, rg_pstate = 9\<rparr>"
    by (simp add: regs_view_def min_def)
  with rs_registers_roundtrip [OF demo_rsbp_ok(2,1,5) demo_target, of 32 0 "0x4000" 5]
  show ?thesis by (auto simp: word_less_nat_alt)
qed

theorem rs_running_refused_witness:
  "rs_is_stopped demo_rsbp 4 demo_bp1 = Some (Inr False, demo_bp1) \<and>
    rs_step demo_rsbp 4 demo_bp1 = Some (Inl (Errno EINVAL), demo_bp1)"
proof -
  have "bp_files demo_bp1 demo_file = Some (demo_data\<lparr>stopped_flag := False, poll := 0\<rparr>)"
    by (simp add: demo_bp_defs demo_data_def)
  from rs_running_refused [OF demo_rsbp_ok(2,1,5) this, of 0 0] show ?thesis by simp
qed

lemma demo_add: "\<exists>w'. rs_add_bp demo_rsbp 3 7 BpWrite 4 0x10010 demo_bp0 = Some (Inr 4, w')"
  using rs_add_bp_ok [OF demo_rsbp_ok(2,1), where fd = 3 and len = 4 and pid = 7 and p = 3 and t = 5
      and f = demo_file and addr = "0x10010" and ty = BpWrite and bp = 0 and w = demo_bp0]
  by (auto simp: demo_files_def demo_ioenv_sel demo_copy_ok)

theorem rs_add_bp_attaches_witness:
  "\<exists>w'. rs_add_bp demo_rsbp 3 7 BpWrite 4 0x10010 demo_bp0 = Some (Inr 4, w') \<and>
    bp_files w' demo_file = Some (demo_data\<lparr>stopped_flag := False, poll := 0\<rparr>)"
proof -
  let ?K = "demo_ioenv (Inr 0)"
  have k: "get_unused_fd ?K = 4" "b_k ?K = demo_env" by (simp_all add: demo_ioenv_sel)
  obtain w' where w: "rs_add_bp demo_rsbp 3 7 BpWrite 4 0x10010 demo_bp0 = Some (Inr 4, w')"
    "w' = attach_bp demo_file 0 5 (create_rwmem_bp_file demo_file (demo_bp0\<lparr>bk := bk w'\<rparr>))"
    using rs_add_bp_attaches [OF demo_rsbp_ok(2,1), where fd = 3 and len = 4 and pid = 7 and p = 3 and t = 5
        and f = demo_file and addr = "0x10010" and ty = BpWrite and bp = 0 and w = demo_bp0]
    by (auto simp: demo_files_def demo_ioenv_sel demo_copy_ok)
  have "bp_files (attach_bp demo_file 0 5 (create_rwmem_bp_file demo_file (demo_bp0\<lparr>bk := bk w'\<rparr>))) demo_file =
      Some (demo_data\<lparr>stopped_flag := False, poll := 0\<rparr>)"
    by (simp add: demo_bp_defs demo_data_def)
  with w show ?thesis by metis
qed

end
