(* ===== verification/Rs_Cli.thy ===== *)
theory Rs_Cli
  imports Rs_Breakpoint
begin

text \<open>
  The command-line tool (\<^verbatim>\<open>cli/src/main.rs\<close>): one command at a time over the Rust library, with a
  table of the breakpoints it has made, named by their descriptors. Parsing a line is the crates'
  (clap, shellish_parse); a line that does not parse is \<open>None\<close> in a session. Waiting for a
  breakpoint is tokio's: the parameter \<open>wait\<close>.
\<close>

section \<open>Commands\<close>

datatype Commands =
    AddBp u32 BreakpointType byte u64 | DelBp int | Continue int | SetReg int byte u64
  | SetSimdReg int byte u128 | GetRegs int bool | Wait int | GetMemMap u32
  | WriteMem u32 u64 "byte list" | ReadMem u32 u64 u64 | Step int | IsStopped int

datatype cli_error = NotFound | Failed rs_error

text \<open>What a command prints.\<close>

datatype shown =
    Done | Added int | ShowRegs Regs | ShowAll Regs SimdRegs | ShowMap "MapsEntry list"
  | ShowData "byte list" | ShowStopped bool

type_synonym bps = "int \<Rightarrow> int option"
type_synonym 's cli_result = "((cli_error + shown) \<times> bps \<times> 's) option"

text \<open>The \<open>?\<close> of a library call, and of the look-up of a breakpoint.\<close>

definition finish :: "('a \<Rightarrow> shown) \<Rightarrow> bps \<Rightarrow> ('a, 's) rs \<Rightarrow> 's cli_result" where
  "finish show_it bps r = (case r of None \<Rightarrow> None | Some (x, s) \<Rightarrow> Some (map_sum Failed show_it x, bps, s))"

definition with_bp :: "bps \<Rightarrow> int \<Rightarrow> 's \<Rightarrow> (int \<Rightarrow> 's cli_result) \<Rightarrow> 's cli_result" where
  "with_bp bps nm s f = (case bps nm of None \<Rightarrow> Some (Inl NotFound, bps, s) | Some bp \<Rightarrow> f bp)"

text \<open>Inserting under a key in use drops the breakpoint that was there.\<close>

definition insert_bp :: "'s drv \<Rightarrow> int \<Rightarrow> bps \<Rightarrow> 's \<Rightarrow> bps \<times> 's" where
  "insert_bp D bp bps s = (bps(bp \<mapsto> bp), case bps bp of None \<Rightarrow> s | Some old \<Rightarrow> os_close D old s)"

fun run_cmd :: "'s rsenv \<Rightarrow> (int \<Rightarrow> 's \<Rightarrow> (rs_error + unit) \<times> 's) \<Rightarrow> int \<Rightarrow> Commands \<Rightarrow> bps \<Rightarrow> 's \<Rightarrow> 's cli_result" where
  "run_cmd E wait device (AddBp pid bp_type len addr) bps s =
     (case rs_add_bp E device pid bp_type len addr s of
        None \<Rightarrow> None
      | Some (Inl e, s') \<Rightarrow> Some (Inl (Failed e), bps, s')
      | Some (Inr bp, s') \<Rightarrow> (case insert_bp (rs_drv E) bp bps s' of (bps', s'') \<Rightarrow> Some (Inr (Added bp), bps', s'')))"
| "run_cmd E wait device (DelBp nm) bps s =
     with_bp bps nm s (\<lambda>bp. Some (Inr Done, bps(nm := None), os_close (rs_drv E) bp s))"
| "run_cmd E wait device (Continue nm) bps s = with_bp bps nm s (\<lambda>bp. finish (\<lambda>_. Done) bps (rs_cont E bp s))"
| "run_cmd E wait device (SetReg nm reg_id value) bps s =
     with_bp bps nm s (\<lambda>bp. finish (\<lambda>_. Done) bps (rs_set_reg E bp reg_id value s))"
| "run_cmd E wait device (SetSimdReg nm reg_id value) bps s =
     with_bp bps nm s (\<lambda>bp. finish (\<lambda>_. Done) bps (rs_set_simd_reg E bp reg_id value s))"
| "run_cmd E wait device (GetRegs nm simd) bps s =
     with_bp bps nm s (\<lambda>bp.
       if simd then finish (\<lambda>(r, v). ShowAll r v) bps (Some (rs_get_regs_with_simd E bp s))
       else finish ShowRegs bps (Some (rs_get_regs E bp s)))"
| "run_cmd E wait device (Wait nm) bps s = with_bp bps nm s (\<lambda>bp. finish (\<lambda>_. Done) bps (Some (wait bp s)))"
| "run_cmd E wait device (GetMemMap pid) bps s = finish ShowMap bps (rs_get_mem_map E device pid True s)"
| "run_cmd E wait device (WriteMem pid addr value) bps s =
     finish (\<lambda>_. Done) bps (Some (rs_write_mem E device pid addr value s))"
| "run_cmd E wait device (ReadMem pid addr sz) bps s =
     (if sz \<ge> 2 ^ 63 then None
      else (case rs_read_mem E device pid addr (replicate (unat sz) 0) s of
        None \<Rightarrow> None
      | Some (r, buf, s') \<Rightarrow> finish (\<lambda>_. ShowData buf) bps (Some (r, s'))))"
| "run_cmd E wait device (Step nm) bps s = with_bp bps nm s (\<lambda>bp. finish (\<lambda>_. Done) bps (rs_step E bp s))"
| "run_cmd E wait device (IsStopped nm) bps s = with_bp bps nm s (\<lambda>bp. finish ShowStopped bps (rs_is_stopped E bp s))"

text \<open>The loop of \<open>main\<close> over the lines; a panic ends it.\<close>

fun session ::
    "'s rsenv \<Rightarrow> (int \<Rightarrow> 's \<Rightarrow> (rs_error + unit) \<times> 's) \<Rightarrow> int \<Rightarrow> Commands option list \<Rightarrow> bps \<Rightarrow> 's \<Rightarrow> (bps \<times> 's) option" where
  "session E wait device [] bps s = Some (bps, s)"
| "session E wait device (None # ls) bps s = session E wait device ls bps s"
| "session E wait device (Some c # ls) bps s =
     (case run_cmd E wait device c bps s of
        None \<Rightarrow> None
      | Some (_, bps', s') \<Rightarrow> session E wait device ls bps' s')"

section \<open>The table\<close>

text \<open>Every breakpoint is named by its own descriptor.\<close>

definition named_by_fd :: "bps \<Rightarrow> bool" where "named_by_fd bps \<longleftrightarrow> (\<forall>nm bp. bps nm = Some bp \<longrightarrow> bp = nm)"

lemma finish_bps: "finish f bps r = Some (x, bps', s') \<Longrightarrow> bps' = bps"
  by (auto simp: finish_def split: option.splits)

lemma with_bp_bps:
  assumes "with_bp bps nm s f = Some (x, bps', s')" "\<And>bp. f bp = Some (x, bps', s') \<Longrightarrow> bps' = bps"
  shows "bps' = bps"
  using assms by (auto simp: with_bp_def split: option.splits)

lemma run_cmd_bps:
  assumes "run_cmd E wait device c bps s = Some (r, bps', s')"
  shows "bps' = bps \<or> (\<exists>bp. r = Inr (Added bp) \<and> bps' = bps(bp \<mapsto> bp)) \<or>
    (\<exists>nm. c = DelBp nm \<and> r = Inr Done \<and> bps nm \<noteq> None \<and> bps' = bps(nm := None))"
proof (cases c)
  case (AddBp pid t len addr)
  with assms show ?thesis by (auto simp: insert_bp_def split: option.splits sum.splits prod.splits)
next
  case (DelBp nm)
  with assms show ?thesis by (auto simp: with_bp_def split: option.splits)
next
  case (ReadMem pid addr sz)
  with assms show ?thesis by (auto dest: finish_bps split: option.splits prod.splits if_splits)
qed (use assms in \<open>auto dest!: finish_bps with_bp_bps split: if_splits\<close>)

lemma run_cmd_added:
  assumes "run_cmd E wait device c bps s = Some (Inr (Added bp), bps', s')"
  shows "bps' = bps(bp \<mapsto> bp)"
  using assms
  by (cases c) (auto simp: insert_bp_def finish_def with_bp_def map_sum_def
      split: option.splits sum.splits prod.splits if_splits)

lemma run_cmd_named:
  "named_by_fd bps \<Longrightarrow> run_cmd E wait device c bps s = Some (r, bps', s') \<Longrightarrow> named_by_fd bps'"
  by (drule run_cmd_bps) (auto simp: named_by_fd_def split: if_splits)

text \<open>C40. The tool's table is right at every prompt: each breakpoint in it is named by its own
  descriptor, an add that succeeds enters exactly the new one, a deletion closes the one it names
  and forgets it, and every other command, every unknown name and every error leaves the table.\<close>

theorem cli_table:
  assumes "session E wait device ls (\<lambda>_. None) s0 = Some (bps, s)"
    and "run_cmd E wait device c bps s = Some (r, bps', s')"
  shows "named_by_fd bps \<and> named_by_fd bps' \<and>
    (\<forall>e. r = Inl e \<longrightarrow> bps' = bps) \<and>
    (\<forall>bp. r = Inr (Added bp) \<longrightarrow> bps' = bps(bp \<mapsto> bp)) \<and>
    (\<forall>nm. c = DelBp nm \<and> r = Inr Done \<longrightarrow> bps' = bps(nm := None) \<and> s' = os_close (rs_drv E) nm s) \<and>
    ((\<forall>bp. r \<noteq> Inr (Added bp)) \<and> (\<forall>nm. c \<noteq> DelBp nm) \<longrightarrow> bps' = bps)"
proof -
  have "named_by_fd bps0 \<Longrightarrow> session E wait device ls bps0 s0 = Some (bps, s) \<Longrightarrow> named_by_fd bps" for bps0
  proof (induction ls arbitrary: bps0 s0)
    case (Cons l ls)
    then show ?case by (cases l) (auto dest: run_cmd_named split: option.splits prod.splits)
  qed simp
  from this [of "\<lambda>_. None"] assms(1) have n: "named_by_fd bps" by (simp add: named_by_fd_def)
  show ?thesis
  proof (cases "\<exists>nm. c = DelBp nm")
    case True
    then obtain nm where c: "c = DelBp nm" by blast
    show ?thesis
    proof (cases "bps nm")
      case None
      with assms(2) c n show ?thesis by (auto simp: with_bp_def)
    next
      case (Some bp)
      then have "bp = nm" using n by (simp add: named_by_fd_def)
      with assms(2) c n Some run_cmd_named [OF n assms(2)] show ?thesis by (auto simp: with_bp_def)
    qed
  next
    case False
    have "bps' = bps(bp \<mapsto> bp)" if "r = Inr (Added bp)" for bp
      by (rule run_cmd_added) (use assms(2) that in simp)
    with False run_cmd_bps [OF assms(2)] run_cmd_named [OF n assms(2)] n show ?thesis by auto
  qed
qed

theorem cli_table_witness:
  "\<exists>bps s bps' s'. session demo_rsbp (\<lambda>_ s. (Inr (), s)) 3 [Some (AddBp 7 BpWrite 4 0x10010), None] (\<lambda>_. None) demo_bp0 =
      Some (bps, s) \<and> bps = [4 \<mapsto> 4] \<and>
    run_cmd demo_rsbp (\<lambda>_ s. (Inr (), s)) 3 (DelBp 4) bps s = Some (Inr Done, bps', s') \<and> bps' = Map.empty"
proof -
  let ?w = "\<lambda>_ s. (Inr (), s)"
  obtain s where a: "rs_add_bp demo_rsbp 3 7 BpWrite 4 0x10010 demo_bp0 = Some (Inr 4, s)"
    using demo_add by blast
  have 1: "session demo_rsbp ?w 3 [Some (AddBp 7 BpWrite 4 0x10010), None] (\<lambda>_. None) demo_bp0 = Some ([4 \<mapsto> 4], s)"
    by (simp add: a insert_bp_def)
  have 2: "run_cmd demo_rsbp ?w 3 (DelBp 4) [4 \<mapsto> 4] s =
      Some (Inr Done, [4 \<mapsto> 4](4 := None), os_close (rs_drv demo_rsbp) 4 s)"
    by (simp add: with_bp_def)
  from cli_table [OF 1 2] 1 2 show ?thesis by (intro exI conjI) auto
qed

end
